(* ===== verification/Prelude.thy ===== *)
theory Prelude
  imports Main "HOL-Library.Word"
begin

text \<open>
  Shared vocabulary of the development: the widths of the C integer types, the ways a C
  function can fail, the byte order conversions of \<open>endian.h\<close> on the little-endian
  ARM host the application is built for, the memory image of an integer, and the list
  lemmas on fixed-size pieces that the frame codec and the transport share.
\<close>

unbundle bit_operations_syntax

named_theorems const_defs \<open>values of the macros and enumerators of the headers\<close>

type_synonym u8 = "8 word"
type_synonym u16 = "16 word"
type_synonym u24 = "24 word"
type_synonym u32 = "32 word"
type_synonym u64 = "64 word"
type_synonym i16 = "16 word"
type_synonym bytes = "u8 list"

section \<open>Faults\<close>

text \<open>
  What ends a C function other than a return: an access outside an object
  (\<open>OutOfBounds\<close>), through a null pointer (\<open>NullDeref\<close>), to freed memory
  (\<open>UseAfterFree\<close>), a read of an object that was never written (\<open>Uninit\<close>), a
  call of \<open>err\<close>/\<open>errx\<close> that ends the process (\<open>ErrExit\<close>), a failed
  \<open>assert\<close> (\<open>AssertFail\<close>), a division by zero (\<open>DivByZero\<close>), an \<open>int\<close> expression whose value does
  not fit (\<open>Overflow\<close>), an exception nobody catches (\<open>Throw\<close>) and a \<open>free\<close> of what no allocation
  has returned (\<open>BadFree\<close>).
\<close>

datatype fault = OutOfBounds | NullDeref | UseAfterFree | DoubleFree | Uninit | ErrExit | AssertFail
  | DivByZero | Overflow | Throw | BadFree

type_synonym 'a res = "fault + 'a"

definition and_then :: "'a res \<Rightarrow> ('a \<Rightarrow> 'b res) \<Rightarrow> 'b res" where
  "and_then m f = (case m of Inl e \<Rightarrow> Inl e | Inr x \<Rightarrow> f x)"

lemma and_then_simps [simp]:
  "and_then (Inl e) f = Inl e"
  "and_then (Inr x) f = f x"
  by (simp_all add: and_then_def)

lemma and_then_eq_Inr: "and_then m f = Inr y \<longleftrightarrow> (\<exists>x. m = Inr x \<and> f x = Inr y)"
  by (cases m) auto

section \<open>Arrays and counted loops\<close>

text \<open>
  A C array is the list of its elements; reading and writing an element, and copying bytes
  into a buffer at an offset, fail outside it. A loop \<open>for (i = a; i < b; i++) body\<close> is
  \<open>for_each [a..<b] body\<close>.
\<close>

definition get_at :: "'a list \<Rightarrow> nat \<Rightarrow> 'a res" where
  "get_at xs i = (if i < length xs then Inr (xs ! i) else Inl OutOfBounds)"

definition put_at :: "'a list \<Rightarrow> nat \<Rightarrow> 'a \<Rightarrow> 'a list res" where
  "put_at xs i v = (if i < length xs then Inr (xs[i := v]) else Inl OutOfBounds)"

definition blit :: "'a list \<Rightarrow> nat \<Rightarrow> 'a list \<Rightarrow> 'a list res" where
  "blit buf p src = (if p + length src \<le> length buf
     then Inr (take p buf @ src @ drop (p + length src) buf) else Inl OutOfBounds)"

primrec for_each :: "'i list \<Rightarrow> ('i \<Rightarrow> 's \<Rightarrow> 's res) \<Rightarrow> 's \<Rightarrow> 's res" where
  "for_each [] body s = Inr s"
| "for_each (i # is) body s = and_then (body i s) (for_each is body)"

lemma get_at_ok [simp]: "i < length xs \<Longrightarrow> get_at xs i = Inr (xs ! i)"
  by (simp add: get_at_def)

lemma put_at_ok [simp]: "i < length xs \<Longrightarrow> put_at xs i v = Inr (xs[i := v])"
  by (simp add: put_at_def)

lemma put_at_Inr: "put_at xs i v = Inr ys \<longleftrightarrow> i < length xs \<and> ys = xs[i := v]"
  by (auto simp add: put_at_def)

lemma get_at_Inr: "get_at xs i = Inr y \<longleftrightarrow> i < length xs \<and> y = xs ! i"
  by (auto simp add: get_at_def)

lemma for_each_append: "for_each (is @ js) body s = and_then (for_each is body s) (for_each js body)"
proof (induction "is" arbitrary: s)
  case (Cons i "is")
  then show ?case by (cases "body i s") simp_all
qed simp

text \<open>An invariant of the loop: it holds after the last round when every round returns and
  keeps it.\<close>

lemma for_each_invariant:
  assumes "a \<le> b" and "I a s"
    and "\<And>i s. a \<le> i \<Longrightarrow> i < b \<Longrightarrow> I i s \<Longrightarrow> \<exists>s'. body i s = Inr s' \<and> I (Suc i) s'"
  shows "\<exists>s'. for_each [a..<b] body s = Inr s' \<and> I b s'"
  using assms
proof (induction b rule: dec_induct)
  case base
  then show ?case by simp
next
  case (step b)
  from step.IH [OF step.prems(1)] step.prems(2) obtain s1
    where "for_each [a..<b] body s = Inr s1" and "I b s1" by auto
  moreover from this(2) step obtain s2 where "body b s1 = Inr s2" and "I (Suc b) s2" by blast
  ultimately show ?case using step.hyps by (simp add: for_each_append)
qed

text \<open>The same when a round may fail: what every returning round keeps, the loop keeps.\<close>

lemma for_each_keeps:
  assumes "for_each is body s = Inr s'" and "I s"
    and "\<And>i s s'. i \<in> set is \<Longrightarrow> I s \<Longrightarrow> body i s = Inr s' \<Longrightarrow> I s'"
  shows "I s'"
  using assms
proof (induction "is" arbitrary: s)
  case (Cons i "is")
  from Cons.prems(1) obtain s1 where "body i s = Inr s1" and "for_each is body s1 = Inr s'"
    by (auto simp add: and_then_eq_Inr)
  with Cons show ?case by (meson list.set_intros)
qed simp

text \<open>A loop whose round \<open>i\<close> only rewrites element \<open>i\<close> of an array.\<close>

lemma for_each_update:
  assumes "n \<le> length xs"
  shows "for_each [0..<n] (\<lambda>i ys. and_then (get_at ys i) (\<lambda>y. put_at ys i (f i y))) xs =
    Inr (map (\<lambda>i. f i (xs ! i)) [0..<n] @ drop n xs)"
  using assms
proof (induction n)
  case (Suc n)
  then have "xs ! n = (map (\<lambda>i. f i (xs ! i)) [0..<n] @ drop n xs) ! n"
    by (simp add: nth_append)
  moreover have "drop n xs = xs ! n # drop (Suc n) xs"
    using Suc.prems by (simp add: Cons_nth_drop_Suc)
  ultimately show ?case using Suc
    by (simp add: for_each_append list_update_append)
qed simp

section \<open>Loops that may not end\<close>

text \<open>
  The coder's calls are partial functions, \<open>None\<close> when they do not return; a loop over such
  calls.
\<close>

definition bind_opt :: "'a res option \<Rightarrow> ('a \<Rightarrow> 'b res option) \<Rightarrow> 'b res option" where
  "bind_opt m f = (case m of None \<Rightarrow> None | Some (Inl e) \<Rightarrow> Some (Inl e) | Some (Inr x) \<Rightarrow> f x)"

lemma bind_opt_simps [simp]:
  "bind_opt None f = None" "bind_opt (Some (Inl e)) f = Some (Inl e)" "bind_opt (Some (Inr x)) f = f x"
  by (simp_all add: bind_opt_def)

primrec for_each_opt :: "'i list \<Rightarrow> ('i \<Rightarrow> 's \<Rightarrow> 's res option) \<Rightarrow> 's \<Rightarrow> 's res option" where
  "for_each_opt [] body s = Some (Inr s)"
| "for_each_opt (i # is) body s = bind_opt (body i s) (for_each_opt is body)"

lemma for_each_opt_append:
  "for_each_opt (is @ js) body s = bind_opt (for_each_opt is body s) (for_each_opt js body)"
proof (induction "is" arbitrary: s)
  case (Cons i "is")
  then show ?case by (cases "body i s" rule: option.exhaust; cases "the (body i s)") simp_all
qed simp

lemma for_each_opt_invariant:
  assumes "a \<le> b" and "I a s"
    and "\<And>i s. a \<le> i \<Longrightarrow> i < b \<Longrightarrow> I i s \<Longrightarrow> \<exists>s'. body i s = Some (Inr s') \<and> I (Suc i) s'"
  shows "\<exists>s'. for_each_opt [a..<b] body s = Some (Inr s') \<and> I b s'"
  using assms
proof (induction b rule: dec_induct)
  case base
  then show ?case by simp
next
  case (step b)
  from step.IH [OF step.prems(1)] step.prems(2) obtain s1
    where "for_each_opt [a..<b] body s = Some (Inr s1)" and "I b s1" by auto
  moreover from this(2) step obtain s2 where "body b s1 = Some (Inr s2)" and "I (Suc b) s2" by blast
  ultimately show ?case using step.hyps by (simp add: for_each_opt_append)
qed

text \<open>A loop that goes well up to a round that does not.\<close>

lemma for_each_opt_stops:
  assumes "a \<le> k" and "k < b" and "I a s"
    and "\<And>i s. a \<le> i \<Longrightarrow> i < k \<Longrightarrow> I i s \<Longrightarrow> \<exists>s'. body i s = Some (Inr s') \<and> I (Suc i) s'"
    and "\<And>s. I k s \<Longrightarrow> body k s = Some (Inl f)"
  shows "for_each_opt [a..<b] body s = Some (Inl f)"
proof -
  obtain s' where "for_each_opt [a..<k] body s = Some (Inr s')" "I k s'"
    using for_each_opt_invariant [of a k I s body] assms(1,3,4) by blast
  moreover have "[a..<b] = [a..<k] @ k # [Suc k..<b]"
    using assms(1,2) by (metis le_add_diff_inverse less_imp_le_nat upt_add_eq_append upt_conv_Cons)
  ultimately show ?thesis using assms(5) by (simp add: for_each_opt_append)
qed

section \<open>Counters in words\<close>

lemma unat_of_nat_word: "n < 2 ^ LENGTH('a) \<Longrightarrow> unat (of_nat n :: 'a::len word) = n"
  by (simp add: unsigned_of_nat take_bit_nat_eq_self)

lemma unat_of_nat_u16 [simp]: "n < 65536 \<Longrightarrow> unat (of_nat n :: u16) = n"
  and unat_of_nat_u32 [simp]: "n < 4294967296 \<Longrightarrow> unat (of_nat n :: u32) = n"
  and unat_of_nat_u64 [simp]: "n < 18446744073709551616 \<Longrightarrow> unat (of_nat n :: u64) = n"
  by (simp_all add: unat_of_nat_word)

lemma unat_u16_less: "unat (x :: u16) < 65536"
  using unsigned_less [of x] by simp

lemma of_nat_eq_0_u16: "n < 65536 \<Longrightarrow> (of_nat n :: u16) = 0 \<longleftrightarrow> n = 0"
  using unat_of_nat_u16 [of n] by (auto simp del: unat_of_nat_u16)

lemma of_nat_eq_0_u32: "n < 4294967296 \<Longrightarrow> (of_nat n :: u32) = 0 \<longleftrightarrow> n = 0"
  using unat_of_nat_u32 [of n] by (auto simp del: unat_of_nat_u32)

lemma ucast_of_nat_u16 [simp]: "n < 65536 \<Longrightarrow> (ucast (of_nat n :: u16) :: u64) = of_nat n"
  by (subst of_nat_unat [symmetric]) (simp del: of_nat_unat)

lemma ucast_of_nat_u32 [simp]: "n < 4294967296 \<Longrightarrow> (ucast (of_nat n :: u32) :: u64) = of_nat n"
  by (subst of_nat_unat [symmetric]) (simp del: of_nat_unat)

lemma ucast_of_nat_u64: "(ucast (of_nat n :: u64) :: u16) = of_nat n"
  by transfer (simp add: take_bit_take_bit)

lemma of_nat_less_u64:
  "m < 18446744073709551616 \<Longrightarrow> n < 18446744073709551616 \<Longrightarrow>
     (of_nat m :: u64) < of_nat n \<longleftrightarrow> m < n"
  by (simp add: word_less_nat_alt)

lemma of_nat_div_word:
  "m < 2 ^ LENGTH('a) \<Longrightarrow> n < 2 ^ LENGTH('a) \<Longrightarrow>
     (of_nat m :: 'a::len word) div of_nat n = of_nat (m div n)"
  by (simp add: word_div_def unsigned_of_nat take_bit_nat_eq_self flip: of_nat_div)

lemma of_nat_div_u64:
  "m < 18446744073709551616 \<Longrightarrow> n < 18446744073709551616 \<Longrightarrow>
     (of_nat m :: u64) div of_nat n = of_nat (m div n)"
  by (rule of_nat_div_word) simp_all

lemma not_bit_above:
  assumes "unat (x :: 'a::len word) < 2 ^ k" and "k \<le> i"
  shows "\<not> bit x i"
proof -
  have "take_bit k (unat x) = unat x" using assms(1) by (rule take_bit_nat_eq_self)
  then have "\<not> bit (unat x) i" using assms(2) by (metis bit_take_bit_iff linorder_not_less)
  then show ?thesis by (simp add: bit_unsigned_iff bit_imp_le_length)
qed

section \<open>Byte order\<close>

text \<open>The bytes of an integer object in memory, lowest address first, and back.\<close>

definition le16 :: "u16 \<Rightarrow> bytes" where
  "le16 x = [ucast x, ucast (drop_bit 8 x)]"

definition le24 :: "u24 \<Rightarrow> bytes" where
  "le24 x = [ucast x, ucast (drop_bit 8 x), ucast (drop_bit 16 x)]"

definition le32 :: "u32 \<Rightarrow> bytes" where
  "le32 x = [ucast x, ucast (drop_bit 8 x), ucast (drop_bit 16 x), ucast (drop_bit 24 x)]"

definition of_le16 :: "u8 \<Rightarrow> u8 \<Rightarrow> u16" where
  "of_le16 a b = ucast a OR push_bit 8 (ucast b)"

definition of_le24 :: "u8 \<Rightarrow> u8 \<Rightarrow> u8 \<Rightarrow> u24" where
  "of_le24 a b c = ucast a OR push_bit 8 (ucast b) OR push_bit 16 (ucast c)"

definition of_le32 :: "u8 \<Rightarrow> u8 \<Rightarrow> u8 \<Rightarrow> u8 \<Rightarrow> u32" where
  "of_le32 a b c d =
     ucast a OR push_bit 8 (ucast b) OR push_bit 16 (ucast c) OR push_bit 24 (ucast d)"

lemma of_le16_le16 [simp]: "of_le16 (ucast x) (ucast (drop_bit 8 x)) = x"
  by (rule bit_word_eqI) (auto simp add: of_le16_def bit_simps)

lemma of_le24_le24 [simp]:
  "of_le24 (ucast x) (ucast (drop_bit 8 x)) (ucast (drop_bit 16 x)) = x"
proof (rule bit_word_eqI)
  fix n assume n: "n < LENGTH(24)"
  consider "n < 8" | "8 \<le> n" "n < 16" | "16 \<le> n" by linarith
  then show "bit (of_le24 (ucast x) (ucast (drop_bit 8 x)) (ucast (drop_bit 16 x))) n = bit x n"
    using n by cases (auto simp add: of_le24_def bit_simps)
qed

lemma of_le32_le32 [simp]:
  "of_le32 (ucast x) (ucast (drop_bit 8 x)) (ucast (drop_bit 16 x)) (ucast (drop_bit 24 x)) = x"
proof (rule bit_word_eqI)
  fix n assume n: "n < LENGTH(32)"
  consider "n < 8" | "8 \<le> n" "n < 16" | "16 \<le> n" "n < 24" | "24 \<le> n" by linarith
  then show "bit (of_le32 (ucast x) (ucast (drop_bit 8 x)) (ucast (drop_bit 16 x))
      (ucast (drop_bit 24 x))) n = bit x n"
    using n by cases (auto simp add: of_le32_def bit_simps)
qed

lemma bit_u8_high: "8 \<le> n \<Longrightarrow> \<not> bit (a :: u8) n"
  by (auto dest: bit_imp_le_length)

lemma le16_of_le16 [simp]: "le16 (of_le16 a b) = [a, b]"
  by (auto simp add: le16_def of_le16_def bit_simps bit_u8_high intro!: bit_word_eqI)

lemma le24_of_le24 [simp]: "le24 (of_le24 a b c) = [a, b, c]"
  by (auto simp add: le24_def of_le24_def bit_simps bit_u8_high intro!: bit_word_eqI)

lemma le32_of_le32 [simp]: "le32 (of_le32 a b c d) = [a, b, c, d]"
  by (auto simp add: le32_def of_le32_def bit_simps bit_u8_high intro!: bit_word_eqI)

lemma length_le [simp]: "length (le16 x) = 2" "length (le24 y) = 3" "length (le32 z) = 4"
  by (simp_all add: le16_def le24_def le32_def)

text \<open>
  \<open>htobe16\<close>, \<open>be16toh\<close>, \<open>htobe32\<close> and \<open>be32toh\<close> of \<open>endian.h\<close> swap the
  bytes of their argument on this host.
\<close>

definition bswap16 :: "u16 \<Rightarrow> u16" where
  "bswap16 x = of_le16 (ucast (drop_bit 8 x)) (ucast x)"

definition bswap32 :: "u32 \<Rightarrow> u32" where
  "bswap32 x = of_le32 (ucast (drop_bit 24 x)) (ucast (drop_bit 16 x))
     (ucast (drop_bit 8 x)) (ucast x)"

abbreviation htobe16 :: "u16 \<Rightarrow> u16" where "htobe16 \<equiv> bswap16"
abbreviation be16toh :: "u16 \<Rightarrow> u16" where "be16toh \<equiv> bswap16"
abbreviation htobe32 :: "u32 \<Rightarrow> u32" where "htobe32 \<equiv> bswap32"
abbreviation be32toh :: "u32 \<Rightarrow> u32" where "be32toh \<equiv> bswap32"

lemma le16_bswap16: "le16 (bswap16 x) = rev (le16 x)"
  by (simp add: bswap16_def) (simp add: le16_def)

lemma le32_bswap32: "le32 (bswap32 x) = rev (le32 x)"
  by (simp add: bswap32_def) (simp add: le32_def)

lemma le16_inject: "le16 x = le16 y \<longleftrightarrow> x = y"
  by (simp add: le16_def) (metis of_le16_le16)

lemma le32_inject: "le32 x = le32 y \<longleftrightarrow> x = y"
  by (simp add: le32_def) (metis of_le32_le32)

lemma bswap16_bswap16 [simp]: "bswap16 (bswap16 x) = x"
  by (simp add: le16_bswap16 flip: le16_inject)

lemma bswap32_bswap32 [simp]: "bswap32 (bswap32 x) = x"
  by (simp add: le32_bswap32 flip: le32_inject)

section \<open>Fixed-size pieces of a byte string\<close>

text \<open>The \<open>i\<close>-th piece of \<open>k\<close> bytes of a buffer, as \<open>temp[i]\<close> reads it.\<close>

definition piece :: "nat \<Rightarrow> nat \<Rightarrow> 'a list \<Rightarrow> 'a list" where
  "piece k i xs = take k (drop (i * k) xs)"

lemma piece_concat_aux:
  assumes "\<forall>x \<in> set xss. length x = k" and "i < length xss"
  shows "take k (drop (i * k) (concat xss @ ys)) = xss ! i"
  using assms
proof (induction xss arbitrary: i)
  case Nil
  then show ?case by simp
next
  case (Cons x xss)
  then show ?case
    by (cases i) (simp_all add: drop_append)
qed

lemma piece_concat:
  "\<forall>x \<in> set xss. length x = k \<Longrightarrow> i < length xss \<Longrightarrow> piece k i (concat xss @ ys) = xss ! i"
  unfolding piece_def by (rule piece_concat_aux)

lemma length_concat_const: "\<forall>x \<in> set xss. length x = k \<Longrightarrow> length (concat xss) = length xss * k"
  by (induction xss) auto

text \<open>The number of pieces of \<open>k\<close> bytes that hold \<open>n\<close> bytes: the code's
  \<open>n == 0 ? 0 : (n - 1) / k + 1\<close>.\<close>

definition ceil_div :: "nat \<Rightarrow> nat \<Rightarrow> nat" where
  "ceil_div n k = (if n = 0 then 0 else (n - 1) div k + 1)"

lemma ceil_div_0 [simp]: "ceil_div 0 k = 0"
  by (simp add: ceil_div_def)

lemma ceil_div_small: "0 < n \<Longrightarrow> n \<le> k \<Longrightarrow> ceil_div n k = 1"
  by (simp add: ceil_div_def)

lemma ceil_div_step: "0 < k \<Longrightarrow> k < n \<Longrightarrow> ceil_div n k = Suc (ceil_div (n - k) k)"
  using div_add_self2 [of k "n - 1 - k"] by (auto simp add: ceil_div_def)

lemma ceil_div_bounds:
  assumes "0 < k"
  shows "n \<le> ceil_div n k * k" and "0 < n \<Longrightarrow> (ceil_div n k - 1) * k < n"
proof -
  have hi: "n - 1 < (n - 1) div k * k + k"
    using assms dividend_less_div_times [of k "n - 1"] by (simp add: add.commute)
  from hi show "n \<le> ceil_div n k * k"
    by (auto simp add: ceil_div_def)
  show "0 < n \<Longrightarrow> (ceil_div n k - 1) * k < n"
    by (cases n) (simp_all add: ceil_div_def less_Suc_eq_le)
qed

end
