(* ===== verification/Interfaces.thy ===== *)
theory Interfaces
  imports Prelude
begin

text \<open>
  The interfaces between the components, as locales: the checksum a receiver trusts
  (provided by \<open>Crc\<close>, used by \<open>Transport\<close>) and the fixed-size codec between a
  C struct and its image on the line (provided twice by \<open>Frame\<close>, used by
  \<open>Transport\<close>). Each locale proves its client's lemmas once.
\<close>

section \<open>Number of bits that differ\<close>

definition weight_word :: "'a::len word \<Rightarrow> nat" where
  "weight_word w = length (filter (bit w) [0..<LENGTH('a)])"

definition weight :: "bytes \<Rightarrow> nat" where
  "weight bs = sum_list (map weight_word bs)"

definition distance :: "bytes \<Rightarrow> bytes \<Rightarrow> nat" where
  "distance xs ys = weight (map2 (XOR) xs ys)"

lemma even_length_filter_xor:
  "even (length (filter (\<lambda>n. P n = (\<not> Q n)) xs)) \<longleftrightarrow>
     (even (length (filter P xs)) \<longleftrightarrow> even (length (filter Q xs)))"
  by (induction xs) auto

lemma even_weight_word_xor [simp]:
  "even (weight_word (a XOR b)) \<longleftrightarrow> (even (weight_word a) \<longleftrightarrow> even (weight_word b))"
proof -
  have "bit (a XOR b) = (\<lambda>n. bit a n = (\<not> bit b n))"
    by (rule ext) (simp add: bit_xor_iff)
  then show ?thesis by (simp only: weight_word_def even_length_filter_xor)
qed

lemma weight_Nil [simp]: "weight [] = 0"
  by (simp add: weight_def)

lemma weight_Cons [simp]: "weight (b # bs) = weight_word b + weight bs"
  by (simp add: weight_def)

lemma even_distance:
  "length xs = length ys \<Longrightarrow> even (distance xs ys) \<longleftrightarrow> (even (weight xs) \<longleftrightarrow> even (weight ys))"
  unfolding distance_def
  by (induction xs ys rule: list_induct2) auto

text \<open>
  A corruption of a message: at least one byte differs and all that do are within two
  adjacent positions, or the number of bits that differ is odd.
\<close>

definition differing :: "bytes \<Rightarrow> bytes \<Rightarrow> nat list" where
  "differing xs ys = filter (\<lambda>i. xs ! i \<noteq> ys ! i) [0..<length xs]"

definition corrupts :: "bytes \<Rightarrow> bytes \<Rightarrow> bool" where
  "corrupts xs ys \<longleftrightarrow> length ys = length xs \<and>
     (differing xs ys \<noteq> [] \<and> last (differing xs ys) \<le> Suc (hd (differing xs ys))
      \<or> odd (distance xs ys))"

lemma sorted_between:
  assumes "sorted (ks :: nat list)" and "ks \<noteq> []" and "last ks \<le> Suc (hd ks)" and "k \<in> set ks"
  shows "k = hd ks \<or> k = Suc (hd ks)"
proof -
  have "hd ks \<le> k" using assms by (cases ks) auto
  moreover have "k \<le> last ks"
  proof -
    have "sorted (butlast ks @ [last ks])" using assms(1,2) by simp
    then have "\<forall>x \<in> set (butlast ks). x \<le> last ks" by (simp only: sorted_append) simp
    moreover have "set ks = insert (last ks) (set (butlast ks))"
      using assms(2) by (metis append_butlast_last_id list.simps(15) rotate1.simps(2) set_rotate1)
    ultimately show ?thesis using assms(4) by auto
  qed
  ultimately show ?thesis using assms(3) by linarith
qed

lemma burst_split:
  assumes "length ys = length xs" and "2 \<le> length xs"
    and "differing xs ys \<noteq> []" and "last (differing xs ys) \<le> Suc (hd (differing xs ys))"
  obtains p a b s a' b' where "xs = p @ [a, b] @ s" and "ys = p @ [a', b'] @ s"
    and "(a, b) \<noteq> (a', b')"
proof -
  let ?d = "differing xs ys"
  have sorted: "sorted ?d" by (simp add: differing_def sorted_filter [of id, simplified])
  have hd: "hd ?d < length xs" "xs ! hd ?d \<noteq> ys ! hd ?d"
    using hd_in_set [OF assms(3)] by (simp_all add: differing_def)
  have same: "xs ! k = ys ! k" if "k < length xs" "k \<noteq> hd ?d" "k \<noteq> Suc (hd ?d)" for k
  proof (rule ccontr)
    assume "xs ! k \<noteq> ys ! k"
    with that(1) have "k \<in> set ?d" by (simp add: differing_def)
    from sorted_between [OF sorted assms(3,4) this] that show False by simp
  qed
  define i where "i = min (hd ?d) (length xs - 2)"
  have i: "Suc i < length xs" "hd ?d = i \<or> hd ?d = Suc i"
    using hd(1) assms(2) by (auto simp add: i_def)
  have split: "zs = take i zs @ [zs ! i, zs ! Suc i] @ drop (Suc (Suc i)) zs"
    if "length zs = length xs" for zs :: bytes
    using that i(1) by (simp add: Cons_nth_drop_Suc)
  have "take i ys = take i xs"
    using same i assms(1) by (intro nth_equalityI) auto
  moreover have "drop (Suc (Suc i)) ys = drop (Suc (Suc i)) xs"
    using same i assms(1) by (intro nth_equalityI) (auto simp add: i_def)
  moreover have "(xs ! i, xs ! Suc i) \<noteq> (ys ! i, ys ! Suc i)" using hd(2) i(2) by auto
  ultimately show thesis
    using that [of "take i xs" "xs ! i" "xs ! Suc i" "drop (Suc (Suc i)) xs" "ys ! i" "ys ! Suc i"]
      split [of xs] split [of ys] assms(1) by simp
qed

lemma filter_upt_single:
  "k < n \<Longrightarrow> (\<And>i. i < n \<Longrightarrow> P i \<longleftrightarrow> i = k) \<Longrightarrow> filter P [0..<n] = [k]"
proof -
  assume k: "k < n" and P: "\<And>i. i < n \<Longrightarrow> P i \<longleftrightarrow> i = k"
  have "[0..<n] = [0..<k] @ k # [Suc k..<n]"
    using k upt_add_eq_append [of 0 k "n - k"] by (simp add: upt_conv_Cons)
  moreover have "filter P [0..<k] = []" "P k" "filter P [Suc k..<n] = []"
    using k P by (auto simp add: filter_empty_conv)
  ultimately show ?thesis by simp
qed

text \<open>One byte replaced by another is a corruption.\<close>

lemma corrupts_update:
  assumes "k < length xs" and "xs ! k \<noteq> v"
  shows "corrupts xs (xs[k := v])"
proof -
  have "differing xs (xs[k := v]) = [k]"
    unfolding differing_def using assms by (intro filter_upt_single) (auto simp add: nth_list_update)
  then show ?thesis by (simp add: corrupts_def)
qed

section \<open>A checksum at the end of a message\<close>

text \<open>
  A message is \<open>sealed\<close> when its last two bytes, read as a little-endian \<open>uint16_t\<close>,
  are the checksum of the bytes before them: what the receivers test. The provider promises
  that one corruption of two adjacent bytes, or of an odd number of bits, never turns a
  sealed message into another one.
\<close>

locale checksum =
  fixes check :: "bytes \<Rightarrow> u16"
    and sealed :: "bytes \<Rightarrow> bool"
  assumes sealed_append: "sealed (body @ [a, b]) \<longleftrightarrow> check body = of_le16 a b"
    and sealed_burst:
      "sealed (p @ [a, b] @ s) \<Longrightarrow> sealed (p @ [a', b'] @ s) \<Longrightarrow> a = a' \<and> b = b'"
    and sealed_odd:
      "length xs = length ys \<Longrightarrow> sealed xs \<Longrightarrow> sealed ys \<Longrightarrow> even (distance xs ys)"
begin

definition seal :: "bytes \<Rightarrow> bytes" where
  "seal body = body @ le16 (check body)"

lemma length_seal: "length (seal body) = length body + 2"
  by (simp add: seal_def)

lemma take_seal: "take (length body) (seal body) = body"
  by (simp add: seal_def)

lemma sealed_seal: "sealed (seal body)"
  by (simp add: seal_def le16_def sealed_append)

lemma sealed_is_seal:
  assumes "sealed bs" and "2 \<le> length bs"
  shows "bs = seal (take (length bs - 2) bs)"
proof -
  from assms(2) obtain body a b where bs: "bs = body @ [a, b]"
    by (cases bs rule: rev_cases; cases "butlast bs" rule: rev_cases) auto
  with assms(1) have "check body = of_le16 a b" by (simp add: sealed_append)
  with bs show ?thesis by (simp add: seal_def)
qed

lemma burst_detected:
  assumes "seal body = p @ [a, b] @ s" and "(a, b) \<noteq> (a', b')"
  shows "\<not> sealed (p @ [a', b'] @ s)"
  using sealed_burst [of p a b s a' b'] sealed_seal [of body] assms by auto

lemma corruption_detected:
  assumes "sealed xs" and "corrupts xs ys" and "2 \<le> length xs"
  shows "\<not> sealed ys"
proof
  assume "sealed ys"
  with assms have "\<not> odd (distance xs ys)" using sealed_odd by (auto simp add: corrupts_def)
  with assms(2) have "length ys = length xs" "differing xs ys \<noteq> []"
    "last (differing xs ys) \<le> Suc (hd (differing xs ys))"
    by (auto simp add: corrupts_def)
  with assms(3) obtain p a b s a' b' where "xs = p @ [a, b] @ s" "ys = p @ [a', b'] @ s"
    and "(a, b) \<noteq> (a', b')"
    using burst_split [of ys xs] by metis
  with sealed_burst assms(1) \<open>sealed ys\<close> show False by blast
qed

lemma odd_error_detected:
  "length ys = length (seal body) \<Longrightarrow> odd (distance (seal body) ys) \<Longrightarrow> \<not> sealed ys"
  using sealed_odd [of "seal body" ys] sealed_seal [of body] by auto

end

section \<open>A fixed-size codec\<close>

text \<open>
  A C struct \<open>'f\<close> sent as \<open>size\<close> bytes. \<open>good\<close> is the receiver's test of an image
  and \<open>norm\<close> what the receiver sees of the struct the sender had.
\<close>

locale wire_codec =
  fixes enc :: "'f \<Rightarrow> bytes"
    and dec :: "bytes \<Rightarrow> 'f"
    and good :: "bytes \<Rightarrow> bool"
    and norm :: "'f \<Rightarrow> 'f"
    and wf :: "'f \<Rightarrow> bool"
    and size :: nat
  assumes length_enc: "wf f \<Longrightarrow> length (enc f) = size"
    and dec_enc: "wf f \<Longrightarrow> dec (enc f) = norm f"
    and good_enc: "wf f \<Longrightarrow> good (enc f)"
begin

lemma piece_stream:
  assumes "list_all wf fs" and "i < length fs"
  shows "piece size i (concat (map enc fs) @ rest) = enc (fs ! i)"
proof -
  have "\<forall>x \<in> set (map enc fs). length x = size"
    using assms(1) by (auto simp add: list_all_iff length_enc)
  then show ?thesis
    using piece_concat [of "map enc fs" size i rest] assms(2) by simp
qed

lemma stream_good:
  "list_all wf fs \<Longrightarrow> i < length fs \<Longrightarrow> good (piece size i (concat (map enc fs) @ rest))"
  by (simp add: piece_stream good_enc list_all_length)

lemma stream_decodes:
  "list_all wf fs \<Longrightarrow> i < length fs \<Longrightarrow>
     dec (piece size i (concat (map enc fs) @ rest)) = norm (fs ! i)"
  by (simp add: piece_stream dec_enc list_all_length)

lemma length_stream: "list_all wf fs \<Longrightarrow> length (concat (map enc fs)) = length fs * size"
  using length_concat_const [of "map enc fs" size] by (auto simp add: list_all_iff length_enc)

end

end
