(* ===== verification/Crc.thy ===== *)
theory Crc
  imports Interfaces
begin

text \<open>
  \<^verbatim>\<open>crc.c\<close>: the table-driven CRC-16 of every frame on the serial line
  (\<open>x^16 + x^12 + x^5 + 1\<close>, initial value \<open>0xffff\<close>, result with its bytes swapped).
  The table is proved to be the table of the bitwise long division, the loop to be that
  division of the whole message, and the code's acceptance test to detect every
  corruption confined to two adjacent bytes, wherever it falls.
\<close>

section \<open>The code\<close>

definition lt :: "u16 list" where
  "lt = [
    0x0000, 0x1021, 0x2042, 0x3063, 0x4084, 0x50a5, 0x60c6, 0x70e7, 0x8108, 0x9129,
    0xa14a, 0xb16b, 0xc18c, 0xd1ad, 0xe1ce, 0xf1ef, 0x1231, 0x0210, 0x3273, 0x2252,
    0x52b5, 0x4294, 0x72f7, 0x62d6, 0x9339, 0x8318, 0xb37b, 0xa35a, 0xd3bd, 0xc39c,
    0xf3ff, 0xe3de, 0x2462, 0x3443, 0x0420, 0x1401, 0x64e6, 0x74c7, 0x44a4, 0x5485,
    0xa56a, 0xb54b, 0x8528, 0x9509, 0xe5ee, 0xf5cf, 0xc5ac, 0xd58d, 0x3653, 0x2672,
    0x1611, 0x0630, 0x76d7, 0x66f6, 0x5695, 0x46b4, 0xb75b, 0xa77a, 0x9719, 0x8738,
    0xf7df, 0xe7fe, 0xd79d, 0xc7bc, 0x48c4, 0x58e5, 0x6886, 0x78a7, 0x0840, 0x1861,
    0x2802, 0x3823, 0xc9cc, 0xd9ed, 0xe98e, 0xf9af, 0x8948, 0x9969, 0xa90a, 0xb92b,
    0x5af5, 0x4ad4, 0x7ab7, 0x6a96, 0x1a71, 0x0a50, 0x3a33, 0x2a12, 0xdbfd, 0xcbdc,
    0xfbbf, 0xeb9e, 0x9b79, 0x8b58, 0xbb3b, 0xab1a, 0x6ca6, 0x7c87, 0x4ce4, 0x5cc5,
    0x2c22, 0x3c03, 0x0c60, 0x1c41, 0xedae, 0xfd8f, 0xcdec, 0xddcd, 0xad2a, 0xbd0b,
    0x8d68, 0x9d49, 0x7e97, 0x6eb6, 0x5ed5, 0x4ef4, 0x3e13, 0x2e32, 0x1e51, 0x0e70,
    0xff9f, 0xefbe, 0xdfdd, 0xcffc, 0xbf1b, 0xaf3a, 0x9f59, 0x8f78, 0x9188, 0x81a9,
    0xb1ca, 0xa1eb, 0xd10c, 0xc12d, 0xf14e, 0xe16f, 0x1080, 0x00a1, 0x30c2, 0x20e3,
    0x5004, 0x4025, 0x7046, 0x6067, 0x83b9, 0x9398, 0xa3fb, 0xb3da, 0xc33d, 0xd31c,
    0xe37f, 0xf35e, 0x02b1, 0x1290, 0x22f3, 0x32d2, 0x4235, 0x5214, 0x6277, 0x7256,
    0xb5ea, 0xa5cb, 0x95a8, 0x8589, 0xf56e, 0xe54f, 0xd52c, 0xc50d, 0x34e2, 0x24c3,
    0x14a0, 0x0481, 0x7466, 0x6447, 0x5424, 0x4405, 0xa7db, 0xb7fa, 0x8799, 0x97b8,
    0xe75f, 0xf77e, 0xc71d, 0xd73c, 0x26d3, 0x36f2, 0x0691, 0x16b0, 0x6657, 0x7676,
    0x4615, 0x5634, 0xd94c, 0xc96d, 0xf90e, 0xe92f, 0x99c8, 0x89e9, 0xb98a, 0xa9ab,
    0x5844, 0x4865, 0x7806, 0x6827, 0x18c0, 0x08e1, 0x3882, 0x28a3, 0xcb7d, 0xdb5c,
    0xeb3f, 0xfb1e, 0x8bf9, 0x9bd8, 0xabbb, 0xbb9a, 0x4a75, 0x5a54, 0x6a37, 0x7a16,
    0x0af1, 0x1ad0, 0x2ab3, 0x3a92, 0xfd2e, 0xed0f, 0xdd6c, 0xcd4d, 0xbdaa, 0xad8b,
    0x9de8, 0x8dc9, 0x7c26, 0x6c07, 0x5c64, 0x4c45, 0x3ca2, 0x2c83, 0x1ce0, 0x0cc1,
    0xef1f, 0xff3e, 0xcf5d, 0xdf7c, 0xaf9b, 0xbfba, 0x8fd9, 0x9ff8, 0x6e17, 0x7e36,
    0x4e55, 0x5e74, 0x2e93, 0x3eb2, 0x0ed1, 0x1ef0]"

text \<open>The \<open>while (count > 0)\<close> loop over the buffer, \<open>r\<close> the running register.\<close>

fun crc16_loop :: "u16 \<Rightarrow> bytes \<Rightarrow> u16" where
  "crc16_loop r [] = r"
| "crc16_loop r (b # buffer) =
     crc16_loop (push_bit 8 r XOR lt ! unat ((ucast (drop_bit 8 r) XOR b) AND 0xff)) buffer"

definition crc16 :: "bytes \<Rightarrow> u16" where
  "crc16 buffer = (let r = crc16_loop 0xffff buffer
     in drop_bit 8 r OR push_bit 8 (r AND 0xff))"

section \<open>The reference: bitwise division\<close>

text \<open>One bit of the division by \<open>x^16 + x^12 + x^5 + 1\<close>, most significant bit first.\<close>

definition div_bit :: "u16 \<Rightarrow> u16" where
  "div_bit r = (if bit r 15 then push_bit 1 r XOR 0x1021 else push_bit 1 r)"

definition div_byte :: "u16 \<Rightarrow> u16" where
  "div_byte = div_bit ^^ 8"

definition crc_step :: "u16 \<Rightarrow> u8 \<Rightarrow> u16" where
  "crc_step r b = div_byte (r XOR push_bit 8 (ucast b))"

lemma div_bit_xor: "div_bit (a XOR b) = div_bit a XOR div_bit b"
  by (rule bit_word_eqI) (auto simp add: div_bit_def bit_simps)


lemma div_byte_unfold:
  "div_byte r = div_bit (div_bit (div_bit (div_bit (div_bit (div_bit (div_bit (div_bit r)))))))"
  by (simp add: div_byte_def eval_nat_numeral)

lemma div_byte_xor: "div_byte (a XOR b) = div_byte a XOR div_byte b"
  by (simp add: div_byte_unfold div_bit_xor)

lemma div_bit_low: "\<not> bit r 15 \<Longrightarrow> div_bit r = push_bit 1 r"
  by (simp add: div_bit_def)

lemma div_bits_low: "k \<le> 8 \<Longrightarrow> (div_bit ^^ k) (ucast (b :: u8)) = push_bit k (ucast b)"
proof (induction k)
  case 0
  then show ?case by simp
next
  case (Suc k)
  then have "\<not> bit (push_bit k (ucast b :: u16)) 15"
    by (simp add: bit_simps bit_u8_high)
  with Suc show ?case by (simp add: div_bit_low push_bit_push_bit del: push_bit_Suc)
qed

lemma div_byte_low: "div_byte (ucast (b :: u8)) = push_bit 8 (ucast b)"
  unfolding div_byte_def by (rule div_bits_low) simp

lemma length_lt [simp]: "length lt = 256"
  by (simp add: lt_def)

text \<open>
  The table is checked entry by entry. The indices are listed first, so that each entry is
  evaluated on a numeral.
\<close>

lemma lt_table: "lt = map (\<lambda>i. div_byte (push_bit 8 (of_nat i))) [0..<256]"
proof -
  have upt: "[0..<256] = 0 # Suc 0 # [2..<256]"
    by (simp add: upt_conv_Cons numeral_2_eq_2)
  show ?thesis
    unfolding upt lt_def
    by (simp add: upt_rec_numeral, simp add: div_byte_unfold div_bit_def)
qed

lemma lt_nth: "lt ! unat (b :: u8) = div_byte (push_bit 8 (ucast b))"
proof -
  have "unat b < 256"
    using unsigned_less [of b] by simp
  then have "lt ! unat b = div_byte (push_bit 8 (of_nat (unat b)))"
    by (subst lt_table) simp
  then show ?thesis by simp
qed

text \<open>One round of the table loop is eight steps of the bitwise division.\<close>

lemma split_register:
  "r XOR push_bit 8 (ucast (b :: u8)) =
     ucast (ucast r :: u8) XOR push_bit 8 (ucast (ucast (drop_bit 8 r) XOR b))" for r :: u16
  by (rule bit_word_eqI) (auto simp add: bit_simps)

lemma push_bit_8_ucast: "push_bit 8 (ucast (ucast r :: u8)) = push_bit 8 r" for r :: u16
  by (rule bit_word_eqI) (auto simp add: bit_simps)

lemma and_ff [simp]: "x AND 0xff = x" for x :: u8
proof -
  have "(0xff :: u8) = - 1" by simp
  then show ?thesis by (simp only: and.right_neutral)
qed

lemma table_step: "push_bit 8 r XOR lt ! unat (ucast (drop_bit 8 r) XOR b) = crc_step r b"
  unfolding crc_step_def
  by (simp add: lt_nth split_register [of r b] div_byte_xor div_byte_low push_bit_8_ucast)

section \<open>The loop against the reference\<close>

lemma crc16_loop_step: "crc16_loop r (b # buffer) = crc16_loop (crc_step r b) buffer"
  by (simp add: table_step)

lemma crc16_loop_foldl: "crc16_loop r buffer = foldl crc_step r buffer"
  by (induction r buffer rule: crc16_loop.induct) (simp_all add: table_step)

declare crc16_loop.simps(2) [simp del]

lemmas crc16_loop_unfold = crc16_loop.simps(1) crc16_loop_step

lemma crc16_loop_append: "crc16_loop r (xs @ ys) = crc16_loop (crc16_loop r xs) ys"
  by (simp add: crc16_loop_foldl)

section \<open>Division by the polynomial loses nothing\<close>

lemma div_bit_eq_0: "div_bit r = 0 \<longleftrightarrow> r = 0"
proof
  assume z: "div_bit r = 0"
  show "r = 0"
  proof (cases "bit r 15")
    case True
    with z have "push_bit 1 r XOR 0x1021 = 0" by (simp add: div_bit_def)
    moreover have "bit (push_bit 1 r XOR 0x1021) 0"
      by (simp add: bit_simps del: One_nat_def)
    ultimately show ?thesis by simp
  next
    case False
    show ?thesis
    proof (rule bit_word_eqI)
      fix n assume n: "n < LENGTH(16)"
      from z False have "bit (push_bit 1 r) (Suc n) = bit (0 :: u16) (Suc n)"
        by (simp add: div_bit_def)
      then show "bit r n = bit 0 n"
        using n False by (cases "n = 15") (simp_all add: bit_simps del: One_nat_def)
    qed
  qed
qed (simp add: div_bit_def)

lemma div_byte_eq_0: "div_byte r = 0 \<longleftrightarrow> r = 0"
  by (simp add: div_byte_unfold div_bit_eq_0)

lemma xor_cancel: "a XOR c = b XOR c \<longleftrightarrow> a = b" for a b c :: "'a::len word"
proof
  assume "a XOR c = b XOR c"
  then have "(a XOR c) XOR c = (b XOR c) XOR c" by (rule arg_cong)
  then show "a = b" by (simp only: xor.assoc xor_self_eq xor.right_neutral)
qed simp

lemma xor_eq_0: "a XOR b = 0 \<longleftrightarrow> a = b" for a b :: "'a::len word"
  using xor_cancel [of a b b] by simp

lemma div_byte_inject: "div_byte a = div_byte b \<longleftrightarrow> a = b"
  using div_byte_eq_0 [of "a XOR b"] by (simp add: div_byte_xor xor_eq_0)

lemma crc_step_inject: "crc_step r b = crc_step r' b \<longleftrightarrow> r = r'"
  by (simp add: crc_step_def div_byte_inject xor_cancel)

lemma crc16_loop_inject: "crc16_loop r buffer = crc16_loop r' buffer \<longleftrightarrow> r = r'"
  by (induction buffer arbitrary: r r') (simp_all add: crc16_loop_unfold crc_step_inject)

text \<open>
  A difference in the byte that enters first, shifted to the top of the register, never
  comes out of eight division steps with an empty low byte: \<open>div_byte_low\<close> says which
  register does, and the division is injective.
\<close>

lemma div_byte_high_low:
  assumes "div_byte (push_bit 8 (ucast (d :: u8))) = push_bit 8 (ucast (e :: u8))"
  shows "d = 0 \<and> e = 0"
proof -
  from assms have "div_byte (push_bit 8 (ucast d)) = div_byte (ucast e)"
    by (simp only: div_byte_low)
  then have eq: "push_bit 8 (ucast d) = (ucast e :: u16)"
    by (simp only: div_byte_inject)
  have "bit d n \<longleftrightarrow> False" if "n < 8" for n
  proof -
    from that have "bit d n \<longleftrightarrow> bit (push_bit 8 (ucast d) :: u16) (8 + n)"
      by (simp add: bit_simps)
    also have "\<dots> \<longleftrightarrow> bit (ucast e :: u16) (8 + n)" by (simp only: eq)
    finally show ?thesis by (simp add: bit_simps bit_u8_high)
  qed
  then have "d = 0" by (auto intro: bit_word_eqI)
  with eq have "(ucast e :: u16) = 0" by simp
  moreover have "e = ucast (ucast e :: u16)"
    by (rule bit_word_eqI) (simp add: bit_simps)
  ultimately have "e = 0" by simp
  with \<open>d = 0\<close> show ?thesis by simp
qed

lemma crc_step_xor: "crc_step (r XOR r') (b XOR b') = crc_step r b XOR crc_step r' b'"
proof -
  have "push_bit 8 (ucast (b XOR b')) = (push_bit 8 (ucast b) XOR push_bit 8 (ucast b') :: u16)"
    by (rule bit_word_eqI) (auto simp add: bit_simps)
  then show ?thesis
    by (simp add: crc_step_def xor.assoc xor.left_commute flip: div_byte_xor)
qed

lemma crc_two_steps_inject:
  assumes "crc_step (crc_step r a) b = crc_step (crc_step r a') b'"
  shows "a = a' \<and> b = b'"
proof -
  have "crc_step (crc_step 0 (a XOR a')) (b XOR b') =
      crc_step (crc_step r a XOR crc_step r a') (b XOR b')"
    using crc_step_xor [of r r a a'] by simp
  also have "\<dots> = crc_step (crc_step r a) b XOR crc_step (crc_step r a') b'"
    by (rule crc_step_xor)
  also have "\<dots> = 0" using assms by simp
  finally have "crc_step 0 (a XOR a') XOR push_bit 8 (ucast (b XOR b')) = 0"
    by (simp only: crc_step_def div_byte_eq_0)
  then have "div_byte (push_bit 8 (ucast (a XOR a'))) = push_bit 8 (ucast (b XOR b'))"
    by (simp only: crc_step_def xor_eq_0 xor.left_neutral)
  then have "a XOR a' = 0 \<and> b XOR b' = 0" by (rule div_byte_high_low)
  then show ?thesis by (simp only: xor_eq_0)
qed

lemma crc16_loop_burst:
  "crc16_loop r (p @ [a, b] @ s) = crc16_loop r (p @ [a', b'] @ s) \<longleftrightarrow> a = a' \<and> b = b'"
  by (auto simp add: crc16_loop_append crc16_loop_unfold crc16_loop_inject
      dest: crc_two_steps_inject)

section \<open>The residue\<close>

lemma and_ff_u16: "r AND 0xff = ucast (ucast r :: u8)" for r :: u16
proof -
  have m: "(0xff :: u16) = mask 8" by (simp add: mask_numeral)
  show ?thesis
    by (simp only: m) (rule bit_word_eqI, auto simp add: bit_simps)
qed

lemma drop_8_u16: "drop_bit 8 r = ucast (ucast (drop_bit 8 r) :: u8)" for r :: u16
  by (rule bit_word_eqI) (auto simp add: bit_simps dest: bit_imp_le_length)

lemma crc16_swaps: "crc16 buffer = bswap16 (crc16_loop 0xffff buffer)"
proof -
  have "drop_bit 8 r OR push_bit 8 (r AND 0xff) = bswap16 r" for r :: u16
    unfolding bswap16_def of_le16_def by (simp only: and_ff_u16 flip: drop_8_u16)
  then show ?thesis by (simp add: crc16_def Let_def)
qed

text \<open>A message is accepted exactly when the division of message and checksum has no rest.\<close>

definition crc_sealed :: "bytes \<Rightarrow> bool" where
  "crc_sealed bs \<longleftrightarrow> 2 \<le> length bs \<and> crc16_loop 0xffff bs = 0"

lemma crc16_loop_own: "crc16_loop r (le16 (bswap16 r)) = 0"
proof -
  have "crc_step r (ucast (drop_bit 8 r)) = push_bit 8 (ucast (ucast r :: u8))"
    by (simp only: crc_step_def split_register [of r] div_byte_low xor_self_eq
        ucast_0 push_bit_of_0 xor.right_neutral)
  then show ?thesis
    by (simp add: bswap16_def crc16_loop_unfold) (simp add: crc_step_def div_byte_eq_0)
qed

lemma crc_sealed_append: "crc_sealed (body @ [a, b]) \<longleftrightarrow> crc16 body = of_le16 a b"
proof -
  let ?r = "crc16_loop 0xffff body"
  have "crc_sealed (body @ [a, b]) \<longleftrightarrow> crc16_loop ?r [a, b] = crc16_loop ?r (le16 (bswap16 ?r))"
    by (simp add: crc_sealed_def crc16_loop_append crc16_loop_own)
  also have "\<dots> \<longleftrightarrow> [a, b] = le16 (bswap16 ?r)"
    using crc16_loop_burst [of ?r "[]" a b "[]"] by (simp add: bswap16_def)
  also have "\<dots> \<longleftrightarrow> crc16 body = of_le16 a b"
    by (metis crc16_swaps le16_inject le16_of_le16)
  finally show ?thesis .
qed

section \<open>Parity\<close>

text \<open>\<open>x + 1\<close> divides the polynomial, so a division step keeps the parity of the register.\<close>

lemma length_filter_shift:
  "length (filter P [0..<Suc n]) = (if P 0 then 1 else 0) + length (filter (\<lambda>i. P (Suc i)) [0..<n])"
proof -
  have "[0..<Suc n] = 0 # map Suc [0..<n]"
    by (simp add: upt_conv_Cons map_Suc_upt del: upt_Suc)
  then show ?thesis by (simp add: filter_map o_def del: upt_Suc)
qed

lemma weight_push_bit_1:
  "weight_word (push_bit 1 r) + (if bit r 15 then 1 else 0) = weight_word r" for r :: u16
proof -
  have "weight_word (push_bit 1 r) = length (filter (bit r) [0..<15])"
    using length_filter_shift [of "bit (push_bit 1 r)" 15]
    by (auto simp add: weight_word_def bit_simps simp del: upt_Suc One_nat_def
        intro!: arg_cong [where f = length] filter_cong)
  moreover have "[0..<16] = [0..<15] @ [15]"
    by (simp add: upt_rec_numeral upt_conv_Cons)
  then have "weight_word r = length (filter (bit r) ([0..<15] @ [15]))"
    by (simp add: weight_word_def)
  ultimately show ?thesis by simp
qed

lemma even_weight_div_bit: "even (weight_word (div_bit r)) \<longleftrightarrow> even (weight_word r)"
proof -
  have p: "even (weight_word (push_bit 1 r)) \<longleftrightarrow> (even (weight_word r) \<longleftrightarrow> \<not> bit r 15)"
    using weight_push_bit_1 [of r] by (auto split: if_splits) presburger+
  have "\<not> even (weight_word (0x1021 :: u16))"
    by (simp add: weight_word_def upt_rec_numeral upt_conv_Cons)
  with p show ?thesis by (simp add: div_bit_def del: One_nat_def)
qed

lemma even_weight_div_byte: "even (weight_word (div_byte r)) \<longleftrightarrow> even (weight_word r)"
  by (simp add: div_byte_unfold even_weight_div_bit)

lemma even_weight_high_byte:
  "weight_word (push_bit 8 (ucast (b :: u8)) :: u16) = weight_word b"
proof -
  have "[0..<16] = [0..<8] @ map (\<lambda>i. i + 8) [0..<8]"
    by (simp add: upt_rec_numeral upt_conv_Cons)
  then show ?thesis
    by (auto simp add: weight_word_def filter_map o_def bit_simps
        intro!: arg_cong [where f = length] filter_cong)
qed

lemma even_weight_crc_step:
  "even (weight_word (crc_step r b)) \<longleftrightarrow> (even (weight_word r) \<longleftrightarrow> even (weight_word b))"
  by (simp add: crc_step_def even_weight_div_byte even_weight_high_byte)

lemma even_weight_crc16_loop:
  "even (weight_word (crc16_loop r bs)) \<longleftrightarrow> (even (weight_word r) \<longleftrightarrow> even (weight bs))"
  by (induction bs arbitrary: r) (auto simp add: crc16_loop_unfold even_weight_crc_step)

section \<open>The checksum interface\<close>

interpretation crc: checksum crc16 crc_sealed
proof unfold_locales
  fix p a b s a' b'
  assume "crc_sealed (p @ [a, b] @ s)" and "crc_sealed (p @ [a', b'] @ s)"
  then have "crc16_loop 0xffff (p @ [a, b] @ s) = crc16_loop 0xffff (p @ [a', b'] @ s)"
    by (simp add: crc_sealed_def)
  then show "a = a' \<and> b = b'" by (simp only: crc16_loop_burst)
next
  fix xs ys :: bytes
  assume "length xs = length ys" and "crc_sealed xs" and "crc_sealed ys"
  then show "even (distance xs ys)"
    using even_weight_crc16_loop [of "0xffff" xs] even_weight_crc16_loop [of "0xffff" ys]
    by (auto simp add: even_distance crc_sealed_def)
qed (rule crc_sealed_append)

section \<open>Properties\<close>

text \<open>C17: the table-driven routine is, on every message, the bit-by-bit long division by
  \<open>x^16 + x^12 + x^5 + 1\<close> from the register \<open>0xffff\<close>, followed by a swap of the two
  result bytes.\<close>

theorem crc16_is_polynomial_division:
  "crc16 buffer = bswap16
     (foldl (\<lambda>r b. (div_bit ^^ 8) (r XOR push_bit 8 (ucast b))) 0xffff buffer)"
  by (simp add: crc16_swaps crc16_loop_foldl crc_step_def [abs_def] div_byte_def)

text \<open>C26: two messages that differ only within two adjacent bytes have the same checksum only
  if they are equal: no burst of up to nine bits, wherever it falls, goes unnoticed.\<close>

theorem crc16_separates:
  "crc16 (p @ [a, b] @ s) = crc16 (p @ [a', b'] @ s) \<longleftrightarrow> a = a' \<and> b = b'"
proof -
  have "crc16 xs = crc16 ys \<longleftrightarrow> crc16_loop 0xffff xs = crc16_loop 0xffff ys" for xs ys
    by (metis crc16_swaps bswap16_bswap16)
  then show ?thesis by (simp only: crc16_loop_burst)
qed

end
