(* ===== verification/Frame.thy ===== *)
theory Frame
  imports Crc
begin

text \<open>
  The two packed structs of \<^verbatim>\<open>transmission_protocol.h\<close>, \<open>frame_t\<close> (12 bytes) and
  \<open>data_frame_t\<close> (534 bytes): their memory image on the little-endian host, the conversion
  of their fields to and from the big-endian order of the line that \<open>write_frame\<close>,
  \<open>receive_frame\<close>, \<open>write_data_frame\<close> and \<open>receive_data_frames\<close> do, and the checks
  the receivers make. Both are instances of the codec interface.
\<close>

section \<open>Constants\<close>

definition TP_FRAME_DATA_LEN_MAX :: nat where [const_defs]: "TP_FRAME_DATA_LEN_MAX = 512"

definition TP_STATUS_NETWORK_ENCODING :: u16 where [const_defs]: "TP_STATUS_NETWORK_ENCODING = 0x01"
definition TP_STATUS_ENTROPY_ENCODING :: u16 where [const_defs]: "TP_STATUS_ENTROPY_ENCODING = 0x02"

definition TP_ADDRESS_MASTER :: u8 where [const_defs]: "TP_ADDRESS_MASTER = 0"
definition TP_ADDRESS_SLAVE :: u8 where [const_defs]: "TP_ADDRESS_SLAVE = 1"

definition TP_FRAME_TYPE_QUERY :: u8 where [const_defs]: "TP_FRAME_TYPE_QUERY = 1"
definition TP_FRAME_TYPE_SEND :: u8 where [const_defs]: "TP_FRAME_TYPE_SEND = 3"
definition TP_FRAME_TYPE_RECV :: u8 where [const_defs]: "TP_FRAME_TYPE_RECV = 7"

definition TP_STATUS_UNRECEIVED :: u16 where [const_defs]: "TP_STATUS_UNRECEIVED = 0xAAAA"
definition TP_STATUS_PROCESSING :: u16 where [const_defs]: "TP_STATUS_PROCESSING = 0xAA55"
definition TP_STATUS_PROCESSED :: u16 where [const_defs]: "TP_STATUS_PROCESSED = 0x5555"

definition TP_FLAG_1_YUV420 :: u8 where [const_defs]: "TP_FLAG_1_YUV420 = 0x8E"
definition TP_FLAG_DATA :: u8 where [const_defs]: "TP_FLAG_DATA = 0xAA"

definition tp_header :: bytes where [const_defs]: "tp_header = [0x3A, 0x62, 0x04, 0x3F]"

definition sizeof_frame_t :: nat where [const_defs]: "sizeof_frame_t = 12"
definition sizeof_data_frame_t :: nat where [const_defs]: "sizeof_data_frame_t = 534"

section \<open>Command frames\<close>

record frame_t =
  f_address :: u8
  f_frame_type :: u8
  f_n_file :: u32
  f_n_frame :: u16
  f_status :: u16
  f_check_sum :: u16

text \<open>The bytes of the packed struct, and the struct that lies over twelve bytes.\<close>

definition frame_bytes :: "frame_t \<Rightarrow> bytes" where
  "frame_bytes f = [f_address f, f_frame_type f] @ le32 (f_n_file f) @ le16 (f_n_frame f)
     @ le16 (f_status f) @ le16 (f_check_sum f)"

definition bytes_frame :: "bytes \<Rightarrow> frame_t" where
  "bytes_frame bs =
     \<lparr> f_address = bs ! 0, f_frame_type = bs ! 1,
       f_n_file = of_le32 (bs ! 2) (bs ! 3) (bs ! 4) (bs ! 5),
       f_n_frame = of_le16 (bs ! 6) (bs ! 7), f_status = of_le16 (bs ! 8) (bs ! 9),
       f_check_sum = of_le16 (bs ! 10) (bs ! 11) \<rparr>"

text \<open>The assignments to \<open>temp\<close> in \<open>write_frame\<close>.\<close>

definition frame_to_wire :: "frame_t \<Rightarrow> frame_t" where
  "frame_to_wire f =
     (let temp = f\<lparr> f_n_file := htobe32 (f_n_file f), f_n_frame := htobe16 (f_n_frame f),
                    f_status := htobe16 (f_status f) \<rparr>
      in temp\<lparr> f_check_sum := crc16 (take (sizeof_frame_t - 2) (frame_bytes temp)) \<rparr>)"

text \<open>The assignments to \<open>*frame\<close> after the \<open>memcpy\<close> in \<open>receive_frame\<close>, and its test.\<close>

definition frame_from_wire :: "frame_t \<Rightarrow> frame_t" where
  "frame_from_wire f = f\<lparr> f_n_file := be32toh (f_n_file f), f_n_frame := be16toh (f_n_frame f),
     f_status := be16toh (f_status f) \<rparr>"

definition frame_accepted :: "bytes \<Rightarrow> bool" where
  "frame_accepted bs \<longleftrightarrow>
     crc16 (take (sizeof_frame_t - 2) bs) = f_check_sum (bytes_frame bs)"

definition frame_received :: "frame_t \<Rightarrow> frame_t" where
  "frame_received f = f\<lparr> f_check_sum := f_check_sum (frame_to_wire f) \<rparr>"

lemma length_frame_bytes [simp]: "length (frame_bytes f) = 12"
  by (simp add: frame_bytes_def)

lemma bytes_frame_frame_bytes [simp]: "bytes_frame (frame_bytes f) = f"
  by (simp add: bytes_frame_def frame_bytes_def le16_def le32_def nth_append)

lemma list_of_length_Suc: "length xs = Suc n \<longleftrightarrow> (\<exists>y ys. xs = y # ys \<and> length ys = n)"
  by (cases xs) auto

lemma frame_bytes_bytes_frame [simp]: "length bs = 12 \<Longrightarrow> frame_bytes (bytes_frame bs) = bs"
  by (auto simp add: eval_nat_numeral list_of_length_Suc)
     (simp add: bytes_frame_def frame_bytes_def)

lemma take_frame_bytes_check_sum:
  "take (sizeof_frame_t - 2) (frame_bytes (f\<lparr> f_check_sum := c \<rparr>)) =
     take (sizeof_frame_t - 2) (frame_bytes f)"
  by (simp add: frame_bytes_def sizeof_frame_t_def)

lemma frame_accepted_sealed:
  "length bs = 12 \<Longrightarrow> frame_accepted bs \<longleftrightarrow> crc_sealed bs"
  using crc_sealed_append [of "take 10 bs" "bs ! 10" "bs ! 11"]
  by (auto simp add: eval_nat_numeral list_of_length_Suc)
     (simp_all add: frame_accepted_def sizeof_frame_t_def bytes_frame_def)

interpretation fr: wire_codec "\<lambda>f. frame_bytes (frame_to_wire f)"
  "\<lambda>bs. frame_from_wire (bytes_frame bs)" frame_accepted frame_received "\<lambda>_. True" sizeof_frame_t
proof unfold_locales
  fix f
  show "length (frame_bytes (frame_to_wire f)) = sizeof_frame_t"
    by (simp add: sizeof_frame_t_def)
  show "frame_from_wire (bytes_frame (frame_bytes (frame_to_wire f))) = frame_received f"
    by (simp add: frame_received_def frame_from_wire_def frame_to_wire_def Let_def)
  show "frame_accepted (frame_bytes (frame_to_wire f))"
    by (simp add: frame_accepted_def frame_to_wire_def Let_def take_frame_bytes_check_sum)
qed

section \<open>Data frames\<close>

record data_frame_t =
  df_header :: bytes
  df_n_total_frame :: u24
  df_flag :: u8
  df_n_file :: u32
  df_n_frame :: u16
  df_total_data_len :: u32
  df_data_len :: u16
  df_data :: bytes
  df_check_sum :: u16

text \<open>The two arrays of the struct have their declared lengths.\<close>

definition wf_data_frame :: "data_frame_t \<Rightarrow> bool" where
  "wf_data_frame f \<longleftrightarrow> length (df_header f) = 4 \<and> length (df_data f) = TP_FRAME_DATA_LEN_MAX"

definition data_frame_bytes :: "data_frame_t \<Rightarrow> bytes" where
  "data_frame_bytes f = df_header f @ le24 (df_n_total_frame f) @ [df_flag f]
     @ le32 (df_n_file f) @ le16 (df_n_frame f) @ le32 (df_total_data_len f)
     @ le16 (df_data_len f) @ df_data f @ le16 (df_check_sum f)"

definition bytes_data_frame :: "bytes \<Rightarrow> data_frame_t" where
  "bytes_data_frame bs =
     \<lparr> df_header = take 4 bs,
       df_n_total_frame = of_le24 (bs ! 4) (bs ! 5) (bs ! 6),
       df_flag = bs ! 7,
       df_n_file = of_le32 (bs ! 8) (bs ! 9) (bs ! 10) (bs ! 11),
       df_n_frame = of_le16 (bs ! 12) (bs ! 13),
       df_total_data_len = of_le32 (bs ! 14) (bs ! 15) (bs ! 16) (bs ! 17),
       df_data_len = of_le16 (bs ! 18) (bs ! 19),
       df_data = take TP_FRAME_DATA_LEN_MAX (drop 20 bs),
       df_check_sum = of_le16 (bs ! 532) (bs ! 533) \<rparr>"

text \<open>\<open>htobe32(x.uint24) >> 8\<close>: the 24-bit field is widened, swapped and shifted down.\<close>

definition swap24 :: "u24 \<Rightarrow> u24" where
  "swap24 x = ucast (drop_bit 8 (bswap32 (ucast x)))"

definition data_frame_to_wire :: "data_frame_t \<Rightarrow> data_frame_t" where
  "data_frame_to_wire f =
     (let temp = f\<lparr> df_n_total_frame := swap24 (df_n_total_frame f),
                    df_n_file := htobe32 (df_n_file f), df_n_frame := htobe16 (df_n_frame f),
                    df_total_data_len := htobe32 (df_total_data_len f),
                    df_data_len := htobe16 (df_data_len f) \<rparr>
      in temp\<lparr> df_check_sum :=
           crc16 (take (sizeof_data_frame_t - 2) (data_frame_bytes temp)) \<rparr>)"

definition data_frame_from_wire :: "data_frame_t \<Rightarrow> data_frame_t" where
  "data_frame_from_wire f =
     f\<lparr> df_n_total_frame := swap24 (df_n_total_frame f), df_n_file := be32toh (df_n_file f),
        df_n_frame := be16toh (df_n_frame f),
        df_total_data_len := be32toh (df_total_data_len f),
        df_data_len := be16toh (df_data_len f) \<rparr>"

text \<open>The negation of the test in the second loop of \<open>receive_data_frames\<close>.\<close>

definition data_frame_accepted :: "bytes \<Rightarrow> bool" where
  "data_frame_accepted bs \<longleftrightarrow> df_header (bytes_data_frame bs) = tp_header \<and>
     crc16 (take (sizeof_data_frame_t - 2) bs) = df_check_sum (bytes_data_frame bs)"

definition data_frame_received :: "data_frame_t \<Rightarrow> data_frame_t" where
  "data_frame_received f = f\<lparr> df_check_sum := df_check_sum (data_frame_to_wire f) \<rparr>"

lemma length_data_frame_bytes:
  "wf_data_frame f \<Longrightarrow> length (data_frame_bytes f) = sizeof_data_frame_t"
  by (simp add: wf_data_frame_def data_frame_bytes_def sizeof_data_frame_t_def
      TP_FRAME_DATA_LEN_MAX_def)

lemma bytes_data_frame_data_frame_bytes:
  assumes "wf_data_frame f"
  shows "bytes_data_frame (data_frame_bytes f @ rest) = f"
proof -
  from assms obtain a b c d where h: "df_header f = [a, b, c, d]"
    by (auto simp add: wf_data_frame_def eval_nat_numeral list_of_length_Suc)
  from assms have l: "length (df_data f) = 512"
    by (simp add: wf_data_frame_def TP_FRAME_DATA_LEN_MAX_def)
  show ?thesis
    unfolding bytes_data_frame_def data_frame_bytes_def le16_def le24_def le32_def
    using h l by (cases f) (simp add: nth_append TP_FRAME_DATA_LEN_MAX_def)
qed

lemma data_frame_image_cases:
  assumes "length bs = sizeof_data_frame_t"
  obtains a b c d e f g h i j k l m n p q r s t u data v w
  where "bs = [a, b, c, d, e, f, g, h, i, j, k, l, m, n, p, q, r, s, t, u] @ data @ [v, w]"
    and "length data = 512"
proof -
  have "take 20 bs = map ((!) bs) [0..<20]" and "drop 532 bs = [bs ! 532, bs ! 533]"
    using assms
    by (auto simp add: sizeof_data_frame_t_def list_eq_iff_nth_eq less_Suc_eq numeral_2_eq_2)
  then obtain a b c d e f g h i j k l m n p q r s t u v w
    where p: "take 20 bs = [a, b, c, d, e, f, g, h, i, j, k, l, m, n, p, q, r, s, t, u]"
      and s: "drop 532 bs = [v, w]"
    by (simp add: upt_rec_numeral upt_conv_Cons)
  have "bs = take 20 bs @ take 512 (drop 20 bs) @ drop 532 bs"
    using append_take_drop_id [of 20 bs] append_take_drop_id [of 512 "drop 20 bs"] by simp
  then show thesis
    using that [of a b c d e f g h i j k l m n p q r s t u "take 512 (drop 20 bs)" v w] assms
    by (simp add: p s sizeof_data_frame_t_def)
qed

lemma data_frame_bytes_bytes_data_frame:
  assumes "length bs = sizeof_data_frame_t"
  shows "data_frame_bytes (bytes_data_frame bs) = bs" and "wf_data_frame (bytes_data_frame bs)"
    and "df_check_sum (bytes_data_frame bs) = of_le16 (bs ! 532) (bs ! 533)"
  using assms
  by (elim data_frame_image_cases, simp add: bytes_data_frame_def data_frame_bytes_def nth_append
      TP_FRAME_DATA_LEN_MAX_def wf_data_frame_def)+

lemma le24_inject: "le24 x = le24 y \<longleftrightarrow> x = y"
  by (simp add: le24_def) (metis of_le24_le24)

lemma swap24_swap24 [simp]: "swap24 (swap24 x) = x"
proof -
  have s: "swap24 x = of_le24 (ucast (drop_bit 16 x)) (ucast (drop_bit 8 x)) (ucast x)" for x
    by (rule bit_word_eqI)
       (auto simp add: swap24_def bswap32_def of_le32_def of_le24_def bit_simps
         dest: bit_imp_le_length)
  then have "le24 (swap24 x) = rev (le24 x)" for x
    by (simp only: le24_of_le24) (simp add: le24_def)
  then have "le24 (swap24 (swap24 x)) = le24 x" by simp
  then show ?thesis by (simp only: le24_inject)
qed

lemma take_data_frame_bytes_check_sum:
  assumes "wf_data_frame f"
  shows "take (sizeof_data_frame_t - 2) (data_frame_bytes (f\<lparr> df_check_sum := c \<rparr>)) =
     take (sizeof_data_frame_t - 2) (data_frame_bytes f)"
  using assms
  by (simp add: data_frame_bytes_def sizeof_data_frame_t_def wf_data_frame_def
      TP_FRAME_DATA_LEN_MAX_def)

lemma data_frame_accepted_sealed:
  assumes "length bs = sizeof_data_frame_t"
  shows "data_frame_accepted bs \<longleftrightarrow> take 4 bs = tp_header \<and> crc_sealed bs"
proof -
  have "bs = take 532 bs @ [bs ! 532, bs ! 533]"
    using assms by (elim data_frame_image_cases) (simp add: nth_append)
  then have "crc_sealed bs \<longleftrightarrow> crc16 (take 532 bs) = of_le16 (bs ! 532) (bs ! 533)"
    using crc_sealed_append [of "take 532 bs" "bs ! 532" "bs ! 533"] by simp
  then show ?thesis
    by (simp add: data_frame_accepted_def bytes_data_frame_def sizeof_data_frame_t_def)
qed

lemma wf_data_frame_to_wire [simp]:
  "wf_data_frame (data_frame_to_wire f) \<longleftrightarrow> wf_data_frame f"
  by (simp add: wf_data_frame_def data_frame_to_wire_def Let_def)

lemma wf_data_frame_from_wire [simp]:
  "wf_data_frame (data_frame_from_wire f) \<longleftrightarrow> wf_data_frame f"
  by (simp add: wf_data_frame_def data_frame_from_wire_def)

lemma data_frame_from_to_wire:
  "data_frame_from_wire (data_frame_to_wire f) = data_frame_received f"
  by (simp add: data_frame_received_def data_frame_from_wire_def data_frame_to_wire_def Let_def)

text \<open>A frame a sender may send: arrays of the right size and the header in place.\<close>

definition sendable :: "data_frame_t \<Rightarrow> bool" where
  "sendable f \<longleftrightarrow> wf_data_frame f \<and> df_header f = tp_header"

interpretation df: wire_codec "\<lambda>f. data_frame_bytes (data_frame_to_wire f)"
  "\<lambda>bs. data_frame_from_wire (bytes_data_frame bs)" data_frame_accepted data_frame_received
  sendable sizeof_data_frame_t
proof unfold_locales
  fix f assume "sendable f"
  then have wf: "wf_data_frame f" and h: "df_header f = tp_header"
    by (simp_all add: sendable_def)
  show "length (data_frame_bytes (data_frame_to_wire f)) = sizeof_data_frame_t"
    using wf by (simp add: length_data_frame_bytes)
  have dec: "bytes_data_frame (data_frame_bytes (data_frame_to_wire f)) = data_frame_to_wire f"
    using bytes_data_frame_data_frame_bytes [of "data_frame_to_wire f" "[]"] wf by simp
  then show "data_frame_from_wire (bytes_data_frame (data_frame_bytes (data_frame_to_wire f)))
      = data_frame_received f"
    by (simp add: data_frame_from_to_wire)
  have "df_header (data_frame_to_wire f) = tp_header"
    using h by (simp add: data_frame_to_wire_def Let_def)
  then show "data_frame_accepted (data_frame_bytes (data_frame_to_wire f))"
    unfolding data_frame_accepted_def dec using wf
    by (simp add: data_frame_to_wire_def Let_def take_data_frame_bytes_check_sum wf_data_frame_def)
qed

end
