(* ===== verification/Framing.thy ===== *)
theory Framing
  imports Frame
begin

text \<open>
  The part of \<^verbatim>\<open>transmission_protocol.c\<close> that turns a byte buffer or a file into the
  data frames of a picture and back: numbering, \<open>init_data_frames\<close>, \<open>data_to_data_frames\<close>,
  \<open>data_frames_to_data\<close>, \<open>fd_to_data_frames\<close>, \<open>alloc_data_frames\<close>,
  \<open>get_data_frames\<close> and \<open>entropy_to_gmm\<close>. An array of frames is the list of its
  elements; every access outside it, outside a frame's 512 data bytes or outside the byte
  buffer is a fault.
\<close>

section \<open>Numbering\<close>

definition id_to_n_frame :: "u16 \<Rightarrow> u16 \<Rightarrow> u16" where
  "id_to_n_frame i len = (if len = 1 then i else i + 1)"

definition n_frame_to_id :: "u16 \<Rightarrow> u16 \<Rightarrow> u16" where
  "n_frame_to_id n_frame len = (if len = 1 then n_frame else n_frame - 1)"

definition count_unreceived_data_frames :: "data_frame_t list \<Rightarrow> u16 \<Rightarrow> u16 res" where
  "count_unreceived_data_frames data_frames n_frame =
     for_each [0..<unat n_frame]
       (\<lambda>i sum. and_then (get_at data_frames i)
          (\<lambda>f. Inr (if df_data_len f = 0 then sum + 1 else sum))) 0"

section \<open>Frames of a buffer\<close>

definition init_data_frame :: "u16 \<Rightarrow> u32 \<Rightarrow> u8 \<Rightarrow> u32 \<Rightarrow> nat \<Rightarrow> data_frame_t \<Rightarrow> data_frame_t" where
  "init_data_frame n_frame n_file flag total_data_len i f =
     f\<lparr> df_header := tp_header, df_flag := flag, df_n_file := n_file,
        df_n_frame := id_to_n_frame (of_nat i) n_frame, df_total_data_len := total_data_len \<rparr>"

definition init_data_frames ::
    "data_frame_t list \<Rightarrow> u16 \<Rightarrow> u32 \<Rightarrow> u8 \<Rightarrow> u32 \<Rightarrow> data_frame_t list res" where
  "init_data_frames data_frames n_frame n_file flag total_data_len =
     for_each [0..<unat n_frame]
       (\<lambda>i fs. and_then (get_at fs i)
          (\<lambda>f. put_at fs i (init_data_frame n_frame n_file flag total_data_len i f)))
       data_frames"

text \<open>
  The loop of \<open>data_to_data_frames\<close> with its 16-bit counter \<open>i\<close>, the offset \<open>p\<close> into
  \<open>addr\<close> and the bound \<open>n = n_frame - 1\<close> of type \<open>size_t\<close>. When the counter wraps
  before the bound the loop goes on until \<open>p\<close> leaves the buffer.
\<close>

function data_to_data_frames_loop ::
    "bytes \<Rightarrow> u64 \<Rightarrow> u16 \<Rightarrow> nat \<Rightarrow> data_frame_t list \<Rightarrow> (u16 \<times> nat \<times> data_frame_t list) res" where
  "data_to_data_frames_loop addr n i p fs =
     (if ucast i < n then
        if unat i < length fs \<and> p + TP_FRAME_DATA_LEN_MAX \<le> length addr then
          data_to_data_frames_loop addr n (i + 1) (p + TP_FRAME_DATA_LEN_MAX)
            (fs[unat i := (fs ! unat i)\<lparr> df_data := take TP_FRAME_DATA_LEN_MAX (drop p addr),
                 df_data_len := of_nat TP_FRAME_DATA_LEN_MAX \<rparr>])
        else Inl OutOfBounds
      else Inr (i, p, fs))"
  by auto
termination
  by (relation "measure (\<lambda>(addr, n, i, p, fs). length addr - p)")
     (auto simp add: TP_FRAME_DATA_LEN_MAX_def)

declare data_to_data_frames_loop.simps [simp del]

definition data_to_data_frames :: "bytes \<Rightarrow> u64 \<Rightarrow> data_frame_t list \<Rightarrow> data_frame_t list res" where
  "data_to_data_frames addr len data_frames =
     (let n_frame = (if len = 0 then 0 else (len - 1) div of_nat TP_FRAME_DATA_LEN_MAX + 1) in
      and_then (data_to_data_frames_loop addr (n_frame - 1) 0 0 data_frames)
        (\<lambda>(i, p, fs).
           let data_len = ucast (len - ucast i * of_nat TP_FRAME_DATA_LEN_MAX) :: u16;
               k = unat data_len
           in and_then (get_at fs (unat i))
             (\<lambda>f. if p + k \<le> length addr \<and> k \<le> TP_FRAME_DATA_LEN_MAX
                then put_at fs (unat i)
                  (f\<lparr> df_data_len := data_len,
                      df_data := take k (drop p addr) @ replicate (TP_FRAME_DATA_LEN_MAX - k) 0 \<rparr>)
                else Inl OutOfBounds)))"

text \<open>The number of data bytes of a frame array, and the copy of them into a buffer.\<close>

definition data_frame_to_data_len :: "data_frame_t list \<Rightarrow> u16 \<Rightarrow> nat res" where
  "data_frame_to_data_len data_frames n_frame =
     for_each [0..<unat n_frame]
       (\<lambda>i len. and_then (get_at data_frames i) (\<lambda>f. Inr (len + unat (df_data_len f)))) 0"

definition data_frames_to_data :: "data_frame_t list \<Rightarrow> u16 \<Rightarrow> bytes \<Rightarrow> bytes res" where
  "data_frames_to_data data_frames n_frame addr =
     and_then (for_each [0..<unat n_frame]
       (\<lambda>i (p, buf). and_then (get_at data_frames i)
          (\<lambda>f. let k = unat (df_data_len f) in
             if k \<le> length (df_data f)
             then and_then (blit buf p (take k (df_data f))) (\<lambda>buf. Inr (p + k, buf))
             else Inl OutOfBounds)) (0, addr))
       (\<lambda>(p, buf). Inr buf)"

section \<open>Frames of a file\<close>

text \<open>
  An open regular file: the bytes from the file offset on, and which of the next calls of
  \<open>read\<close> fail.
\<close>

record file_t =
  fl_rest :: bytes
  fl_read_fails :: "bool list"

definition read_file :: "nat \<Rightarrow> file_t \<Rightarrow> bytes option \<times> file_t" where
  "read_file k fl = (case fl_read_fails fl of
       True # fs \<Rightarrow> (None, fl\<lparr> fl_read_fails := fs \<rparr>)
     | fs \<Rightarrow> (Some (take k (fl_rest fl)), fl\<lparr> fl_rest := drop k (fl_rest fl), fl_read_fails := tl fs \<rparr>))"

text \<open>
  The loop declares its own \<open>i\<close>, so the final \<open>memset\<close> uses the outer one, which is
  still 0; \<open>size\<close> is written by the loop only.
\<close>

definition fd_to_data_frames :: "file_t \<Rightarrow> data_frame_t list \<Rightarrow> u16 \<Rightarrow> data_frame_t list res" where
  "fd_to_data_frames fd data_frames n_frame =
     and_then (for_each [0..<unat n_frame]
       (\<lambda>i (sz, fd, fs). and_then (get_at fs i)
          (\<lambda>f. case read_file TP_FRAME_DATA_LEN_MAX fd of
               (None, fd) \<Rightarrow> Inl ErrExit
             | (Some bs, fd) \<Rightarrow>
                 Inr (Some (length bs), fd,
                   fs[i := f\<lparr> df_data := bs @ drop (length bs) (df_data f),
                              df_data_len := of_nat (length bs) \<rparr>]))) (None, fd, data_frames))
       (\<lambda>(sz, fd, fs). case sz of
            None \<Rightarrow> Inl Uninit
          | Some n \<Rightarrow> and_then (get_at fs 0)
              (\<lambda>f. put_at fs 0 (f\<lparr> df_data := take n (df_data f)
                 @ replicate (TP_FRAME_DATA_LEN_MAX - n) 0 \<rparr>)))"

text \<open>
  The source of \<open>alloc_data_frames\<close>: a buffer with its length, or (\<open>addr == NULL\<close>) a
  file descriptor. \<open>mem\<close> is what \<open>malloc\<close> returns, with the contents the new block has.
\<close>

datatype source = Buffer bytes u64 | Fd file_t

definition alloc_data_frames :: "data_frame_t list option \<Rightarrow> u16 \<Rightarrow> u32 \<Rightarrow> source \<Rightarrow> u8 \<Rightarrow> u32
    \<Rightarrow> data_frame_t list option res" where
  "alloc_data_frames mem n_frame n_file src flag total_data_len =
     (case mem of
        None \<Rightarrow> Inr None
      | Some fs \<Rightarrow>
          and_then (init_data_frames fs n_frame n_file flag total_data_len)
            (\<lambda>fs. and_then
              (case src of
                 Fd fd \<Rightarrow> fd_to_data_frames fd fs n_frame
               | Buffer addr len \<Rightarrow> data_to_data_frames addr len fs)
              (\<lambda>fs. Inr (Some fs))))"

text \<open>
  \<open>get_data_frames\<close>: \<open>fe_open\<close> is what \<open>open\<close> gives (\<open>None\<close> when it fails). The output
  arguments go in and out as a triple; in the binary mode the frames are the file's bytes
  as they are, in line order. A failing \<open>read\<close> moves \<open>p\<close> back by one.
\<close>

record file_env =
  fe_open :: "file_t option"
  fe_fstat_ok :: bool
  fe_close_ok :: bool

definition frames_of_bytes :: "bytes \<Rightarrow> nat \<Rightarrow> data_frame_t list" where
  "frames_of_bytes buf n = map (\<lambda>i. bytes_data_frame (piece sizeof_data_frame_t i buf)) [0..<n]"

definition read_binary_frames :: "file_t \<Rightarrow> nat \<Rightarrow> bytes \<Rightarrow> bytes res" where
  "read_binary_frames fl n buf =
     and_then (for_each [0..<n]
       (\<lambda>_ (p :: int, fl, buf). case read_file sizeof_data_frame_t fl of
            (None, fl) \<Rightarrow> Inr (p - 1, fl, buf)
          | (Some bs, fl) \<Rightarrow> if p < 0 then Inl OutOfBounds
              else and_then (blit buf (nat p) bs) (\<lambda>buf. Inr (p + int (length bs), fl, buf)))
       (0, fl, buf))
       (\<lambda>(p, fl, buf). Inr buf)"

definition get_data_frames :: "file_env \<Rightarrow> bytes option \<Rightarrow> data_frame_t list option \<Rightarrow>
    u32 \<times> u16 \<times> data_frame_t list option \<Rightarrow> bool \<Rightarrow>
    (nat \<times> u32 \<times> u16 \<times> data_frame_t list option) res" where
  "get_data_frames env mem_bytes mem_frames out binary =
     (case (fe_open env, fe_fstat_ok env, out) of
        (Some fl, True, n_file, _, _) \<Rightarrow>
          let st_size = length (fl_rest fl);
              finish = (\<lambda>out. Inr (if fe_close_ok env then 0 else 2, out))
          in if binary then
            let n_frame = of_nat (st_size div sizeof_data_frame_t) in
            case mem_bytes of
              None \<Rightarrow> Inl ErrExit
            | Some buf \<Rightarrow> and_then (read_binary_frames fl (unat n_frame) buf)
                (\<lambda>buf. if length buf < 12 then Inl OutOfBounds
                   else if n_frame = 0 then Inl Uninit
                   else let fs = frames_of_bytes buf (unat n_frame)
                     in finish (be32toh (df_n_file (hd fs)), n_frame, Some fs))
          else
            let n_frame = of_nat (ceil_div st_size TP_FRAME_DATA_LEN_MAX) in
            and_then (alloc_data_frames mem_frames n_frame n_file (Fd fl) TP_FLAG_1_YUV420
                (of_nat st_size))
              (\<lambda>r. case r of
                 None \<Rightarrow> Inr (3, n_file, n_frame, None)
               | Some fs \<Rightarrow> finish (n_file, n_frame, Some fs))
      | _ \<Rightarrow> Inr (1, out))"

section \<open>What the frames of a buffer hold\<close>

text \<open>The data bytes a frame announces, and the \<open>i\<close>-th frame of the bytes \<open>xs\<close>.\<close>

definition payload :: "data_frame_t \<Rightarrow> bytes" where
  "payload f = take (unat (df_data_len f)) (df_data f)"

definition chunk_frame :: "bytes \<Rightarrow> nat \<Rightarrow> data_frame_t \<Rightarrow> data_frame_t" where
  "chunk_frame xs i f = (let c = piece TP_FRAME_DATA_LEN_MAX i xs in
     f\<lparr> df_data_len := of_nat (length c),
        df_data := c @ replicate (TP_FRAME_DATA_LEN_MAX - length c) 0 \<rparr>)"

lemma length_piece [simp]: "length (piece k i xs) = min k (length xs - i * k)"
  by (simp add: piece_def)

lemma piece_append_left: "Suc i * k \<le> length xs \<Longrightarrow> piece k i (xs @ ys) = piece k i xs"
  by (simp add: piece_def)

lemma payload_chunk_frame: "payload (chunk_frame xs i f) = piece TP_FRAME_DATA_LEN_MAX i xs"
  by (simp add: payload_def chunk_frame_def Let_def TP_FRAME_DATA_LEN_MAX_def)

lemma wf_chunk_frame [simp]:
  "wf_data_frame (chunk_frame xs i f) \<longleftrightarrow> length (df_header f) = 4"
  by (simp add: chunk_frame_def Let_def wf_data_frame_def TP_FRAME_DATA_LEN_MAX_def)

lemma data_len_chunk_frame:
  "df_data_len (chunk_frame xs i f) = of_nat (min TP_FRAME_DATA_LEN_MAX
     (length xs - i * TP_FRAME_DATA_LEN_MAX))"
  by (simp add: chunk_frame_def Let_def)

lemma concat_pieces:
  assumes "0 < k" and "length xs \<le> n * k"
  shows "concat (map (\<lambda>i. piece k i xs) [0..<n]) = xs"
  using assms(2)
proof (induction n arbitrary: xs)
  case (Suc n)
  have "concat (map (\<lambda>i. piece k i xs) [0..<Suc n]) =
      piece k 0 xs @ concat (map (\<lambda>i. piece k i (drop k xs)) [0..<n])"
    by (simp add: upt_conv_Cons map_Suc_upt [symmetric] piece_def add.commute o_def
        del: upt_Suc)
  also have "\<dots> = take k xs @ drop k xs"
    using Suc.IH [of "drop k xs"] Suc.prems by (simp add: piece_def)
  finally show ?case by simp
qed simp

lemma data_to_data_frames_loop_ok:
  assumes "n < 65536" and "n \<le> length fs" and "n * TP_FRAME_DATA_LEN_MAX \<le> length addr"
    and "j \<le> n"
  shows "data_to_data_frames_loop addr (of_nat n) (of_nat j) (j * TP_FRAME_DATA_LEN_MAX)
      (map (\<lambda>i. chunk_frame addr i (fs ! i)) [0..<j] @ drop j fs) =
    Inr (of_nat n, n * TP_FRAME_DATA_LEN_MAX,
      map (\<lambda>i. chunk_frame addr i (fs ! i)) [0..<n] @ drop n fs)"
  using assms(4)
proof (induction j rule: inc_induct)
  case base
  show ?case by (subst data_to_data_frames_loop.simps) (use assms in simp)
next
  case (step j)
  let ?L = TP_FRAME_DATA_LEN_MAX
  let ?fs = "\<lambda>j. map (\<lambda>i. chunk_frame addr i (fs ! i)) [0..<j] @ drop j fs"
  have j: "j < 65536" "j < length fs" "Suc j * ?L \<le> length addr"
  proof -
    have "Suc j * ?L \<le> n * ?L" using step.hyps by (intro mult_le_mono1) simp
    then show "Suc j * ?L \<le> length addr" using assms(3) by (rule le_trans)
  qed (use step.hyps assms in auto)
  have nth: "?fs j ! j = fs ! j" using j by (simp add: nth_append)
  have upd: "(?fs j)[j := chunk_frame addr j (fs ! j)] = ?fs (Suc j)"
    using j by (simp add: list_update_append flip: Cons_nth_drop_Suc)
  have chunk: "(fs ! j)\<lparr> df_data := take ?L (drop (j * ?L) addr), df_data_len := of_nat ?L \<rparr> =
      chunk_frame addr j (fs ! j)"
  proof -
    have "length (take ?L (drop (j * ?L) addr)) = ?L" using j(3) by simp
    then show ?thesis by (simp add: chunk_frame_def piece_def del: length_take length_drop)
  qed
  have guard: "ucast (of_nat j :: u16) < (of_nat n :: u64)"
    using j step.hyps assms(1) by (simp add: of_nat_less_u64)
  have "data_to_data_frames_loop addr (of_nat n) (of_nat j) (j * ?L) (?fs j) =
      data_to_data_frames_loop addr (of_nat n) (of_nat (Suc j)) (Suc j * ?L) (?fs (Suc j))"
    by (subst data_to_data_frames_loop.simps)
       (use j guard nth upd chunk in \<open>simp add: add.commute\<close>)
  with step.IH show ?case by simp
qed

lemma chunk_frame_append:
  "Suc i * TP_FRAME_DATA_LEN_MAX \<le> length xs \<Longrightarrow> chunk_frame (xs @ ys) i f = chunk_frame xs i f"
  by (simp only: chunk_frame_def piece_append_left)

lemma data_to_data_frames_ok:
  assumes "0 < length xs" and n: "ceil_div (length xs) TP_FRAME_DATA_LEN_MAX = Suc n"
    and "n < 65536" and "Suc n \<le> length fs"
  shows "data_to_data_frames (xs @ ys) (of_nat (length xs)) fs =
    Inr (map (\<lambda>i. chunk_frame xs i (fs ! i)) [0..<Suc n] @ drop (Suc n) fs)"
proof -
  let ?L = TP_FRAME_DATA_LEN_MAX
  let ?N = "of_nat (length xs) :: u64"
  have L: "0 < ?L" by (simp add: TP_FRAME_DATA_LEN_MAX_def)
  from ceil_div_bounds [OF L, of "length xs"] assms(1) n
  have hi: "length xs \<le> Suc n * ?L" and lo: "n * ?L < length xs" by simp_all
  have big: "length xs < 18446744073709551616"
    using hi assms(3) by (simp add: TP_FRAME_DATA_LEN_MAX_def)
  have div: "(length xs - 1) div ?L = n"
    using n assms(1) by (simp add: ceil_div_def)
  have "?N - 1 = of_nat (length xs - 1)" using assms(1) by (cases xs) simp_all
  then have "(?N - 1) div of_nat ?L = of_nat n"
    using big div by (simp add: of_nat_div_u64 TP_FRAME_DATA_LEN_MAX_def del: of_nat_numeral)
  moreover have "?N \<noteq> 0" using unat_of_nat_u64 [OF big] assms(1) by auto
  ultimately have bound: "(if ?N = 0 then 0 else (?N - 1) div of_nat ?L + 1) - 1 = (of_nat n :: u64)"
    by simp
  define gs where "gs = map (\<lambda>i. chunk_frame xs i (fs ! i)) [0..<n] @ drop n fs"
  have "map (\<lambda>i. chunk_frame (xs @ ys) i (fs ! i)) [0..<n] =
      map (\<lambda>i. chunk_frame xs i (fs ! i)) [0..<n]"
  proof (intro map_cong refl chunk_frame_append)
    fix i assume "i \<in> set [0..<n]"
    then have "Suc i * ?L \<le> n * ?L" by (intro mult_le_mono1) simp
    with lo show "Suc i * ?L \<le> length xs" by linarith
  qed
  then have loop: "data_to_data_frames_loop (xs @ ys) (of_nat n) 0 0 fs = Inr (of_nat n, n * ?L, gs)"
    using data_to_data_frames_loop_ok [of n fs "xs @ ys" 0] assms lo by (simp add: gs_def)
  define k where "k = length xs - n * ?L"
  have k: "k \<le> ?L" "n * ?L + k = length xs" "k < 65536"
    using hi lo by (simp_all add: k_def TP_FRAME_DATA_LEN_MAX_def)
  have "?N - ucast (of_nat n :: u16) * of_nat ?L = of_nat k"
    using assms(3) lo by (simp add: k_def of_nat_diff)
  then have len: "ucast (?N - ucast (of_nat n :: u16) * of_nat ?L) = (of_nat k :: u16)"
    by (simp add: ucast_of_nat_u64)
  have "gs ! n = fs ! n" "n < length gs"
    using assms(4) by (simp_all add: gs_def nth_append)
  moreover have piece: "piece ?L n xs = take k (drop (n * ?L) (xs @ ys))"
    using k by (simp add: piece_def)
  moreover have "length (piece ?L n xs) = k" using k by simp
  ultimately have last: "(gs ! n)\<lparr> df_data_len := of_nat k,
      df_data := take k (drop (n * ?L) (xs @ ys)) @ replicate (?L - k) 0 \<rparr> = chunk_frame xs n (fs ! n)"
    by (simp add: chunk_frame_def Let_def)
  have "gs[n := chunk_frame xs n (fs ! n)] =
      map (\<lambda>i. chunk_frame xs i (fs ! i)) [0..<Suc n] @ drop (Suc n) fs"
    using assms(4) by (simp add: gs_def list_update_append flip: Cons_nth_drop_Suc)
  then show ?thesis
    unfolding data_to_data_frames_def Let_def bound loop and_then_simps prod.case len
    using k assms(3) \<open>n < length gs\<close> last by simp
qed

section \<open>What the loops over a frame array compute\<close>

lemma init_data_frames_ok:
  assumes "n < 65536" and "n \<le> length fs"
  shows "init_data_frames fs (of_nat n) n_file flag tlen =
    Inr (map (\<lambda>i. init_data_frame (of_nat n) n_file flag tlen i (fs ! i)) [0..<n] @ drop n fs)"
  unfolding init_data_frames_def
  using for_each_update [OF assms(2), of "init_data_frame (of_nat n) n_file flag tlen"] assms(1)
  by simp

lemma count_unreceived_ok:
  assumes "n < 65536" and "n \<le> length fs"
  shows "count_unreceived_data_frames fs (of_nat n) =
    Inr (of_nat (length (filter (\<lambda>f. df_data_len f = 0) (take n fs))))"
proof -
  let ?body = "\<lambda>i sum. and_then (get_at fs i)
    (\<lambda>f. Inr (if df_data_len f = 0 then sum + 1 else sum :: u16))"
  have "\<exists>s. for_each [0..<n] ?body 0 = Inr s \<and>
      s = of_nat (length (filter (\<lambda>f. df_data_len f = 0) (take n fs)))"
    by (rule for_each_invariant) (use assms in \<open>auto simp add: take_Suc_conv_app_nth\<close>)
  then show ?thesis using assms(1) by (simp add: count_unreceived_data_frames_def)
qed

definition payloads_len :: "data_frame_t list \<Rightarrow> nat" where
  "payloads_len fs = sum_list (map (\<lambda>f. unat (df_data_len f)) fs)"

text \<open>No frame announces more data bytes than it has.\<close>

definition fits :: "data_frame_t \<Rightarrow> bool" where
  "fits f \<longleftrightarrow> unat (df_data_len f) \<le> length (df_data f)"

lemma payloads_len_simps [simp]:
  "payloads_len [] = 0" "payloads_len (f # fs) = unat (df_data_len f) + payloads_len fs"
  "payloads_len (fs @ gs) = payloads_len fs + payloads_len gs"
  by (simp_all add: payloads_len_def)

lemma length_payloads: "list_all fits fs \<Longrightarrow> length (concat (map payload fs)) = payloads_len fs"
  by (induction fs) (simp_all add: payload_def fits_def)

lemma payloads_len_take_le:
  "i < length fs \<Longrightarrow> payloads_len (take i fs) + unat (df_data_len (fs ! i)) \<le> payloads_len fs"
proof -
  assume "i < length fs"
  then have "payloads_len (take i fs @ fs ! i # drop (Suc i) fs) = payloads_len fs"
    by (simp flip: id_take_nth_drop)
  then show ?thesis by simp
qed

lemma data_frame_to_data_len_ok:
  assumes "n < 65536" and "n \<le> length fs"
  shows "data_frame_to_data_len fs (of_nat n) = Inr (payloads_len (take n fs))"
proof -
  let ?body = "\<lambda>i len. and_then (get_at fs i) (\<lambda>f. Inr (len + unat (df_data_len f)))"
  have "\<exists>s. for_each [0..<n] ?body 0 = Inr s \<and> s = payloads_len (take n fs)"
    by (rule for_each_invariant) (use assms in \<open>auto simp add: take_Suc_conv_app_nth\<close>)
  then show ?thesis using assms(1) by (simp add: data_frame_to_data_len_def)
qed

lemma blit_end:
  "p = length xs \<Longrightarrow> p + length src \<le> length buf \<Longrightarrow>
     blit (xs @ drop p buf) p src = Inr (xs @ src @ drop (p + length src) buf)"
  by (simp add: blit_def add.commute)

lemma data_frames_to_data_ok:
  assumes "n < 65536" and "n \<le> length fs" and fit: "list_all fits (take n fs)"
    and room: "payloads_len (take n fs) \<le> length buf"
  shows "data_frames_to_data fs (of_nat n) buf =
    Inr (concat (map payload (take n fs)) @ drop (payloads_len (take n fs)) buf)"
proof -
  let ?body = "\<lambda>i (p, buf). and_then (get_at fs i)
    (\<lambda>f. let k = unat (df_data_len f) in
      if k \<le> length (df_data f)
      then and_then (blit buf p (take k (df_data f))) (\<lambda>buf. Inr (p + k, buf))
      else Inl OutOfBounds)"
  let ?I = "\<lambda>i s. s = (payloads_len (take i fs),
    concat (map payload (take i fs)) @ drop (payloads_len (take i fs)) buf)"
  have "\<exists>s'. for_each [0..<n] ?body (0, buf) = Inr s' \<and> ?I n s'"
  proof (rule for_each_invariant)
    fix i s assume i: "0 \<le> i" "i < n" and I: "?I i s"
    let ?f = "fs ! i" and ?p = "payloads_len (take i fs)"
    have ft: "fits ?f" "list_all fits (take i fs)"
      using fit i assms(2) by (auto simp add: list_all_length)
    have k: "length (payload ?f) = unat (df_data_len ?f)"
      using ft(1) by (simp add: payload_def fits_def)
    have "?p + unat (df_data_len ?f) \<le> length buf"
      using payloads_len_take_le [of i "take n fs"] i assms(2) room by simp
    then have "blit (concat (map payload (take i fs)) @ drop ?p buf) ?p (payload ?f) =
        Inr (concat (map payload (take i fs)) @ payload ?f @ drop (?p + unat (df_data_len ?f)) buf)"
      using blit_end [of ?p "concat (map payload (take i fs))" "payload ?f" buf]
      by (simp add: k length_payloads [OF ft(2)])
    then show "\<exists>s'. ?body i s = Inr s' \<and> ?I (Suc i) s'"
      using I i assms(2) ft(1)
      by (simp add: take_Suc_conv_app_nth fits_def Let_def flip: payload_def)
  qed simp_all
  then show ?thesis
    using assms(1) by (auto simp add: data_frames_to_data_def)
qed

lemma length_data_frames_to_data:
  assumes "data_frames_to_data fs n buf = Inr buf'"
  shows "length buf' = length buf"
proof -
  obtain p where loop: "for_each [0..<unat n] (\<lambda>i (p, buf). and_then (get_at fs i)
      (\<lambda>f. let k = unat (df_data_len f) in
        if k \<le> length (df_data f)
        then and_then (blit buf p (take k (df_data f))) (\<lambda>buf. Inr (p + k, buf))
        else Inl OutOfBounds)) (0, buf) = Inr (p, buf')"
    using assms unfolding data_frames_to_data_def and_then_eq_Inr by auto
  have "length (snd (p, buf')) = length buf"
    by (rule for_each_keeps [where I = "\<lambda>s. length (snd s) = length buf", OF loop])
       (auto simp add: and_then_eq_Inr Let_def blit_def split: if_splits)
  then show ?thesis by simp
qed

section \<open>What the frames of a file hold\<close>

definition file_frame :: "bytes \<Rightarrow> nat \<Rightarrow> data_frame_t \<Rightarrow> data_frame_t" where
  "file_frame xs i f = (let c = piece TP_FRAME_DATA_LEN_MAX i xs in
     f\<lparr> df_data := c @ drop (length c) (df_data f), df_data_len := of_nat (length c) \<rparr>)"

definition clear_from :: "nat \<Rightarrow> data_frame_t \<Rightarrow> data_frame_t" where
  "clear_from k f = f\<lparr> df_data := take k (df_data f)
     @ replicate (TP_FRAME_DATA_LEN_MAX - k) 0 \<rparr>"

lemma read_file_ok:
  "True \<notin> set (fl_read_fails fl) \<Longrightarrow> read_file k fl = (Some (take k (fl_rest fl)),
     fl\<lparr> fl_rest := drop k (fl_rest fl), fl_read_fails := tl (fl_read_fails fl) \<rparr>)"
  by (auto simp add: read_file_def split: list.splits bool.splits)

lemma fd_to_data_frames_ok:
  assumes "n < 65536" and "n \<le> length fs" and "0 < n" and nofail: "True \<notin> set fails"
  shows "fd_to_data_frames \<lparr> fl_rest = xs, fl_read_fails = fails \<rparr> fs (of_nat n) =
    (let gs = map (\<lambda>i. file_frame xs i (fs ! i)) [0..<n] @ drop n fs
     in Inr (gs[0 := clear_from (length (piece TP_FRAME_DATA_LEN_MAX (n - 1) xs)) (gs ! 0)]))"
proof -
  let ?L = TP_FRAME_DATA_LEN_MAX
  let ?body = "\<lambda>i (sz, fd, fs). and_then (get_at fs i)
    (\<lambda>f. case read_file ?L fd of
         (None, fd) \<Rightarrow> Inl ErrExit
       | (Some bs, fd) \<Rightarrow>
           Inr (Some (length bs), fd,
             fs[i := f\<lparr> df_data := bs @ drop (length bs) (df_data f),
                        df_data_len := of_nat (length bs) \<rparr>]))"
  let ?gs = "\<lambda>i. map (\<lambda>i. file_frame xs i (fs ! i)) [0..<i] @ drop i fs"
  let ?I = "\<lambda>i s. s = (if i = 0 then None else Some (length (piece ?L (i - 1) xs)),
    \<lparr> fl_rest = drop (i * ?L) xs, fl_read_fails = drop i fails \<rparr>, ?gs i)"
  have "\<exists>s'. for_each [0..<n] ?body (None, \<lparr> fl_rest = xs, fl_read_fails = fails \<rparr>, fs) = Inr s'
      \<and> ?I n s'"
  proof (rule for_each_invariant)
    fix i s assume i: "0 \<le> i" "i < n" and I: "?I i s"
    have "True \<notin> set (drop i fails)" using nofail by (meson in_set_dropD)
    moreover have "?gs i ! i = fs ! i" using i assms(2) by (simp add: nth_append)
    moreover have "(?gs i)[i := file_frame xs i (fs ! i)] = ?gs (Suc i)"
      using i assms(2) by (simp add: list_update_append flip: Cons_nth_drop_Suc)
    moreover have "tl (drop i fails) = drop (Suc i) fails" by (simp add: drop_Suc drop_tl)
    ultimately show "\<exists>s'. ?body i s = Inr s' \<and> ?I (Suc i) s'"
      using I i assms(2)
      by (simp add: read_file_ok file_frame_def Let_def piece_def add.commute)
  qed simp_all
  moreover have "0 < length (?gs n)" using assms(2,3) by (cases fs) simp_all
  then have "get_at (?gs n) 0 = Inr (?gs n ! 0)" and "put_at (?gs n) 0 f = Inr ((?gs n)[0 := f])" for f
    by (simp_all only: get_at_ok put_at_ok)
  ultimately show ?thesis
    using assms(1,3) by (auto simp add: fd_to_data_frames_def Let_def clear_from_def)
qed

text \<open>On a whole number of full frames the final \<open>memset\<close> clears nothing.\<close>

lemma fd_to_data_frames_full:
  assumes "n < 65536" and "length fs = n" and "0 < n" and "True \<notin> set fails"
    and "length xs = n * TP_FRAME_DATA_LEN_MAX" and "list_all wf_data_frame fs"
  shows "fd_to_data_frames \<lparr> fl_rest = xs, fl_read_fails = fails \<rparr> fs (of_nat n) =
    Inr (map (\<lambda>i. chunk_frame xs i (fs ! i)) [0..<n])"
proof -
  let ?L = TP_FRAME_DATA_LEN_MAX
  have full: "length (piece ?L i xs) = ?L" if "i < n" for i
  proof -
    have "Suc i * ?L \<le> n * ?L" using that by (intro mult_le_mono1) simp
    then show ?thesis using assms(5) by simp
  qed
  then have "file_frame xs i (fs ! i) = chunk_frame xs i (fs ! i)" if "i < n" for i
    using that assms(2,6)
    by (simp add: file_frame_def chunk_frame_def Let_def list_all_length wf_data_frame_def)
  then have gs: "map (\<lambda>i. file_frame xs i (fs ! i)) [0..<n] = map (\<lambda>i. chunk_frame xs i (fs ! i)) [0..<n]"
    by simp
  have "clear_from ?L (chunk_frame xs 0 (fs ! 0)) = chunk_frame xs 0 (fs ! 0)"
    using full [of 0] assms(3) by (simp add: clear_from_def chunk_frame_def Let_def)
  moreover define cs where "cs = map (\<lambda>i. chunk_frame xs i (fs ! i)) [0..<n]"
  moreover have "cs ! 0 = chunk_frame xs 0 (fs ! 0)" using assms(3) by (simp add: cs_def)
  ultimately have "cs[0 := clear_from ?L (cs ! 0)] = cs" by (metis list_update_id)
  moreover have "length (piece ?L (n - 1) xs) = ?L" using full [of "n - 1"] assms(3) by simp
  ultimately show ?thesis
    using fd_to_data_frames_ok [of n fs fails xs] assms gs by (simp add: Let_def cs_def)
qed

section \<open>Dequantisation\<close>

record gmm_t =
  prob1 :: i16
  prob2 :: i16
  prob3 :: i16
  mean1 :: i16
  mean2 :: i16
  mean3 :: i16
  std1 :: i16
  std2 :: i16
  std3 :: i16

definition gmm_of :: "i16 list \<Rightarrow> nat \<Rightarrow> gmm_t" where
  "gmm_of e i = \<lparr> prob1 = e ! (i + 6), prob2 = e ! (i + 7), prob3 = e ! (i + 8),
     mean1 = e ! i, mean2 = e ! (i + 1), mean3 = e ! (i + 2),
     std1 = e ! (i + 3), std2 = e ! (i + 4), std3 = e ! (i + 5) \<rparr>"

text \<open>
  \<open>for (i = 0; i < len; i += 9)\<close>, with \<open>i\<close> the index into both arrays. An element of the array
  that has not been written since it was allocated is \<open>None\<close>.
\<close>

definition entropy_to_gmm :: "i16 list \<Rightarrow> gmm_t option list \<Rightarrow> nat \<Rightarrow> gmm_t option list res" where
  "entropy_to_gmm entropy_addr gmm len =
     for_each (map (\<lambda>k. 9 * k) [0..<ceil_div len 9])
       (\<lambda>i gmm. if i + 8 < length entropy_addr then put_at gmm i (Some (gmm_of entropy_addr i))
          else Inl OutOfBounds) gmm"

lemma for_each_map: "for_each (map f xs) body s = for_each xs (\<lambda>x. body (f x)) s"
proof (induction xs arbitrary: s)
  case (Cons x xs)
  then show ?case by (cases "body (f x) s") simp_all
qed simp

lemma entropy_to_gmm_ok:
  assumes "len \<le> length gmm" and "len + 8 \<le> length entropy"
  shows "entropy_to_gmm entropy gmm len =
    Inr (map (\<lambda>i. if i < len \<and> 9 dvd i then Some (gmm_of entropy i) else gmm ! i) [0..<length gmm])"
proof -
  let ?m = "ceil_div len 9"
  let ?gs = "\<lambda>k. map (\<lambda>i. if i < 9 * k \<and> 9 dvd i then Some (gmm_of entropy i) else gmm ! i)
    [0..<length gmm]"
  let ?body = "\<lambda>k gmm. if 9 * k + 8 < length entropy then put_at gmm (9 * k) (Some (gmm_of entropy (9 * k)))
    else Inl OutOfBounds"
  have bounds: "len \<le> ?m * 9" "0 < len \<Longrightarrow> (?m - 1) * 9 < len"
    using ceil_div_bounds [of 9 len] by simp_all
  have "\<exists>s. for_each [0..<?m] ?body gmm = Inr s \<and> s = ?gs ?m"
  proof (rule for_each_invariant)
    fix k s assume k: "0 \<le> k" "k < ?m" and I: "s = ?gs k"
    have "9 * k \<le> (?m - 1) * 9" using k(2) by simp
    moreover have "0 < len" using k(2) by (cases len) simp_all
    ultimately have "9 * k < len" using bounds(2) by simp
    moreover have "(?gs k)[9 * k := Some (gmm_of entropy (9 * k))] = ?gs (Suc k)"
    proof (rule nth_equalityI)
      fix i assume "i < length ((?gs k)[9 * k := Some (gmm_of entropy (9 * k))])"
      moreover have "i < 9 * Suc k \<and> 9 dvd i \<longleftrightarrow> i < 9 * k \<and> 9 dvd i \<or> i = 9 * k"
        by (auto simp add: dvd_def)
      ultimately show "(?gs k)[9 * k := Some (gmm_of entropy (9 * k))] ! i = ?gs (Suc k) ! i"
        by (auto simp add: nth_list_update simp del: mult_Suc_right)
    qed simp
    ultimately show "\<exists>s'. ?body k s = Inr s' \<and> s' = ?gs (Suc k)"
      using I assms by (simp del: mult_Suc_right)
  qed (auto simp add: map_nth)
  moreover have "?gs ?m = map (\<lambda>i. if i < len \<and> 9 dvd i then Some (gmm_of entropy i) else gmm ! i)
      [0..<length gmm]"
  proof (intro map_cong refl)
    fix i
    have "i < 9 * ?m \<and> 9 dvd i \<longleftrightarrow> i < len \<and> 9 dvd i"
    proof -
      have "9 * q < len" if "9 * q < 9 * ?m" for q
      proof -
        have "q \<le> ?m - 1" "0 < ?m" using that by auto
        moreover have "0 < len" using \<open>0 < ?m\<close> by (cases len) simp_all
        ultimately show ?thesis using bounds(2) by linarith
      qed
      then show ?thesis using bounds(1) by (auto elim!: dvdE)
    qed
    then show "(if i < 9 * ?m \<and> 9 dvd i then Some (gmm_of entropy i) else gmm ! i) =
        (if i < len \<and> 9 dvd i then Some (gmm_of entropy i) else gmm ! i)" by simp
  qed
  ultimately show ?thesis by (simp add: entropy_to_gmm_def for_each_map)
qed

section \<open>Allocation and filling\<close>

definition framed :: "bytes \<Rightarrow> nat \<Rightarrow> u32 \<Rightarrow> u8 \<Rightarrow> u32 \<Rightarrow> data_frame_t list \<Rightarrow> data_frame_t list" where
  "framed xs n n_file flag tlen mem =
     map (\<lambda>i. chunk_frame xs i (init_data_frame (of_nat n) n_file flag tlen i (mem ! i))) [0..<n]"

lemma length_framed [simp]: "length (framed xs n n_file flag tlen mem) = n"
  by (simp add: framed_def)

lemma payload_framed:
  "length xs \<le> n * TP_FRAME_DATA_LEN_MAX \<Longrightarrow>
     concat (map payload (framed xs n n_file flag tlen mem)) = xs"
  using concat_pieces [of TP_FRAME_DATA_LEN_MAX xs n]
  by (simp add: framed_def o_def payload_chunk_frame TP_FRAME_DATA_LEN_MAX_def)

lemma sendable_framed: "list_all sendable (framed xs n n_file flag tlen mem)"
  by (simp add: framed_def list_all_iff sendable_def init_data_frame_def tp_header_def)
     (simp add: chunk_frame_def Let_def)

lemma fits_framed: "list_all fits (framed xs n n_file flag tlen mem)"
  by (auto simp add: framed_def list_all_iff fits_def chunk_frame_def Let_def
      TP_FRAME_DATA_LEN_MAX_def)

lemma alloc_buffer_ok:
  assumes "0 < length xs" and "n = ceil_div (length xs) TP_FRAME_DATA_LEN_MAX"
    and "n < 65536" and "length mem = n"
  shows "alloc_data_frames (Some mem) (of_nat n) n_file (Buffer (xs @ ys) (of_nat (length xs)))
    flag tlen = Inr (Some (framed xs n n_file flag tlen mem))"
proof -
  obtain m where m: "n = Suc m"
    using assms(1,2) by (cases n) (auto simp add: ceil_div_def)
  let ?fs = "map (\<lambda>i. init_data_frame (of_nat n) n_file flag tlen i (mem ! i)) [0..<n]"
  have "data_to_data_frames (xs @ ys) (of_nat (length xs)) ?fs =
      Inr (map (\<lambda>i. chunk_frame xs i (?fs ! i)) [0..<n])"
    using data_to_data_frames_ok [of xs m ?fs ys] assms(1,3,4) assms(2) [symmetric]
    by (simp add: m del: upt_Suc)
  then show ?thesis
    using init_data_frames_ok [of n mem n_file flag tlen] assms
    by (simp add: alloc_data_frames_def framed_def cong: map_cong)
qed

lemma alloc_file_full:
  assumes "0 < n" and "n < 65536" and "length mem = n" and "True \<notin> set fails"
    and "length xs = n * TP_FRAME_DATA_LEN_MAX" and "list_all wf_data_frame mem"
  shows "alloc_data_frames (Some mem) (of_nat n) n_file
    (Fd \<lparr> fl_rest = xs, fl_read_fails = fails \<rparr>) flag tlen =
    Inr (Some (framed xs n n_file flag tlen mem))"
proof -
  let ?fs = "map (\<lambda>i. init_data_frame (of_nat n) n_file flag tlen i (mem ! i)) [0..<n]"
  have "list_all wf_data_frame ?fs"
    using assms(3,6)
    by (simp add: list_all_length init_data_frame_def wf_data_frame_def tp_header_def)
  then have "fd_to_data_frames \<lparr> fl_rest = xs, fl_read_fails = fails \<rparr> ?fs (of_nat n) =
      Inr (map (\<lambda>i. chunk_frame xs i (?fs ! i)) [0..<n])"
    using fd_to_data_frames_full [of n ?fs fails xs] assms by simp
  then show ?thesis
    using init_data_frames_ok [of n mem n_file flag tlen] assms
    by (simp add: alloc_data_frames_def framed_def cong: map_cong)
qed

section \<open>Properties\<close>

text \<open>C8: cutting a buffer of up to 65535 full frames into data frames, whatever the
  allocated memory held, gives frames that can be sent, whose announced lengths add up to
  the length of the buffer, and from which \<open>data_frames_to_data\<close> rebuilds exactly the
  buffer; no access leaves a frame or the buffer.\<close>

theorem buffer_frames_round_trip:
  assumes "0 < length xs" and "length xs \<le> 65535 * TP_FRAME_DATA_LEN_MAX"
    and "n = ceil_div (length xs) TP_FRAME_DATA_LEN_MAX"
    and "length mem = n" and "length buf = length xs"
  shows "\<exists>fs. alloc_data_frames (Some mem) (of_nat n) n_file
        (Buffer (xs @ ys) (of_nat (length xs))) flag tlen = Inr (Some fs)
      \<and> list_all sendable fs
      \<and> data_frame_to_data_len fs (of_nat n) = Inr (length xs)
      \<and> data_frames_to_data fs (of_nat n) buf = Inr xs"
proof -
  have b: "length xs \<le> n * TP_FRAME_DATA_LEN_MAX" "(n - 1) * TP_FRAME_DATA_LEN_MAX < length xs"
    using assms(1,3) ceil_div_bounds [of TP_FRAME_DATA_LEN_MAX "length xs"]
    by (simp_all add: TP_FRAME_DATA_LEN_MAX_def)
  with assms(2) have n: "n < 65536" by (simp add: TP_FRAME_DATA_LEN_MAX_def)
  let ?fs = "framed xs n n_file flag tlen mem"
  have "payloads_len ?fs = length xs"
    using length_payloads [OF fits_framed] payload_framed [OF b(1)] by metis
  then show ?thesis
    using alloc_buffer_ok [OF assms(1,3) n assms(4)] payload_framed [OF b(1)] n assms(5)
      data_frame_to_data_len_ok [of n ?fs] data_frames_to_data_ok [of n ?fs buf] fits_framed
    by (auto simp add: sendable_framed)
qed

definition blank_data_frame :: data_frame_t where
  "blank_data_frame = \<lparr> df_header = replicate 4 0, df_n_total_frame = 0, df_flag = 0,
     df_n_file = 0, df_n_frame = 0, df_total_data_len = 0, df_data_len = 0,
     df_data = replicate TP_FRAME_DATA_LEN_MAX 0, df_check_sum = 0 \<rparr>"

lemma wf_blank_data_frame [simp]: "wf_data_frame blank_data_frame"
  by (simp add: blank_data_frame_def wf_data_frame_def)

lemma buffer_frames_round_trip_witness:
  "\<exists>fs. alloc_data_frames (Some [blank_data_frame]) (of_nat 1) 5
        (Buffer ([1, 2, 3] @ []) (of_nat (length [1 :: u8, 2, 3]))) TP_FLAG_DATA 3 = Inr (Some fs)
      \<and> list_all sendable fs
      \<and> data_frame_to_data_len fs (of_nat 1) = Inr (length [1 :: u8, 2, 3])
      \<and> data_frames_to_data fs (of_nat 1) [0, 0, 0] = Inr [1, 2, 3]"
  by (rule buffer_frames_round_trip)
     (simp_all add: ceil_div_def TP_FRAME_DATA_LEN_MAX_def)

text \<open>C31: a file of full frames is cut by \<open>fd_to_data_frames\<close> exactly as its contents in
  memory are cut by \<open>data_to_data_frames\<close>.\<close>

theorem file_frames_equal_buffer_frames:
  assumes "0 < n" and "n < 65536" and "length mem = n" and "list_all wf_data_frame mem"
    and "length xs = n * TP_FRAME_DATA_LEN_MAX" and "True \<notin> set fails"
  shows "alloc_data_frames (Some mem) (of_nat n) n_file
      (Fd \<lparr> fl_rest = xs, fl_read_fails = fails \<rparr>) flag tlen =
    alloc_data_frames (Some mem) (of_nat n) n_file (Buffer xs (of_nat (length xs))) flag tlen"
proof -
  have n: "n = ceil_div (length xs) TP_FRAME_DATA_LEN_MAX"
    using assms(1,5) by (cases n) (simp_all add: ceil_div_def TP_FRAME_DATA_LEN_MAX_def)
  have "0 < length xs" using assms(1,5) by (simp add: TP_FRAME_DATA_LEN_MAX_def)
  from alloc_buffer_ok [OF this n assms(2,3), of n_file "[]" flag tlen]
    alloc_file_full [OF assms(1,2,3,6,5,4), of n_file flag tlen]
  show ?thesis unfolding append_Nil2 by (rule trans [OF _ sym, rotated])
qed

lemma file_frames_equal_buffer_frames_witness:
  "alloc_data_frames (Some [blank_data_frame]) (of_nat 1) 0
      (Fd \<lparr> fl_rest = replicate 512 7, fl_read_fails = [] \<rparr>) 0x8E 512 =
    alloc_data_frames (Some [blank_data_frame]) (of_nat 1) 0
      (Buffer (replicate 512 7) (of_nat (length (replicate 512 (7 :: u8))))) 0x8E 512"
  by (rule file_frames_equal_buffer_frames) (simp_all add: TP_FRAME_DATA_LEN_MAX_def)

text \<open>On a file whose last frame is not full, the closing \<open>memset\<close> of
  \<open>fd_to_data_frames\<close> clears the end of the first frame instead: of the first 512 bytes of
  the file only as many survive as the last frame holds.\<close>

theorem partial_file_damages_first_frame:
  assumes "2 \<le> n" and "n < 65536" and "length fs = n" and "True \<notin> set fails"
    and "length xs = (n - 1) * TP_FRAME_DATA_LEN_MAX + k" and "0 < k" and "k < TP_FRAME_DATA_LEN_MAX"
  shows "\<exists>gs. fd_to_data_frames \<lparr> fl_rest = xs, fl_read_fails = fails \<rparr> fs (of_nat n) = Inr gs
    \<and> payload (gs ! 0) = take k xs @ replicate (TP_FRAME_DATA_LEN_MAX - k) 0
    \<and> payload (gs ! (n - 1)) = drop ((n - 1) * TP_FRAME_DATA_LEN_MAX) xs"
proof -
  let ?L = TP_FRAME_DATA_LEN_MAX
  let ?gs = "map (\<lambda>i. file_frame xs i (fs ! i)) [0..<n]"
  obtain m where "n = 2 + m" using le_Suc_ex [OF assms(1)] by blast
  then have m: "n = Suc (Suc m)" by simp
  have L: "?L < 65536" by (simp add: TP_FRAME_DATA_LEN_MAX_def)
  have len: "length (piece ?L (n - 1) xs) = k" "length (piece ?L 0 xs) = ?L"
    using assms m by simp_all
  have "fd_to_data_frames \<lparr> fl_rest = xs, fl_read_fails = fails \<rparr> fs (of_nat n) =
      Inr (?gs[0 := clear_from k (?gs ! 0)])"
    using fd_to_data_frames_ok [of n fs fails xs] assms len by (simp add: Let_def)
  moreover have "payload (clear_from k (?gs ! 0)) = take k xs @ replicate (?L - k) 0"
    using len(2) assms(1,7) L
    by (simp add: payload_def clear_from_def file_frame_def Let_def piece_def del: of_nat_numeral)
  moreover have "?gs[0 := clear_from k (?gs ! 0)] ! (n - 1) = file_frame xs (n - 1) (fs ! (n - 1))"
    using m by (simp del: upt_Suc)
  moreover have "payload (file_frame xs (n - 1) (fs ! (n - 1))) = drop ((n - 1) * ?L) xs"
    using len(1) assms(5,7) L by (simp add: payload_def file_frame_def Let_def piece_def)
  ultimately show ?thesis using assms(1) by (intro exI [of _ "?gs[0 := clear_from k (?gs ! 0)]"]) simp
qed

lemma partial_file_damages_first_frame_witness:
  "\<exists>gs. fd_to_data_frames \<lparr> fl_rest = replicate 513 7, fl_read_fails = [] \<rparr>
      [blank_data_frame, blank_data_frame] (of_nat 2) = Inr gs
    \<and> payload (gs ! 0) = take 1 (replicate 513 7) @ replicate (TP_FRAME_DATA_LEN_MAX - 1) 0
    \<and> payload (gs ! (2 - 1)) = drop ((2 - 1) * TP_FRAME_DATA_LEN_MAX) (replicate 513 7)"
  by (rule partial_file_damages_first_frame) (simp_all add: TP_FRAME_DATA_LEN_MAX_def)

text \<open>
  What the frames of a file hold altogether: the file, but for the end of its first frame when the
  last one is not full.
\<close>

definition loaded :: "bytes \<Rightarrow> bytes" where
  "loaded xs = (let n = ceil_div (length xs) TP_FRAME_DATA_LEN_MAX;
      k = length (piece TP_FRAME_DATA_LEN_MAX (n - 1) xs)
    in if n \<le> 1 then xs
       else take k xs @ replicate (TP_FRAME_DATA_LEN_MAX - k) 0 @ drop TP_FRAME_DATA_LEN_MAX xs)"

lemma loaded_full:
  assumes "length xs = n * TP_FRAME_DATA_LEN_MAX"
  shows "loaded xs = xs"
proof -
  have c: "ceil_div (length xs) TP_FRAME_DATA_LEN_MAX = n"
    using assms by (cases n) (simp_all add: ceil_div_def TP_FRAME_DATA_LEN_MAX_def div_add_self1)
  show ?thesis
  proof (cases "n \<le> 1")
    case False
    have "(n - 1) * TP_FRAME_DATA_LEN_MAX + TP_FRAME_DATA_LEN_MAX = n * TP_FRAME_DATA_LEN_MAX"
      using False by (cases n) simp_all
    then have "length (piece TP_FRAME_DATA_LEN_MAX (n - 1) xs) = TP_FRAME_DATA_LEN_MAX"
      unfolding length_piece assms by simp
    then show ?thesis using False by (simp add: loaded_def c)
  qed (simp add: loaded_def c)
qed

lemma payloads_bound:
  assumes "list_all wf_data_frame fs" and "list_all fits fs"
  shows "payloads_len fs \<le> length fs * TP_FRAME_DATA_LEN_MAX"
  using assms by (induction fs) (simp_all add: fits_def wf_data_frame_def)

lemma loaded_id:
  assumes "TP_FRAME_DATA_LEN_MAX dvd length xs \<or> length xs \<le> TP_FRAME_DATA_LEN_MAX"
  shows "loaded xs = xs"
proof (cases "TP_FRAME_DATA_LEN_MAX dvd length xs")
  case True
  then show ?thesis by (metis dvd_div_mult_self loaded_full)
next
  case False
  then have "length xs < TP_FRAME_DATA_LEN_MAX" using assms by (metis dvd_refl le_neq_implies_less)
  then show ?thesis by (simp add: loaded_def Let_def ceil_div_def TP_FRAME_DATA_LEN_MAX_def)
qed

lemma loaded_nonempty:
  assumes "xs \<noteq> []"
  shows "loaded xs \<noteq> []"
proof (cases "length xs \<le> TP_FRAME_DATA_LEN_MAX")
  case False
  then have "drop TP_FRAME_DATA_LEN_MAX xs \<noteq> []" by simp
  then show ?thesis using assms by (simp add: loaded_def Let_def)
qed (use assms in \<open>simp add: loaded_id\<close>)

lemma payload_file_frame: "payload (file_frame xs i f) = piece TP_FRAME_DATA_LEN_MAX i xs"
  by (simp add: payload_def file_frame_def Let_def TP_FRAME_DATA_LEN_MAX_def)

lemma file_frames_loaded:
  assumes "0 < length xs" and "n = ceil_div (length xs) TP_FRAME_DATA_LEN_MAX" and "length fs = n"
    and "list_all wf_data_frame fs" and "list_all (\<lambda>f. df_header f = tp_header) fs"
  defines "gs \<equiv> map (\<lambda>i. file_frame xs i (fs ! i)) [0..<n]"
  defines "hs \<equiv> gs[0 := clear_from (length (piece TP_FRAME_DATA_LEN_MAX (n - 1) xs)) (gs ! 0)]"
  shows "list_all sendable hs" and "list_all fits hs" and "concat (map payload hs) = loaded xs"
proof -
  let ?L = TP_FRAME_DATA_LEN_MAX
  let ?k = "length (piece ?L (n - 1) xs)"
  have bounds: "length xs \<le> n * ?L" "(n - 1) * ?L < length xs"
    using assms(1,2) ceil_div_bounds [of ?L "length xs"] by (simp_all add: TP_FRAME_DATA_LEN_MAX_def)
  then obtain m where m: "n = Suc m" using assms(1) by (cases n) auto
  have gs: "gs = file_frame xs 0 (fs ! 0) # map (\<lambda>i. file_frame xs i (fs ! i)) [1..<n]"
    unfolding gs_def m by (simp add: upt_conv_Cons del: upt_Suc)
  then have hs: "hs = clear_from ?k (file_frame xs 0 (fs ! 0)) # map (\<lambda>i. file_frame xs i (fs ! i)) [1..<n]"
    by (simp add: hs_def)
  have k: "?k \<le> ?L" by simp
  have wf: "wf_data_frame (fs ! i)" "df_header (fs ! i) = tp_header" if "i < n" for i
    using assms(3-5) that by (simp_all add: list_all_length)
  have frame: "sendable (file_frame xs i (fs ! i))" "fits (file_frame xs i (fs ! i))" if "i < n" for i
    using wf [OF that]
    by (simp_all add: sendable_def fits_def wf_data_frame_def file_frame_def Let_def TP_FRAME_DATA_LEN_MAX_def)
  have "sendable (clear_from ?k (file_frame xs 0 (fs ! 0)))" "fits (clear_from ?k (file_frame xs 0 (fs ! 0)))"
    using frame [of 0] m k by (simp_all add: sendable_def fits_def wf_data_frame_def clear_from_def min_absorb2 tp_header_def)
  then show "list_all sendable hs" "list_all fits hs"
    using frame by (simp_all add: hs list_all_iff)
  have all: "piece ?L 0 xs @ concat (map (\<lambda>i. piece ?L i xs) [1..<n]) = xs"
    using concat_pieces [of ?L xs n] bounds(1) unfolding m
    by (simp add: upt_conv_Cons TP_FRAME_DATA_LEN_MAX_def del: upt_Suc)
  have rest: "concat (map payload hs) = payload (clear_from ?k (file_frame xs 0 (fs ! 0))) @
      concat (map (\<lambda>i. piece ?L i xs) [1..<n])"
    by (simp add: hs comp_def payload_file_frame)
  show "concat (map payload hs) = loaded xs"
  proof (cases "n = 1")
    case True
    then have "payload (clear_from ?k (file_frame xs 0 (fs ! 0))) = piece ?L 0 xs"
      by (simp add: payload_def clear_from_def file_frame_def Let_def TP_FRAME_DATA_LEN_MAX_def)
    then show ?thesis using rest all True assms(2) by (simp add: loaded_def)
  next
    case False
    then have "?L \<le> length xs" using bounds(2) m by (cases m) simp_all
    then have z: "length (piece ?L 0 xs) = ?L" "piece ?L 0 xs = take ?L xs" by (simp_all add: piece_def)
    then have "payload (clear_from ?k (file_frame xs 0 (fs ! 0))) = take ?k xs @ replicate (?L - ?k) 0"
      using k unfolding payload_def clear_from_def file_frame_def Let_def
      by (simp add: TP_FRAME_DATA_LEN_MAX_def)
    moreover have "concat (map (\<lambda>i. piece ?L i xs) [1..<n]) = drop ?L xs"
      using all z by (metis append_eq_conv_conj)
    ultimately show ?thesis using rest False m assms(2) by (simp add: loaded_def Let_def)
  qed
qed

text \<open>
  A file that can be opened and read, at least a byte and no more than the largest number of frames, for
  whose frames there is memory; and one that the programs skip.
\<close>

definition readable_file :: "file_env \<Rightarrow> data_frame_t list option \<Rightarrow> bytes \<Rightarrow> bool" where
  "readable_file env mem xs \<longleftrightarrow> xs \<noteq> [] \<and> length xs \<le> 65535 * TP_FRAME_DATA_LEN_MAX \<and> fe_fstat_ok env \<and>
     (\<exists>fails. fe_open env = Some \<lparr> fl_rest = xs, fl_read_fails = fails \<rparr> \<and> True \<notin> set fails) \<and>
     (\<exists>fs. mem = Some fs \<and> length fs = ceil_div (length xs) TP_FRAME_DATA_LEN_MAX \<and> list_all wf_data_frame fs)"

definition unopened :: "file_env \<Rightarrow> bool" where
  "unopened f \<longleftrightarrow> fe_open f = None \<or> \<not> fe_fstat_ok f"

lemma get_data_frames_unopened: "unopened f \<Longrightarrow> get_data_frames f bytes frames out binary = Inr (1, out)"
  by (auto simp add: unopened_def get_data_frames_def split: option.splits prod.splits)

lemma get_data_frames_loads:
  assumes "readable_file env frames xs"
  shows "\<exists>fs. get_data_frames env bytes frames (n_file, junk) False =
        Inr (if fe_close_ok env then 0 else 2, n_file, of_nat (length fs), Some fs)
    \<and> length fs = ceil_div (length xs) TP_FRAME_DATA_LEN_MAX \<and> length fs < 65536
    \<and> list_all sendable fs \<and> list_all fits fs \<and> concat (map payload fs) = loaded xs"
proof -
  from assms obtain fails mem where o: "fe_open env = Some \<lparr> fl_rest = xs, fl_read_fails = fails \<rparr>"
      "True \<notin> set fails" "frames = Some mem" "length mem = ceil_div (length xs) TP_FRAME_DATA_LEN_MAX"
      "list_all wf_data_frame mem" "fe_fstat_ok env" "xs \<noteq> []" "length xs \<le> 65535 * TP_FRAME_DATA_LEN_MAX"
    by (auto simp add: readable_file_def)
  let ?n = "ceil_div (length xs) TP_FRAME_DATA_LEN_MAX"
  have bounds: "length xs \<le> ?n * TP_FRAME_DATA_LEN_MAX" "(?n - 1) * TP_FRAME_DATA_LEN_MAX < length xs"
    using o(7) ceil_div_bounds [of TP_FRAME_DATA_LEN_MAX "length xs"] by (simp_all add: TP_FRAME_DATA_LEN_MAX_def)
  then have n: "0 < ?n" "?n < 65536"
    using o(7,8) by (auto simp add: TP_FRAME_DATA_LEN_MAX_def intro: Nat.gr0I)
  let ?fs = "map (\<lambda>i. init_data_frame (of_nat ?n) n_file TP_FLAG_1_YUV420 (of_nat (length xs)) i (mem ! i)) [0..<?n]"
  define hs where "hs = (let gs = map (\<lambda>i. file_frame xs i (?fs ! i)) [0..<?n]
    in gs[0 := clear_from (length (piece TP_FRAME_DATA_LEN_MAX (?n - 1) xs)) (gs ! 0)])"
  have "list_all wf_data_frame ?fs" "list_all (\<lambda>f. df_header f = tp_header) ?fs"
    using o(4,5) by (simp_all add: list_all_length init_data_frame_def wf_data_frame_def tp_header_def)
  then have hs: "list_all sendable hs" "list_all fits hs" "concat (map payload hs) = loaded xs"
    using file_frames_loaded [of xs ?n ?fs] o(7) by (simp_all add: hs_def Let_def)
  have "fd_to_data_frames \<lparr> fl_rest = xs, fl_read_fails = fails \<rparr> ?fs (of_nat ?n) = Inr hs"
    using fd_to_data_frames_ok [of ?n ?fs fails xs] n o(2) by (simp add: hs_def Let_def)
  then have "alloc_data_frames (Some mem) (of_nat ?n) n_file (Fd \<lparr> fl_rest = xs, fl_read_fails = fails \<rparr>)
      TP_FLAG_1_YUV420 (of_nat (length xs)) = Inr (Some hs)"
    using init_data_frames_ok [of ?n mem n_file TP_FLAG_1_YUV420 "of_nat (length xs)"] n(2) o(4)
    by (simp add: alloc_data_frames_def)
  moreover have "length hs = ?n" by (simp add: hs_def Let_def)
  ultimately show ?thesis
    using hs n(2) o(1,3,6) by (cases junk) (auto simp add: get_data_frames_def Let_def)
qed

section \<open>Files of frames\<close>

lemma read_binary_frames_ok:
  assumes "length xs = n * sizeof_data_frame_t" and "length buf = length xs"
    and "True \<notin> set fails"
  shows "read_binary_frames \<lparr> fl_rest = xs, fl_read_fails = fails \<rparr> n buf = Inr xs"
proof -
  let ?L = sizeof_data_frame_t
  let ?body = "\<lambda>_ (p :: int, fl, buf). case read_file ?L fl of
      (None, fl) \<Rightarrow> Inr (p - 1, fl, buf)
    | (Some bs, fl) \<Rightarrow> if p < 0 then Inl OutOfBounds
        else and_then (blit buf (nat p) bs) (\<lambda>buf. Inr (p + int (length bs), fl, buf))"
  let ?I = "\<lambda>i s. s = (int (i * ?L), \<lparr> fl_rest = drop (i * ?L) xs, fl_read_fails = drop i fails \<rparr>,
    take (i * ?L) xs @ drop (i * ?L) buf)"
  have "\<exists>s. for_each [0..<n] ?body (0, \<lparr> fl_rest = xs, fl_read_fails = fails \<rparr>, buf) = Inr s
      \<and> ?I n s"
  proof (rule for_each_invariant [where I = ?I])
    fix i s assume i: "0 \<le> i" "i < n" and I: "?I i s"
    have le: "Suc i * ?L \<le> length xs"
      unfolding assms(1) using i by (intro mult_le_mono1) simp
    have "True \<notin> set (drop i fails)" using assms(3) by (meson in_set_dropD)
    moreover have "tl (drop i fails) = drop (Suc i) fails" by (simp add: drop_Suc drop_tl)
    moreover have "take (i * ?L) xs @ take ?L (drop (i * ?L) xs) = take (Suc i * ?L) xs"
      by (simp only: mult_Suc add.commute [of ?L] take_add)
    moreover have "blit (take (i * ?L) xs @ drop (i * ?L) buf) (i * ?L) (take ?L (drop (i * ?L) xs)) =
        Inr (take (i * ?L) xs @ take ?L (drop (i * ?L) xs) @ drop (i * ?L + ?L) buf)"
      using blit_end [of "i * ?L" "take (i * ?L) xs" "take ?L (drop (i * ?L) xs)" buf] le assms(2)
      by simp
    ultimately show "\<exists>s'. ?body i s = Inr s' \<and> ?I (Suc i) s'"
      using I le by (simp add: read_file_ok add.commute del: of_nat_mult flip: append_assoc)
  qed simp_all
  then show ?thesis using assms(1,2) by (auto simp add: read_binary_frames_def)
qed

text \<open>In the binary mode a file of frame images is loaded as it is: the frames are those
  of the file, still in line order, and the file number is the one the first of them carries.\<close>

theorem binary_file_loaded:
  assumes "0 < length gs" and "length gs < 65536" and "list_all wf_data_frame gs"
    and "fl_rest fl = concat (map data_frame_bytes gs)" and "True \<notin> set (fl_read_fails fl)"
    and "length buf = length (fl_rest fl)"
  shows "get_data_frames \<lparr> fe_open = Some fl, fe_fstat_ok = True, fe_close_ok = True \<rparr>
      (Some buf) mem_frames (n_file, n_frame, old) True =
    Inr (0, be32toh (df_n_file (hd gs)), of_nat (length gs), Some gs)"
proof -
  let ?L = sizeof_data_frame_t and ?xs = "concat (map data_frame_bytes gs)"
  have sizes: "\<forall>x \<in> set (map data_frame_bytes gs). length x = ?L"
    using assms(3) by (auto simp add: list_all_iff length_data_frame_bytes)
  have len: "length ?xs = length gs * ?L" using length_concat_const [OF sizes] by simp
  have fl: "fl = \<lparr> fl_rest = ?xs, fl_read_fails = fl_read_fails fl \<rparr>"
    using assms(4) by (cases fl) simp
  have read: "read_binary_frames fl (length gs) buf = Inr ?xs"
    by (subst fl) (use read_binary_frames_ok [OF len _ assms(5)] assms(4,6) in simp)
  have "bytes_data_frame (piece ?L i ?xs) = gs ! i" if "i < length gs" for i
    using piece_concat [OF sizes, of i "[]"] bytes_data_frame_data_frame_bytes [of "gs ! i" "[]"]
      that assms(3) by (simp add: list_all_length)
  then have frames: "frames_of_bytes ?xs (length gs) = gs"
    by (intro nth_equalityI) (simp_all add: frames_of_bytes_def)
  have n: "length ?xs div ?L = length gs" by (simp add: len sizeof_data_frame_t_def)
  have "1 * ?L \<le> length gs * ?L" by (intro mult_le_mono1) (use assms(1) in linarith)
  then have "12 \<le> length ?xs" by (simp only: len) (simp add: sizeof_data_frame_t_def)
  moreover have "(of_nat (length gs) :: u16) \<noteq> 0" using assms(1,2) by (simp add: of_nat_eq_0_u16)
  ultimately show ?thesis
    using assms(2,4) read frames n by (simp add: get_data_frames_def Let_def)
qed

lemma binary_file_loaded_witness:
  "get_data_frames \<lparr> fe_open = Some \<lparr> fl_rest = concat (map data_frame_bytes [blank_data_frame]),
        fl_read_fails = [] \<rparr>, fe_fstat_ok = True, fe_close_ok = True \<rparr>
      (Some (data_frame_bytes blank_data_frame)) None (0, 0, None) True =
    Inr (0, be32toh (df_n_file (hd [blank_data_frame])), of_nat (length [blank_data_frame]),
      Some [blank_data_frame])"
  by (rule binary_file_loaded) simp_all

text \<open>\<open>entropy_to_gmm\<close> stays inside both arrays, but it steps its index by nine in the
  output as well: it fills entries 0, 9, 18, ... below \<open>len\<close>, each from the nine values at
  the same index, and leaves the eight entries between them unwritten.\<close>

theorem entropy_to_gmm_fills_every_ninth:
  assumes "length gmm = len" and "9 * len \<le> length entropy"
  shows "entropy_to_gmm entropy gmm len =
    Inr (map (\<lambda>i. if i mod 9 = 0 then Some (gmm_of entropy i) else gmm ! i) [0..<len])"
proof (cases len)
  case 0
  then show ?thesis using assms by (simp add: entropy_to_gmm_def)
next
  case (Suc m)
  then show ?thesis
    using entropy_to_gmm_ok [of len gmm entropy] assms
    by (simp add: dvd_eq_mod_eq_0 cong: map_cong del: upt_Suc)
qed

lemma entropy_to_gmm_fills_every_ninth_witness:
  "entropy_to_gmm (map of_nat [0..<18]) (replicate 2 None) 2 =
    Inr (map (\<lambda>i. if i mod 9 = 0 then Some (gmm_of (map of_nat [0..<18]) i)
      else replicate 2 None ! i) [0..<2])"
  by (rule entropy_to_gmm_fills_every_ninth) simp_all

end
