(* ===== verification/Ioctl.thy ===== *)
theory Ioctl
  imports Framing
begin

text \<open>
  \<^verbatim>\<open>axitangxi_ioctl.h\<close>, the interface between the user library and the kernel module: the
  argument structs of the \<open>ioctl\<close> requests and their constants. The header is in the tree
  twice, once for each side, with the same contents. \<open>size_t\<close> is 64 bits wide.
\<close>

definition BURST_SIZE :: u64 where [const_defs]: "BURST_SIZE = 65536"

definition AXI_TANGXI_TIMEOUT :: nat where [const_defs]: "AXI_TANGXI_TIMEOUT = 1800000"

text \<open>What the kernel works with: physical addresses.\<close>

record axitangxi_transfer =
  at_tx_data_size :: u64
  at_rx_data_size :: u64
  at_burst_size :: u64
  at_burst_count :: u64
  at_burst_data :: u64
  at_tx_data_ps_ptr :: u32
  at_rx_data_ps_ptr :: u32
  at_tx_data_pl_ptr :: u32
  at_rx_data_pl_ptr :: u32
  at_node :: u8

text \<open>What user space passes: virtual addresses on the PS side.\<close>

record axitangxi_transaction =
  tr_tx_data_size :: u64
  tr_rx_data_size :: u64
  tr_burst_size :: u64
  tr_burst_count :: u64
  tr_burst_data :: u64
  tr_tx_data_ps_ptr :: u64
  tr_rx_data_ps_ptr :: u64
  tr_tx_data_pl_ptr :: u32
  tr_rx_data_pl_ptr :: u32
  tr_node :: u8

record network_acc_reg =
  na_control :: u32
  na_weight_addr :: u32
  na_weight_size :: u32
  na_quantify_addr :: u32
  na_quantify_size :: u32
  na_picture_addr :: u32
  na_picture_size :: u32
  na_trans_addr :: u32
  na_trans_size :: u32
  na_entropy_addr :: u32
  na_entropy_size :: u32

text \<open>The requests the library issues, with the argument they carry.\<close>

datatype pl_request =
    PSDDR_TO_PLDDR axitangxi_transaction
  | PLDDR_TO_PSDDR axitangxi_transaction
  | NETWORK_ACC_CONFIG network_acc_reg
  | NETWORK_ACC_START
  | NETWORK_ACC_GET

end
