(* ===== verification/Dma.thy ===== *)
theory Dma
  imports Ioctl
begin

text \<open>
  \<^verbatim>\<open>axi_tangxi.c\<close> of the kernel module: the register writes that start one DMA burst, the
  four loops that cut a transfer into bursts, and the registers of the network
  accelerator. The hardware sees a list of events, register writes and waits for a
  completion. A loop that never ends is \<open>None\<close>.
\<close>

section \<open>Events\<close>

datatype hw_reg =
    DMA_MM2S_PS_ADDR | DMA_MM2S_PS_SIZE | NOC_DATA_PKG_ADDR | NOC_DATA_PKG_CTL
  | DMA_S2MM_PS_ADDR | DMA_S2MM_PS_SIZE | RESULT_READ_ADDR | RESULT_READ_CTL
  | DMA_MM2S_PL_ADDR | DMA_MM2S_PL_SIZE | DMA_S2MM_PL_ADDR | DMA_S2MM_PL_SIZE
  | NOC_CTL_PKG_CTL | CSRAM_WRITE_CTL | TX_RISCV_RESET_CTL | PL_IRQ_TASK_NUM
  | ENGINE_CR | ENGINE_WA | ENGINE_WS | ENGINE_QA | ENGINE_QS | ENGINE_PA | ENGINE_PS
  | ENGINE_TA | ENGINE_TS | ENGINE_EA | ENGINE_ES

text \<open>
  \<open>writel\<close>, and \<open>wait_for_completion_timeout\<close> on a completion initialised for it. The result
  of the wait in the loops is only printed, so a transfer goes on after a timeout.
\<close>

datatype hw_event = Writel u32 hw_reg | Wait_completion

definition mm2s_ps_data_tangxi :: "u32 \<Rightarrow> u32 \<Rightarrow> u32 \<Rightarrow> u32 \<Rightarrow> u8 \<Rightarrow> hw_event list" where
  "mm2s_ps_data_tangxi tx_data_ps_addr rx_data_pl_addr burst_size chip_position node =
     (let noc_data_size_addr =
            push_bit 28 chip_position OR push_bit 20 (ucast node) OR rx_data_pl_addr;
          noc_data_node_type_cmd = push_bit 10 (burst_size - 1) OR 0b0000000010
      in [Writel tx_data_ps_addr DMA_MM2S_PS_ADDR, Writel (burst_size - 1) DMA_MM2S_PS_SIZE,
          Writel noc_data_size_addr NOC_DATA_PKG_ADDR,
          Writel noc_data_node_type_cmd NOC_DATA_PKG_CTL])"

definition s2mm_ps_data_tangxi :: "u32 \<Rightarrow> u32 \<Rightarrow> hw_event list" where
  "s2mm_ps_data_tangxi rx_data_ps_addr burst_size =
     (let noc_data_size_addr = push_bit 20 (burst_size - 1) OR 0x00100
      in [Writel noc_data_size_addr RESULT_READ_ADDR, Writel (burst_size - 1) RESULT_READ_CTL,
          Writel rx_data_ps_addr DMA_S2MM_PS_ADDR, Writel (burst_size - 1) DMA_S2MM_PS_SIZE])"

definition mm2s_ps_data_s2mm_pl :: "u32 \<Rightarrow> u32 \<Rightarrow> u32 \<Rightarrow> hw_event list" where
  "mm2s_ps_data_s2mm_pl tx_data_ps_addr rx_data_pl_addr burst_size =
     [Writel tx_data_ps_addr DMA_MM2S_PS_ADDR, Writel (burst_size - 1) DMA_MM2S_PS_SIZE,
      Writel rx_data_pl_addr DMA_S2MM_PL_ADDR, Writel (burst_size - 1) DMA_S2MM_PL_SIZE]"

definition s2mm_ps_data_mm2s_pl :: "u32 \<Rightarrow> u32 \<Rightarrow> u32 \<Rightarrow> hw_event list" where
  "s2mm_ps_data_mm2s_pl rx_data_ps_addr tx_data_pl_addr burst_size =
     [Writel tx_data_pl_addr DMA_MM2S_PL_ADDR, Writel (burst_size - 1) DMA_MM2S_PL_SIZE,
      Writel rx_data_ps_addr DMA_S2MM_PS_ADDR, Writel (burst_size - 1) DMA_S2MM_PS_SIZE]"

section \<open>The burst loop\<close>

definition ADDR_ALIGN_BASE_16 :: u32 where [const_defs]: "ADDR_ALIGN_BASE_16 = 0x0010"
definition ADDR_ALIGN_BASE_16_MASK :: u32 where
  [const_defs]: "ADDR_ALIGN_BASE_16_MASK = ADDR_ALIGN_BASE_16 - 1"

text \<open>
  The block guarded by \<open>data_remaining < burst_data\<close>: what is left becomes one burst, rounded
  up to 16 bytes. The triple is \<open>data_remaining\<close>, \<open>burst_size\<close> and \<open>burst_data\<close>.
\<close>

definition last_burst :: "u32 \<Rightarrow> u32 \<Rightarrow> u32 \<Rightarrow> u32 \<times> u32 \<times> u32" where
  "last_burst data_remaining burst_size burst_data =
     (if data_remaining < burst_data then
        let data_remaining =
              (if data_remaining AND ADDR_ALIGN_BASE_16_MASK \<noteq> 0
               then data_remaining +
                 (ADDR_ALIGN_BASE_16 - (data_remaining AND ADDR_ALIGN_BASE_16_MASK))
               else data_remaining)
        in (data_remaining, drop_bit 4 data_remaining, data_remaining)
      else (data_remaining, burst_size, burst_data))"

text \<open>
  All four loops are this one: \<open>issue\<close> is the burst they start (and the wait, where there is
  one) on the PS and the PL address, \<open>pl_moves\<close> tells whether the PL address advances too.
\<close>

partial_function (option) burst_loop :: "(u32 \<Rightarrow> u32 \<Rightarrow> u32 \<Rightarrow> hw_event list) \<Rightarrow> bool \<Rightarrow>
    u32 \<Rightarrow> u32 \<Rightarrow> u32 \<Rightarrow> u32 \<Rightarrow> u32 \<Rightarrow> hw_event list option" where
  "burst_loop issue pl_moves data_remaining burst_size burst_data ps_next pl_next =
     (if data_remaining = 0 then Some []
      else case last_burst data_remaining burst_size burst_data of
          (data_remaining, burst_size, burst_data) \<Rightarrow>
            Option.bind (burst_loop issue pl_moves (data_remaining - burst_data) burst_size burst_data
                (ps_next + burst_data)
                (if pl_moves then pl_next + burst_data else pl_next))
              (\<lambda>es. Some (issue ps_next pl_next burst_size @ es)))"

declare burst_loop.simps [code]

text \<open>The sizes of the transfer are \<open>size_t\<close>, the variables of the loops \<open>uint32_t\<close>.\<close>

definition axitangxi_psddr_plddr :: "axitangxi_transfer \<Rightarrow> hw_event list option" where
  "axitangxi_psddr_plddr t =
     burst_loop (\<lambda>ps pl n. mm2s_ps_data_s2mm_pl ps pl n @ [Wait_completion]) True
       (ucast (at_tx_data_size t)) (ucast (at_burst_size t)) (ucast (at_burst_data t))
       (at_tx_data_ps_ptr t) (at_rx_data_pl_ptr t)"

definition axitangxi_plddr_psddr :: "axitangxi_transfer \<Rightarrow> hw_event list option" where
  "axitangxi_plddr_psddr t =
     burst_loop (\<lambda>ps pl n. s2mm_ps_data_mm2s_pl ps pl n @ [Wait_completion]) True
       (ucast (at_rx_data_size t)) (ucast (at_burst_size t)) (ucast (at_burst_data t))
       (at_rx_data_ps_ptr t) (at_tx_data_pl_ptr t)"

definition batch_mm2s_ps_data_tangxi :: "axitangxi_transfer \<Rightarrow> hw_event list option" where
  "batch_mm2s_ps_data_tangxi t =
     burst_loop (\<lambda>ps pl n. mm2s_ps_data_tangxi ps pl n 0 3) False
       (ucast (at_tx_data_size t)) (ucast (at_burst_size t)) (ucast (at_burst_data t))
       (at_tx_data_ps_ptr t) (at_rx_data_pl_ptr t)"

definition batch_s2mm_ps_data_mm2s_pl :: "axitangxi_transfer \<Rightarrow> hw_event list option" where
  "batch_s2mm_ps_data_mm2s_pl t =
     burst_loop s2mm_ps_data_mm2s_pl False
       (ucast (at_rx_data_size t)) (ucast (at_burst_size t)) (ucast (at_burst_data t))
       (at_rx_data_ps_ptr t) (at_rx_data_pl_ptr t)"

definition axi_tangxi_loopback :: "axitangxi_transfer \<Rightarrow> hw_event list option" where
  "axi_tangxi_loopback t = Option.bind (batch_mm2s_ps_data_tangxi t)
     (\<lambda>es. map_option (\<lambda>fs. es @ fs) (batch_s2mm_ps_data_mm2s_pl t))"

section \<open>The accelerator's registers\<close>

definition network_acc_config_dev ::
    "u32 \<Rightarrow> u32 \<Rightarrow> u32 \<Rightarrow> u32 \<Rightarrow> u32 \<Rightarrow> u32 \<Rightarrow> hw_event list" where
  "network_acc_config_dev weight_addr weight_size quantify_addr quantify_size picture_addr
      picture_size =
     [Writel weight_addr ENGINE_WA, Writel weight_size ENGINE_WS,
      Writel quantify_addr ENGINE_QA, Writel quantify_size ENGINE_QS,
      Writel picture_addr ENGINE_PA, Writel picture_size ENGINE_PS]"

definition acc_config :: "network_acc_reg \<Rightarrow> hw_event list" where
  "acc_config args = network_acc_config_dev (na_weight_addr args) (na_weight_size args)
     (na_quantify_addr args) (na_quantify_size args) (na_picture_addr args) (na_picture_size args)"

definition acc_start :: "hw_event list" where
  "acc_start = [Writel 1 ENGINE_CR]"

section \<open>The plan of a transfer\<close>

text \<open>The byte lengths of the bursts of \<open>n\<close> bytes, \<open>B\<close> a burst; the last is rounded up.\<close>

definition align16 :: "nat \<Rightarrow> nat" where
  "align16 n = (n + 15) div 16 * 16"

function plan :: "nat \<Rightarrow> nat \<Rightarrow> nat list" where
  "plan n B = (if n = 0 then [] else if n < B \<or> B = 0 then [align16 n] else B # plan (n - B) B)"
  by auto
termination by (relation "measure fst") auto

declare plan.simps [simp del]

lemma align16_mult [simp]: "16 dvd n \<Longrightarrow> align16 n = n"
  by (auto simp add: align16_def elim!: dvdE)

lemma align16_bounds: "n \<le> align16 n" "align16 n < n + 16" "16 dvd align16 n"
proof -
  show "n \<le> align16 n" "align16 n < n + 16"
    using div_mult_mod_eq [of "n + 15" 16] mod_less_divisor [of 16 "n + 15"]
    by (simp_all add: align16_def del: div_mult_mod_eq)
qed (simp add: align16_def)

lemma align16_split:
  assumes "0 < r" and "r < 16"
  shows "align16 (16 * q + r) = 16 * q + 16"
proof -
  have "(16 * q + r + 15) div 16 = Suc q"
    using assms by (intro div_nat_eqI) simp_all
  then show ?thesis unfolding align16_def by simp
qed

lemma align16_le: "16 dvd B \<Longrightarrow> n \<le> B \<Longrightarrow> align16 n \<le> B"
  by (auto simp add: align16_def elim!: dvdE)

lemma align16_add:
  assumes "16 dvd B"
  shows "align16 (B + n) = B + align16 n"
proof -
  from assms obtain k where "B = 16 * k" by (elim dvdE)
  moreover have "(16 * k + (n + 15)) div 16 = k + (n + 15) div 16" by (rule div_mult_self4) simp
  ultimately show ?thesis by (simp add: align16_def add.assoc)
qed

lemma plan_properties:
  assumes "0 < B" and "16 dvd B"
  shows "length (plan n B) = ceil_div n B \<and> sum_list (plan n B) = align16 n
    \<and> list_all (\<lambda>b. 0 < b \<and> b \<le> B \<and> 16 dvd b) (plan n B)"
  using assms
proof (induction n B rule: plan.induct)
  case (1 n B)
  then have B: "0 < B" "16 dvd B" by auto
  show ?case
  proof (cases "n = 0 \<or> n < B \<or> B = 0")
    case True
    then have "plan n B = (if n = 0 then [] else [align16 n])" using B by (auto simp add: plan.simps)
    then show ?thesis
      using True B align16_bounds [of n] align16_le [of B n] by (auto simp add: ceil_div_small)
  next
    case False
    then have p: "plan n B = B # plan (n - B) B" by (simp add: plan.simps)
    have "ceil_div n B = Suc (ceil_div (n - B) B)"
      using False ceil_div_step [of B n] by (cases "n = B") (auto simp add: ceil_div_small)
    moreover have "align16 n = B + align16 (n - B)"
      using False "1.prems" align16_add [of B "n - B"] by simp
    moreover note "1.IH" [OF _ _ "1.prems"]
    ultimately show ?thesis using False "1.prems" p by simp
  qed
qed

text \<open>The events of a plan: every burst begins where the one before it ended.\<close>

definition burst_events :: "(u32 \<Rightarrow> u32 \<Rightarrow> u32 \<Rightarrow> hw_event list) \<Rightarrow> bool \<Rightarrow> u32 \<Rightarrow> u32 \<Rightarrow> nat list
    \<Rightarrow> hw_event list" where
  "burst_events issue pl_moves ps pl bs =
     concat (map (\<lambda>k. let done = of_nat (sum_list (take k bs)) in
       issue (ps + done) (if pl_moves then pl + done else pl) (of_nat (bs ! k div 16)))
       [0..<length bs])"

lemma burst_events_Nil [simp]: "burst_events issue pl_moves ps pl [] = []"
  by (simp add: burst_events_def)

lemma burst_events_Cons:
  "burst_events issue pl_moves ps pl (b # bs) = issue ps pl (of_nat (b div 16))
     @ burst_events issue pl_moves (ps + of_nat b) (if pl_moves then pl + of_nat b else pl) bs"
proof -
  have "[0..<length (b # bs)] = 0 # map Suc [0..<length bs]"
    by (simp add: upt_conv_Cons map_Suc_upt del: upt_Suc)
  then show ?thesis
    unfolding burst_events_def by (simp add: o_def Let_def add.assoc del: upt_Suc cong: if_cong)
qed

lemma and_align_mask: "(of_nat n :: u32) AND ADDR_ALIGN_BASE_16_MASK = of_nat (n mod 16)"
proof -
  have "ADDR_ALIGN_BASE_16_MASK = mask 4"
    by (simp add: const_defs mask_numeral)
  then have "(of_nat n :: u32) AND ADDR_ALIGN_BASE_16_MASK = take_bit 4 (of_nat n)"
    by (simp add: take_bit_eq_mask)
  also have "\<dots> = of_nat (take_bit 4 n)" by (simp add: take_bit_of_nat)
  finally show ?thesis by (simp add: take_bit_eq_mod)
qed

lemma drop_bit_of_nat_u32: "n < 2 ^ 32 \<Longrightarrow> drop_bit 4 (of_nat n :: u32) = of_nat (n div 16)"
  using of_nat_div_word [of n 16, where 'a = 32] by (simp add: drop_bit_eq_div)

lemma last_burst_short:
  assumes "n < B" and "16 dvd B" and "B < 2 ^ 32"
  shows "last_burst (of_nat n) bs (of_nat B) =
    (of_nat (align16 n), of_nat (align16 n div 16), of_nat (align16 n))"
proof -
  have le: "align16 n \<le> B" using assms align16_le by simp
  have "(of_nat n :: u32) < of_nat B"
    using assms by (simp add: word_less_nat_alt)
  moreover have "(if (of_nat n :: u32) AND ADDR_ALIGN_BASE_16_MASK \<noteq> 0
      then of_nat n + (ADDR_ALIGN_BASE_16 - (of_nat n AND ADDR_ALIGN_BASE_16_MASK)) else of_nat n)
      = (of_nat (align16 n) :: u32)"
  proof (cases "n mod 16 = 0")
    case True
    then show ?thesis by (simp add: and_align_mask align16_mult dvd_eq_mod_eq_0)
  next
    case False
    have m: "n mod 16 < 65536" "n mod 16 < 16" by (simp_all add: less_trans [OF mod_less_divisor])
    have "(of_nat (n mod 16) :: u32) \<noteq> 0"
      using False m by (simp add: of_nat_eq_0_u32)
    moreover have "n + (16 - n mod 16) = align16 n"
    proof -
      obtain q r where n: "n = 16 * q + r" and r: "n mod 16 = r" by (metis mult_div_mod_eq)
      have "0 < r" "r < 16" using False m(2) unfolding r by simp_all
      then have "n + (16 - r) = align16 n" by (simp add: n align16_split)
      then show ?thesis by (simp only: r)
    qed
    then have "(of_nat n :: u32) + of_nat (16 - n mod 16) = of_nat (align16 n)"
      by (metis of_nat_add)
    moreover have "(of_nat (16 - n mod 16) :: u32) = ADDR_ALIGN_BASE_16 - of_nat (n mod 16)"
      using m(2) by (simp add: ADDR_ALIGN_BASE_16_def of_nat_diff)
    ultimately show ?thesis by (simp add: and_align_mask)
  qed
  ultimately show ?thesis
    using le assms(3) drop_bit_of_nat_u32 [of "align16 n"] by (simp add: last_burst_def Let_def)
qed

lemma last_burst_full:
  assumes "B \<le> n" and "n < 2 ^ 32"
  shows "last_burst (of_nat n) bs (of_nat B) = (of_nat n, bs, of_nat B)"
  using assms by (simp add: last_burst_def word_less_nat_alt)

lemma burst_loop_end [simp]: "burst_loop issue pl_moves 0 bs bd ps pl = Some []"
  by (simp add: burst_loop.simps)

text \<open>The loop follows the plan, for a size below 4 GiB and a burst of full 16-byte beats.\<close>

lemma burst_loop_plan:
  assumes "0 < B" and "16 dvd B" and "B < 2 ^ 32" and "n < 2 ^ 32"
  shows "burst_loop issue pl_moves (of_nat n) (of_nat (B div 16)) (of_nat B) ps pl =
    Some (burst_events issue pl_moves ps pl (plan n B))"
  using assms
proof (induction n B arbitrary: ps pl rule: plan.induct)
  case (1 n B)
  let ?loop = "burst_loop issue pl_moves"
  consider "n = 0" | "0 < n" "n < B" | "0 < n" "B \<le> n" by linarith
  then show ?case
  proof cases
    case 1
    then show ?thesis by (simp add: plan.simps)
  next
    case 2
    then have p: "plan n B = [align16 n]" by (simp add: plan.simps)
    from 2 "1.prems" have "(of_nat n :: u32) \<noteq> 0" by (simp add: of_nat_eq_0_u32)
    then show ?thesis
      unfolding p burst_events_Cons
      by (subst burst_loop.simps) (simp add: last_burst_short [OF 2(2) "1.prems"(2,3)])
  next
    case 3
    then have p: "plan n B = B # plan (n - B) B" using "1.prems" by (simp add: plan.simps)
    from 3 "1.prems" have "(of_nat n :: u32) \<noteq> 0" by (simp add: of_nat_eq_0_u32)
    moreover have "(of_nat n - of_nat B :: u32) = of_nat (n - B)" using 3 by (simp add: of_nat_diff)
    moreover have "?loop (of_nat (n - B)) (of_nat (B div 16)) (of_nat B) ps' pl' =
        Some (burst_events issue pl_moves ps' pl' (plan (n - B) B))" for ps' pl'
      using 3 "1.prems" by (intro "1.IH") auto
    ultimately show ?thesis
      unfolding p burst_events_Cons
      by (subst burst_loop.simps) (simp add: last_burst_full [OF 3(2) "1.prems"(4)])
  qed
qed

text \<open>With bursts of no bytes the loop makes no progress.\<close>

lemma last_burst_zero [simp]: "last_burst d bs 0 = (d, bs, 0)"
  by (simp add: last_burst_def)

lemma burst_loop_zero:
  assumes "d \<noteq> 0"
  shows "burst_loop issue pl_moves d bs 0 ps pl = None"
proof (rule ccontr)
  assume "burst_loop issue pl_moves d bs 0 ps pl \<noteq> None"
  then obtain es where "burst_loop issue pl_moves d bs 0 ps pl = Some es" by blast
  then have "(0 :: u32) = 0 \<longrightarrow> d = 0"
  proof (rule burst_loop.raw_induct [where P = "\<lambda>_ _ d _ bd _ _ _. bd = 0 \<longrightarrow> d = 0",
      rotated], goal_cases)
    case (1 loop issue pl_moves d bs bd ps pl es)
    show ?case
    proof
      assume "bd = 0"
      with 1(2) show "d = 0"
        by (auto simp add: bind_eq_Some_conv split: if_split_asm dest!: 1(1))
    qed
  qed
  with assms show False by simp
qed

section \<open>What the bursts move\<close>

text \<open>
  The bytes a program of bursts moves, as pairs of a source and a destination address:
  \<open>ra\<close>, \<open>rs\<close> are the address and size register of the reading side, \<open>rb\<close>, \<open>rt\<close>
  those of the writing side. A size register holds the number of 16-byte beats less one.
\<close>

fun moved :: "hw_reg \<times> hw_reg \<times> hw_reg \<times> hw_reg \<Rightarrow> hw_event list \<Rightarrow> (u32 \<times> u32) list" where
  "moved (ra, rs, rb, rt) (Writel a r1 # Writel n r2 # Writel b r3 # Writel m r4
      # Wait_completion # es) =
     (if r1 = ra \<and> r2 = rs \<and> r3 = rb \<and> r4 = rt \<and> n = m
      then map (\<lambda>i. (a + of_nat i, b + of_nat i)) [0..<16 * (unat n + 1)]
        @ moved (ra, rs, rb, rt) es
      else [])"
| "moved _ _ = []"

lemma map_upt_add: "map f [0..<m + n] = map f [0..<m] @ map (\<lambda>i. f (m + i)) [0..<n]"
  by (induction n) simp_all

text \<open>One burst after the other moves one contiguous range.\<close>

lemma moved_burst_events:
  assumes "\<And>ps pl n. issue ps pl n =
      [Writel (if from_ps then ps else pl) ra, Writel (n - 1) rs,
       Writel (if from_ps then pl else ps) rb, Writel (n - 1) rt, Wait_completion]"
    and "list_all (\<lambda>b. 0 < b \<and> b \<le> B \<and> 16 dvd b) bs" and "B < 2 ^ 32"
  shows "moved (ra, rs, rb, rt) (burst_events issue True ps pl bs) =
    map (\<lambda>i. (if from_ps then ps + of_nat i else pl + of_nat i,
              if from_ps then pl + of_nat i else ps + of_nat i)) [0..<sum_list bs]"
  using assms(2)
proof (induction bs arbitrary: ps pl)
  case (Cons b bs)
  then obtain k where b: "b = 16 * k" and k: "0 < k" and bB: "b \<le> B" by (auto elim!: dvdE)
  have "(of_nat k - 1 :: u32) = of_nat (k - 1)"
    using k by (simp add: of_nat_diff)
  then have "unat (of_nat k - 1 :: u32) = k - 1"
    using b bB assms(3) by (simp only:) simp
  then have len: "16 * (unat (of_nat (b div 16) - 1 :: u32) + 1) = b"
    using b k by simp
  have "moved (ra, rs, rb, rt) (burst_events issue True ps pl (b # bs)) =
      map (\<lambda>i. (if from_ps then ps + of_nat i else pl + of_nat i,
                if from_ps then pl + of_nat i else ps + of_nat i)) [0..<b] @
      moved (ra, rs, rb, rt) (burst_events issue True (ps + of_nat b) (pl + of_nat b) bs)"
    unfolding burst_events_Cons assms(1) append.simps moved.simps len by simp
  also have "moved (ra, rs, rb, rt) (burst_events issue True (ps + of_nat b) (pl + of_nat b) bs) =
      map (\<lambda>i. (if from_ps then ps + of_nat (b + i) else pl + of_nat (b + i),
                if from_ps then pl + of_nat (b + i) else ps + of_nat (b + i))) [0..<sum_list bs]"
    using Cons by (simp add: add.assoc)
  finally show ?case by (simp only: sum_list.Cons map_upt_add)
qed simp

section \<open>The contract of a transfer\<close>

text \<open>
  What the four loops have in common is stated once: a transfer runs the loop on the low 32
  bits of its size and of its burst. A transfer is set up well when its burst is a whole
  number \<open>B div 16\<close> of beats; the library always sets bursts of 65536 beats up.
\<close>

definition whole_beats :: "axitangxi_transfer \<Rightarrow> nat \<Rightarrow> bool" where
  "whole_beats t B \<longleftrightarrow> 0 < B \<and> 16 dvd B \<and> B < 2 ^ 32 \<and>
     at_burst_data t = of_nat B \<and> at_burst_size t = of_nat (B div 16)"

definition low32 :: "u64 \<Rightarrow> nat" where
  "low32 n = unat n mod 2 ^ 32"

lemma ucast_low32: "(ucast n :: u32) = of_nat (low32 n)"
  by (rule word_unat_eq_iff [THEN iffD2])
    (simp add: low32_def unsigned_ucast_eq unsigned_of_nat take_bit_eq_mod)

lemma low32_less: "low32 n < 2 ^ 32"
  by (simp add: low32_def)

lemma ucast_of_nat_u64_u32: "(ucast (of_nat n :: u64) :: u32) = of_nat n"
  by transfer (simp add: take_bit_take_bit)

locale burst_transfer =
  fixes run :: "axitangxi_transfer \<Rightarrow> hw_event list option"
    and issue :: "u32 \<Rightarrow> u32 \<Rightarrow> u32 \<Rightarrow> hw_event list"
    and pl_moves :: bool
    and size_of :: "axitangxi_transfer \<Rightarrow> u64"
    and ps_of pl_of :: "axitangxi_transfer \<Rightarrow> u32"
  assumes run_loop: "run t = burst_loop issue pl_moves (ucast (size_of t))
      (ucast (at_burst_size t)) (ucast (at_burst_data t)) (ps_of t) (pl_of t)"
begin

lemma run_plan:
  assumes "whole_beats t B"
  shows "run t =
    Some (burst_events issue pl_moves (ps_of t) (pl_of t) (plan (low32 (size_of t)) B))"
proof -
  from assms have B: "0 < B" "16 dvd B" "B < 2 ^ 32"
    and f: "at_burst_data t = of_nat B" "at_burst_size t = of_nat (B div 16)"
    by (simp_all add: whole_beats_def)
  show ?thesis
    unfolding run_loop f ucast_of_nat_u64_u32 ucast_low32 [of "size_of t"]
    by (rule burst_loop_plan [OF B low32_less])
qed

lemma run_empty_burst:
  assumes "low32 (size_of t) \<noteq> 0" and "low32 (at_burst_data t) = 0"
  shows "run t = None"
proof -
  have "(of_nat (low32 (size_of t)) :: u32) \<noteq> 0"
    using assms(1) low32_less [of "size_of t"] by (simp add: of_nat_eq_0_u32)
  then show ?thesis
    unfolding run_loop ucast_low32 using assms(2) by (simp add: burst_loop_zero)
qed

end

text \<open>The two of them that advance both addresses and wait after each burst.\<close>

locale moving_transfer = burst_transfer run issue True size_of ps_of pl_of
  for run issue size_of ps_of pl_of +
  fixes from_ps :: bool and ra rs rb rt :: hw_reg
  assumes issue_moves: "issue ps pl n =
      [Writel (if from_ps then ps else pl) ra, Writel (n - 1) rs,
       Writel (if from_ps then pl else ps) rb, Writel (n - 1) rt, Wait_completion]"
begin

lemma run_moves:
  assumes "whole_beats t B"
  shows "\<exists>es. run t = Some es \<and>
    moved (ra, rs, rb, rt) es =
      map (\<lambda>i. (if from_ps then ps_of t + of_nat i else pl_of t + of_nat i,
                if from_ps then pl_of t + of_nat i else ps_of t + of_nat i))
        [0..<align16 (low32 (size_of t))] \<and>
    length (filter (\<lambda>e. e = Wait_completion) es) = ceil_div (low32 (size_of t)) B"
proof -
  let ?p = "plan (low32 (size_of t)) B"
  from assms have B: "0 < B" "16 dvd B" "B < 2 ^ 32" by (simp_all add: whole_beats_def)
  note p = plan_properties [OF B(1,2), of "low32 (size_of t)"]
  have "length (filter (\<lambda>e. e = Wait_completion) (burst_events issue True ps pl bs)) = length bs"
    for ps pl bs
    by (induction bs arbitrary: ps pl) (simp_all add: burst_events_Cons issue_moves)
  then show ?thesis
    using run_plan [OF assms] moved_burst_events [OF issue_moves _ B(3), of ?p "ps_of t" "pl_of t"] p
    by auto
qed

end

interpretation ps_to_pl: moving_transfer axitangxi_psddr_plddr
    "\<lambda>ps pl n. mm2s_ps_data_s2mm_pl ps pl n @ [Wait_completion]"
    at_tx_data_size at_tx_data_ps_ptr at_rx_data_pl_ptr
    True DMA_MM2S_PS_ADDR DMA_MM2S_PS_SIZE DMA_S2MM_PL_ADDR DMA_S2MM_PL_SIZE
  by unfold_locales (simp_all add: axitangxi_psddr_plddr_def mm2s_ps_data_s2mm_pl_def)

interpretation pl_to_ps: moving_transfer axitangxi_plddr_psddr
    "\<lambda>ps pl n. s2mm_ps_data_mm2s_pl ps pl n @ [Wait_completion]"
    at_rx_data_size at_rx_data_ps_ptr at_tx_data_pl_ptr
    False DMA_MM2S_PL_ADDR DMA_MM2S_PL_SIZE DMA_S2MM_PS_ADDR DMA_S2MM_PS_SIZE
  by unfold_locales (simp_all add: axitangxi_plddr_psddr_def s2mm_ps_data_mm2s_pl_def)

interpretation ps_to_chip: burst_transfer batch_mm2s_ps_data_tangxi
    "\<lambda>ps pl n. mm2s_ps_data_tangxi ps pl n 0 3" False
    at_tx_data_size at_tx_data_ps_ptr at_rx_data_pl_ptr
  by unfold_locales (simp add: batch_mm2s_ps_data_tangxi_def)

interpretation chip_to_ps: burst_transfer batch_s2mm_ps_data_mm2s_pl
    s2mm_ps_data_mm2s_pl False at_rx_data_size at_rx_data_ps_ptr at_rx_data_pl_ptr
  by unfold_locales (simp add: batch_s2mm_ps_data_mm2s_pl_def)

section \<open>Properties\<close>

text \<open>A transfer of 40 bytes in bursts of 32, from 0x1000 to 0x2000.\<close>

definition sample_transfer :: axitangxi_transfer where
  "sample_transfer = \<lparr>at_tx_data_size = 40, at_rx_data_size = 40, at_burst_size = 2,
     at_burst_count = 2, at_burst_data = 32, at_tx_data_ps_ptr = 0x1000,
     at_rx_data_ps_ptr = 0x1000, at_tx_data_pl_ptr = 0x2000, at_rx_data_pl_ptr = 0x2000,
     at_node = 0\<rparr>"

lemma sample_whole_beats: "whole_beats sample_transfer 32"
  by (simp add: whole_beats_def sample_transfer_def)

text \<open>
  C13: \<open>axitangxi_psddr_plddr\<close> and \<open>axitangxi_plddr_psddr\<close> return for every size, and the
  bursts they start move, byte for byte and in order, the range of the transfer, rounded up
  to whole beats of 16 bytes, waiting once for each burst. Of the size only the low 32 bits
  count, since the loops hold it in a \<open>uint32_t\<close>.
\<close>

theorem transfers_move_the_range:
  assumes "whole_beats t B"
  shows "(\<exists>es. axitangxi_psddr_plddr t = Some es \<and>
      moved (DMA_MM2S_PS_ADDR, DMA_MM2S_PS_SIZE, DMA_S2MM_PL_ADDR, DMA_S2MM_PL_SIZE) es =
        map (\<lambda>i. (at_tx_data_ps_ptr t + of_nat i, at_rx_data_pl_ptr t + of_nat i))
          [0..<align16 (low32 (at_tx_data_size t))] \<and>
      length (filter (\<lambda>e. e = Wait_completion) es) = ceil_div (low32 (at_tx_data_size t)) B) \<and>
    (\<exists>es. axitangxi_plddr_psddr t = Some es \<and>
      moved (DMA_MM2S_PL_ADDR, DMA_MM2S_PL_SIZE, DMA_S2MM_PS_ADDR, DMA_S2MM_PS_SIZE) es =
        map (\<lambda>i. (at_tx_data_pl_ptr t + of_nat i, at_rx_data_ps_ptr t + of_nat i))
          [0..<align16 (low32 (at_rx_data_size t))] \<and>
      length (filter (\<lambda>e. e = Wait_completion) es) = ceil_div (low32 (at_rx_data_size t)) B)"
  using ps_to_pl.run_moves [OF assms] pl_to_ps.run_moves [OF assms] by simp

theorem transfers_move_the_range_witness:
  "\<exists>es. axitangxi_psddr_plddr sample_transfer = Some es \<and>
    length (moved (DMA_MM2S_PS_ADDR, DMA_MM2S_PS_SIZE, DMA_S2MM_PL_ADDR, DMA_S2MM_PL_SIZE) es) = 48"
  using transfers_move_the_range [OF sample_whole_beats]
  by (auto simp add: sample_transfer_def low32_def align16_def)

text \<open>
  C33: a burst of no bytes makes all four loops run for ever, whatever the size, as soon as
  there is something to transfer.
\<close>

theorem empty_burst_never_ends:
  assumes "low32 (at_burst_data t) = 0"
  shows "(low32 (at_tx_data_size t) \<noteq> 0 \<longrightarrow>
      axitangxi_psddr_plddr t = None \<and> batch_mm2s_ps_data_tangxi t = None) \<and>
    (low32 (at_rx_data_size t) \<noteq> 0 \<longrightarrow>
      axitangxi_plddr_psddr t = None \<and> batch_s2mm_ps_data_mm2s_pl t = None)"
  using assms ps_to_pl.run_empty_burst pl_to_ps.run_empty_burst ps_to_chip.run_empty_burst
    chip_to_ps.run_empty_burst by blast

theorem empty_burst_never_ends_witness:
  "axitangxi_psddr_plddr (sample_transfer\<lparr>at_burst_data := 0x100000000\<rparr>) = None"
  using empty_burst_never_ends [of "sample_transfer\<lparr>at_burst_data := 0x100000000\<rparr>"]
  by (simp add: sample_transfer_def low32_def)

text \<open>
  The loopback through the chip returns, and all its bursts use one PL address, the
  transfer's receive address, on the way in and on the way out: unlike the two transfers
  above it never advances it.
\<close>

theorem loopback_uses_one_pl_address:
  assumes "whole_beats t B"
  shows "axi_tangxi_loopback t = Some
    (burst_events (\<lambda>ps pl n. mm2s_ps_data_tangxi ps (at_rx_data_pl_ptr t) n 0 3) True
       (at_tx_data_ps_ptr t) 0 (plan (low32 (at_tx_data_size t)) B) @
     burst_events (\<lambda>ps pl n. s2mm_ps_data_mm2s_pl ps (at_rx_data_pl_ptr t) n) True
       (at_rx_data_ps_ptr t) 0 (plan (low32 (at_rx_data_size t)) B))"
proof -
  have "burst_events issue False ps pl bs = burst_events (\<lambda>ps _ n. issue ps pl n) True ps pl' bs"
    for issue ps pl pl' bs
    by (simp add: burst_events_def Let_def)
  then show ?thesis
    by (simp add: axi_tangxi_loopback_def ps_to_chip.run_plan [OF assms]
        chip_to_ps.run_plan [OF assms])
qed

theorem loopback_uses_one_pl_address_witness:
  "axi_tangxi_loopback sample_transfer = Some
    (mm2s_ps_data_tangxi 0x1000 0x2000 2 0 3 @ mm2s_ps_data_tangxi 0x1020 0x2000 1 0 3 @
     s2mm_ps_data_mm2s_pl 0x1000 0x2000 2 @ s2mm_ps_data_mm2s_pl 0x1020 0x2000 1)"
  using loopback_uses_one_pl_address [OF sample_whole_beats]
  by (simp add: sample_transfer_def low32_def plan.simps burst_events_Cons align16_def)

text \<open>
  The four writes of a burst to the chip encode it: the beat count less one is in the
  size register and, above the command bits, in the package control word; the package
  address holds the node in bits 20 to 27 and the PL address below it when it fits.
\<close>

theorem chip_package_fields:
  assumes "rx_data_pl_addr < 2 ^ 20" and "0 < burst_size" and "burst_size \<le> 2 ^ 22"
    and "chip_position < 16"
  shows "\<exists>addr ctl. mm2s_ps_data_tangxi tx_data_ps_addr rx_data_pl_addr burst_size
        chip_position node =
      [Writel tx_data_ps_addr DMA_MM2S_PS_ADDR, Writel (burst_size - 1) DMA_MM2S_PS_SIZE,
       Writel addr NOC_DATA_PKG_ADDR, Writel ctl NOC_DATA_PKG_CTL] \<and>
    take_bit 20 addr = rx_data_pl_addr \<and> take_bit 8 (drop_bit 20 addr) = ucast node \<and>
    drop_bit 28 addr = chip_position \<and>
    take_bit 10 ctl = 2 \<and> drop_bit 10 ctl = burst_size - 1"
proof (intro exI conjI, rule mm2s_ps_data_tangxi_def [unfolded Let_def])
  have "unat (burst_size - 1) < 2 ^ 22"
    using assms(2,3) by (simp add: unat_minus_one word_less_nat_alt word_le_nat_alt unat_gt_0)
  then have s: "bit (burst_size - 1) i \<Longrightarrow> i < 22" for i
    using not_bit_above linorder_not_less by blast
  have a: "bit rx_data_pl_addr i \<Longrightarrow> i < 20" for i
    using assms(1) not_bit_above [of rx_data_pl_addr 20 i] by (force simp add: word_less_nat_alt)
  then have a2: "\<not> bit rx_data_pl_addr (28 + i)" for i by force
  have c: "bit chip_position i \<Longrightarrow> i < 4" for i
    using assms(4) not_bit_above [of chip_position 4 i] by (force simp add: word_less_nat_alt)
  show "take_bit 20 (push_bit 28 chip_position OR push_bit 20 (ucast node) OR
        rx_data_pl_addr) = rx_data_pl_addr"
    and "take_bit 8 (drop_bit 20 (push_bit 28 chip_position OR push_bit 20 (ucast node) OR
        rx_data_pl_addr)) = ucast node"
    and "drop_bit 28 (push_bit 28 chip_position OR push_bit 20 (ucast node) OR
        rx_data_pl_addr) = chip_position"
    and "take_bit 10 (push_bit 10 (burst_size - 1) OR 0b0000000010) = 2"
    and "drop_bit 10 (push_bit 10 (burst_size - 1) OR 0b0000000010) = burst_size - 1"
    by (auto intro!: bit_word_eqI simp add: bit_simps bit_u8_high a2 dest: bit_imp_le_length a c s)
qed

theorem chip_package_fields_witness:
  "take_bit 8 (drop_bit 20 (0x00300100 :: u32)) = 3"
  using chip_package_fields [where rx_data_pl_addr = "0x100" and burst_size = 2 and chip_position = 0
      and node = 3 and tx_data_ps_addr = "0x1000"]
  by (auto simp add: mm2s_ps_data_tangxi_def)

end
