(* ===== verification/PlLib.thy ===== *)
theory PlLib
  imports Ioctl
begin

text \<open>
  \<^verbatim>\<open>axitangxi.c\<close>: the user library over the device node. The device is the record of what
  its next system calls do, of the memory blocks \<open>mmap\<close> has handed out (by address), and of
  the requests issued so far.
\<close>

section \<open>The device node\<close>

text \<open>
  \<open>pd_mmaps\<close>: what the next calls of \<open>mmap\<close> return, an address and what the block holds, or
  \<open>None\<close> for \<open>MAP_FAILED\<close>. \<open>pd_ok\<close>: whether the next calls of \<open>ioctl\<close> and \<open>munmap\<close>
  succeed. \<open>pd_results\<close>: the registers the next \<open>NETWORK_ACC_GET\<close> requests copy out.
  \<open>pd_data\<close>: the bytes the next \<open>PLDDR_TO_PSDDR\<close> requests deliver. \<open>pd_log\<close>: the requests,
  with the bytes a \<open>PSDDR_TO_PLDDR\<close> found at its address.
\<close>

record pl_dev =
  pd_mmaps :: "(u64 \<times> bytes) option list"
  pd_ok :: "bool list"
  pd_blocks :: "u64 \<Rightarrow> bytes option"
  pd_results :: "network_acc_reg list"
  pd_data :: "bytes list"
  pd_log :: "(pl_request \<times> bytes) list"

definition MAP_FAILED :: u64 where [const_defs]: "MAP_FAILED = - 1"

definition resize :: "nat \<Rightarrow> bytes \<Rightarrow> bytes" where
  "resize n bs = take n (bs @ replicate n 0)"

text \<open>\<open>mmap\<close> fails on an empty length.\<close>

definition ps_mmap :: "nat \<Rightarrow> pl_dev \<Rightarrow> u64 \<times> pl_dev" where
  "ps_mmap sz dev = (case pd_mmaps dev of
       Some (a, bs) # ms \<Rightarrow>
         if 0 < sz then (a, dev\<lparr> pd_mmaps := ms, pd_blocks := (pd_blocks dev)(a \<mapsto> resize sz bs) \<rparr>)
         else (MAP_FAILED, dev\<lparr> pd_mmaps := ms \<rparr>)
     | ms \<Rightarrow> (MAP_FAILED, dev\<lparr> pd_mmaps := tl ms \<rparr>))"

definition syscall_ok :: "pl_dev \<Rightarrow> bool \<times> pl_dev" where
  "syscall_ok dev = (case pd_ok dev of [] \<Rightarrow> (True, dev) | ok # oks \<Rightarrow> (ok, dev\<lparr> pd_ok := oks \<rparr>))"

definition block :: "pl_dev \<Rightarrow> u64 \<Rightarrow> bytes" where
  "block dev a = (case pd_blocks dev a of None \<Rightarrow> [] | Some bs \<Rightarrow> bs)"

definition log_request :: "pl_request \<Rightarrow> bytes \<Rightarrow> pl_dev \<Rightarrow> pl_dev" where
  "log_request r bs dev = dev\<lparr> pd_log := pd_log dev @ [(r, bs)] \<rparr>"

definition munmap :: "u64 \<Rightarrow> pl_dev \<Rightarrow> bool \<times> pl_dev" where
  "munmap a dev = (case syscall_ok dev of
       (False, dev) \<Rightarrow> (False, dev)
     | (True, dev) \<Rightarrow> (True, dev\<lparr> pd_blocks := (pd_blocks dev)(a := None) \<rparr>))"

text \<open>\<open>ioctl\<close> with the requests that move data; the flag is whether it returned other than -1.\<close>

definition ioctl_write :: "axitangxi_transaction \<Rightarrow> pl_dev \<Rightarrow> bool \<times> pl_dev" where
  "ioctl_write tr dev = (case syscall_ok dev of
       (False, dev) \<Rightarrow> (False, dev)
     | (True, dev) \<Rightarrow> (True, log_request (PSDDR_TO_PLDDR tr) (block dev (tr_tx_data_ps_ptr tr)) dev))"

definition overlay :: "bytes \<Rightarrow> bytes \<Rightarrow> bytes" where
  "overlay new old = take (length old) new @ drop (length new) old"

definition ioctl_read :: "axitangxi_transaction \<Rightarrow> pl_dev \<Rightarrow> bool \<times> pl_dev" where
  "ioctl_read tr dev = (case syscall_ok dev of
       (False, dev) \<Rightarrow> (False, dev)
     | (True, dev) \<Rightarrow>
         let dev = log_request (PLDDR_TO_PSDDR tr) [] dev; a = tr_rx_data_ps_ptr tr in
         (True, case pd_data dev of
            [] \<Rightarrow> dev
          | d # ds \<Rightarrow> dev\<lparr> pd_data := ds,
              pd_blocks := (pd_blocks dev)(a := map_option (overlay d) (pd_blocks dev a)) \<rparr>))"

section \<open>The library\<close>

text \<open>The members set by \<open>init_trans\<close>; \<open>node\<close> keeps what the stack held.\<close>

definition init_trans ::
    "axitangxi_transaction \<Rightarrow> u64 \<Rightarrow> u32 \<Rightarrow> u32 \<Rightarrow> axitangxi_transaction" where
  "init_trans tr ps_addr pl_addr sz = tr\<lparr>
     tr_tx_data_size := ucast sz, tr_rx_data_size := ucast sz,
     tr_burst_size := BURST_SIZE, tr_burst_data := 16 * BURST_SIZE,
     tr_burst_count := ucast (sz - 1) div (16 * BURST_SIZE) + 1,
     tr_tx_data_ps_ptr := ps_addr, tr_rx_data_ps_ptr := ps_addr,
     tr_rx_data_pl_ptr := pl_addr, tr_tx_data_pl_ptr := pl_addr \<rparr>"

text \<open>\<open>pl_io\<close> with the direction as a function; it returns the size or -1, and \<open>*ps_addr\<close>.\<close>

definition pl_io :: "(axitangxi_transaction \<Rightarrow> pl_dev \<Rightarrow> bool \<times> pl_dev) \<Rightarrow> axitangxi_transaction \<Rightarrow>
    u64 \<Rightarrow> u32 \<Rightarrow> u32 \<Rightarrow> pl_dev \<Rightarrow> int \<times> u64 \<times> pl_dev" where
  "pl_io request stack ps_addr pl_addr sz dev =
     (let (ps_addr, dev) = (if ps_addr = 0 then ps_mmap (unat sz) dev else (ps_addr, dev)) in
      if ps_addr = MAP_FAILED then (- 1, ps_addr, dev)
      else case request (init_trans stack ps_addr pl_addr sz) dev of
          (False, dev) \<Rightarrow> (- 1, ps_addr, dev)
        | (True, dev) \<Rightarrow> (uint sz, ps_addr, dev))"

definition pl_write ::
    "axitangxi_transaction \<Rightarrow> u64 \<Rightarrow> u32 \<Rightarrow> u32 \<Rightarrow> pl_dev \<Rightarrow> int \<times> u64 \<times> pl_dev" where
  "pl_write = pl_io ioctl_write"

definition pl_read ::
    "axitangxi_transaction \<Rightarrow> u64 \<Rightarrow> u32 \<Rightarrow> u32 \<Rightarrow> pl_dev \<Rightarrow> int \<times> u64 \<times> pl_dev" where
  "pl_read = pl_io ioctl_read"

text \<open>The file is \<open>read\<close> straight into the block that was mapped for it.\<close>

definition ps_read_file :: "file_env \<Rightarrow> u64 \<Rightarrow> pl_dev \<Rightarrow> int \<times> u64 \<times> pl_dev" where
  "ps_read_file env addr dev = (case fe_open env of
       None \<Rightarrow> (- 1, addr, dev)
     | Some fl \<Rightarrow>
         if \<not> fe_fstat_ok env then (- 1, addr, dev)
         else let st_size = length (fl_rest fl); (addr, dev) = ps_mmap st_size dev in
           if addr = MAP_FAILED then (- 1, addr, dev)
           else let (r, _) = read_file st_size fl;
                    (sz, dev) = (case r of
                       None \<Rightarrow> (- 1, dev)
                     | Some bs \<Rightarrow> (int (length bs), dev\<lparr> pd_blocks := (pd_blocks dev)
                         (addr := map_option (overlay bs) (pd_blocks dev addr)) \<rparr>))
             in if \<not> fe_close_ok env then (- 1, addr, dev) else (sz, addr, dev))"

text \<open>\<open>*p_size\<close> is a \<open>uint32_t\<close>: -1 becomes \<open>0xffffffff\<close>, which the comparison with -1 finds.\<close>

definition pl_config ::
    "axitangxi_transaction \<Rightarrow> file_env \<Rightarrow> u32 \<Rightarrow> pl_dev \<Rightarrow> int \<times> u32 \<times> pl_dev" where
  "pl_config stack env pl_addr dev =
     (let (n, ps_addr, dev) = ps_read_file env 0 dev; p_size = word_of_int n :: u32 in
      if p_size = - 1 then (- 2, p_size, dev)
      else let (ssize, ps_addr, dev) = pl_write stack ps_addr pl_addr p_size dev in
        case munmap ps_addr dev of
          (False, dev) \<Rightarrow> (- 3, p_size, dev)
        | (True, dev) \<Rightarrow> (ssize, p_size, dev))"

definition pl_run :: "network_acc_reg \<Rightarrow> pl_dev \<Rightarrow> pl_dev res" where
  "pl_run reg dev = (case syscall_ok dev of
       (False, dev) \<Rightarrow> Inl ErrExit
     | (True, dev) \<Rightarrow>
         (case syscall_ok (log_request (NETWORK_ACC_CONFIG reg) [] dev) of
            (False, dev) \<Rightarrow> Inl ErrExit
          | (True, dev) \<Rightarrow> Inr (log_request NETWORK_ACC_START [] dev)))"

definition pl_init :: "axitangxi_transaction \<Rightarrow> network_acc_reg \<Rightarrow> file_env \<Rightarrow> u32 \<Rightarrow> pl_dev \<Rightarrow>
    (network_acc_reg \<times> pl_dev) res" where
  "pl_init stack reg weight_file weight_addr dev =
     (let reg = reg\<lparr> na_weight_addr := weight_addr \<rparr>;
          (r, sz, dev) = pl_config stack weight_file weight_addr dev;
          reg = reg\<lparr> na_weight_size := sz \<rparr>
      in if r = - 1 then Inl ErrExit else Inr (reg, dev))"

text \<open>\<open>NETWORK_ACC_GET\<close> copies a whole struct over \<open>*reg\<close>.\<close>

definition ioctl_get :: "network_acc_reg \<Rightarrow> pl_dev \<Rightarrow> bool \<times> network_acc_reg \<times> pl_dev" where
  "ioctl_get reg dev = (case syscall_ok dev of
       (False, dev) \<Rightarrow> (False, reg, dev)
     | (True, dev) \<Rightarrow> (let dev = log_request NETWORK_ACC_GET [] dev in
         case pd_results dev of
           [] \<Rightarrow> (True, reg, dev)
         | r # rs \<Rightarrow> (True, r, dev\<lparr> pd_results := rs \<rparr>)))"

definition pl_get :: "axitangxi_transaction \<Rightarrow> network_acc_reg \<Rightarrow> u64 \<Rightarrow> u64 \<Rightarrow> pl_dev \<Rightarrow>
    (network_acc_reg \<times> u64 \<times> u64 \<times> pl_dev) res" where
  "pl_get stack reg trans_addr entropy_addr dev =
     (case ioctl_get reg dev of
        (False, _, _) \<Rightarrow> Inl ErrExit
      | (True, reg, dev) \<Rightarrow>
          let (r1, trans_addr, dev) =
                pl_read stack trans_addr (na_trans_addr reg) (na_trans_size reg) dev in
          if r1 = - 1 then Inl ErrExit
          else let (r2, entropy_addr, dev) =
                 pl_read stack entropy_addr (na_entropy_addr reg) (na_entropy_size reg) dev in
            if r2 = - 1 then Inl ErrExit else Inr (reg, trans_addr, entropy_addr, dev))"

section \<open>Properties\<close>

lemma syscall_ok_all: "list_all id (pd_ok dev) \<Longrightarrow>
    syscall_ok dev = (True, dev\<lparr> pd_ok := tl (pd_ok dev) \<rparr>)"
  by (cases dev) (auto simp add: syscall_ok_def split: list.splits)

lemma list_all_tl [simp]: "list_all P xs \<Longrightarrow> list_all P (tl xs)"
  by (cases xs) simp_all

lemma resize_length [simp]: "length (resize n bs) = n"
  by (simp add: resize_def)

lemma overlay_full: "length new = length old \<Longrightarrow> overlay new old = new"
  by (simp add: overlay_def)

lemma init_trans_burst_count:
  assumes "0 < n" and "n < 2 ^ 32"
  shows "unat (tr_burst_count (init_trans stack a pl_addr (of_nat n))) = (n - 1) div 2 ^ 20 + 1"
proof -
  have "(of_nat n :: u32) - 1 = of_nat (n - 1)" using assms(1) by (cases n) simp_all
  moreover have "(ucast (of_nat (n - 1) :: u32) :: u64) = of_nat (n - 1)"
    using assms(2) by simp
  moreover have "(of_nat (n - 1) :: u64) div of_nat (2 ^ 20) = of_nat ((n - 1) div 2 ^ 20)"
    using assms(2) by (intro of_nat_div_u64) simp_all
  ultimately have "tr_burst_count (init_trans stack a pl_addr (of_nat n)) =
      of_nat ((n - 1) div 2 ^ 20 + 1)"
    by (simp add: init_trans_def BURST_SIZE_def)
  moreover have "(n - 1) div 2 ^ 20 \<le> n" and "n < 4294967296"
    using assms(2) div_le_dividend [of "n - 1" "2 ^ 20"] by simp_all
  then have "(n - 1) div 2 ^ 20 + 1 < 18446744073709551616" by linarith
  ultimately show ?thesis by (simp only: unat_of_nat_u64)
qed

text \<open>\<open>pl_config\<close> on a readable file, with memory and a device that answers, hands the
  kernel one transfer to the PL address it was given, whose size is the file's size, whose
  plan is full bursts of 65536 beats of 16 bytes and whose number of bursts is the size
  divided by 1 MiB rounded up, over a block that holds exactly the file; the block is released
  and the size is returned in both places.\<close>

theorem pl_config_loads_file:
  assumes fl: "fe_open env = Some fl" "fe_fstat_ok env" "fe_close_ok env" "fl_read_fails fl = []"
    and sz: "fl_rest fl \<noteq> []" "length (fl_rest fl) < 2 ^ 32 - 1"
    and mem: "pd_mmaps dev = Some (a, bs) # ms" "a \<noteq> 0" "a \<noteq> MAP_FAILED"
    and ok: "list_all id (pd_ok dev)"
  shows "\<exists>tr dev'. pl_config stack env pl_addr dev =
        (int (length (fl_rest fl)), of_nat (length (fl_rest fl)), dev')
      \<and> pd_log dev' = pd_log dev @ [(PSDDR_TO_PLDDR tr, fl_rest fl)]
      \<and> pd_blocks dev' = (pd_blocks dev)(a := None)
      \<and> unat (tr_tx_data_size tr) = length (fl_rest fl) \<and> tr_rx_data_pl_ptr tr = pl_addr
      \<and> tr_burst_data tr = 16 * tr_burst_size tr
      \<and> unat (tr_burst_count tr) = (length (fl_rest fl) - 1) div 2 ^ 20 + 1"
proof -
  let ?n = "length (fl_rest fl)"
  let ?tr = "init_trans stack a pl_addr (of_nat ?n)"
  have n: "unat (of_nat ?n :: u32) = ?n" using sz(2) by simp
  have "int (unat (of_nat ?n :: u32)) = uint (of_nat ?n :: u32)" by (rule of_nat_unat)
  then have u: "uint (of_nat ?n :: u32) = int ?n" by (simp only: n)
  have not_m1: "(of_nat ?n :: u32) \<noteq> - 1"
  proof
    assume "(of_nat ?n :: u32) = - 1"
    then have "unat (of_nat ?n :: u32) = unat (- 1 :: u32)" by (rule arg_cong)
    with n sz(2) show False by (simp add: unsigned_minus_1_eq_mask mask_eq_exp_minus_1)
  qed
  define dev1 where "dev1 = dev\<lparr> pd_mmaps := ms, pd_blocks := (pd_blocks dev)(a \<mapsto> fl_rest fl) \<rparr>"
  have read: "ps_read_file env 0 dev = (int ?n, a, dev1)"
    using fl sz(1) mem
    by (cases dev) (simp add: ps_read_file_def ps_mmap_def read_file_def overlay_full dev1_def Let_def)
  have wr: "pl_write stack a pl_addr (of_nat ?n) dev1 =
      (int ?n, a, log_request (PSDDR_TO_PLDDR ?tr) (fl_rest fl) (dev1\<lparr> pd_ok := tl (pd_ok dev) \<rparr>))"
    using mem(2,3) ok u
    by (simp add: pl_write_def pl_io_def ioctl_write_def syscall_ok_all dev1_def block_def
        init_trans_def log_request_def)
  have "word_of_int (int ?n) = (of_nat ?n :: u32)" by simp
  then have "pl_config stack env pl_addr dev = (int ?n, of_nat ?n,
      (log_request (PSDDR_TO_PLDDR ?tr) (fl_rest fl)
        (dev1\<lparr> pd_ok := tl (tl (pd_ok dev)) \<rparr>))\<lparr> pd_blocks := (pd_blocks dev)(a := None) \<rparr>)"
    using read wr not_m1 ok
    by (simp add: pl_config_def munmap_def syscall_ok_all log_request_def dev1_def Let_def)
  moreover have "unat (tr_tx_data_size ?tr) = ?n"
    using sz(2) by (simp add: init_trans_def)
  moreover have "unat (tr_burst_count ?tr) = (?n - 1) div 2 ^ 20 + 1"
    using init_trans_burst_count [of ?n] sz by simp
  ultimately show ?thesis
    by (intro exI [of _ ?tr]) (auto simp add: log_request_def dev1_def init_trans_def)
qed

definition sample_dev :: pl_dev where
  "sample_dev = \<lparr> pd_mmaps = [Some (0x1000, [])], pd_ok = [], pd_blocks = (\<lambda>_. None),
     pd_results = [], pd_data = [], pd_log = [] \<rparr>"

definition sample_transaction :: axitangxi_transaction where
  "sample_transaction = \<lparr> tr_tx_data_size = 0, tr_rx_data_size = 0, tr_burst_size = 0,
     tr_burst_count = 0, tr_burst_data = 0, tr_tx_data_ps_ptr = 0, tr_rx_data_ps_ptr = 0,
     tr_tx_data_pl_ptr = 0, tr_rx_data_pl_ptr = 0, tr_node = 0 \<rparr>"

definition file_of :: "bytes \<Rightarrow> file_env" where
  "file_of bs = \<lparr> fe_open = Some \<lparr> fl_rest = bs, fl_read_fails = [] \<rparr>, fe_fstat_ok = True,
     fe_close_ok = True \<rparr>"

lemma pl_config_loads_file_witness:
  "\<exists>tr dev'. pl_config sample_transaction (file_of [1, 2, 3]) 0x10000000 sample_dev =
        (int (length (fl_rest \<lparr> fl_rest = [1, 2, 3], fl_read_fails = [] \<rparr>)),
         of_nat (length (fl_rest \<lparr> fl_rest = [1, 2, 3], fl_read_fails = [] \<rparr>)), dev')
      \<and> pd_log dev' = pd_log sample_dev
          @ [(PSDDR_TO_PLDDR tr, fl_rest \<lparr> fl_rest = [1, 2, 3], fl_read_fails = [] \<rparr>)]
      \<and> pd_blocks dev' = (pd_blocks sample_dev)(0x1000 := None)
      \<and> unat (tr_tx_data_size tr) = length (fl_rest \<lparr> fl_rest = [1, 2, 3], fl_read_fails = [] \<rparr>)
      \<and> tr_rx_data_pl_ptr tr = 0x10000000
      \<and> tr_burst_data tr = 16 * tr_burst_size tr
      \<and> unat (tr_burst_count tr) =
          (length (fl_rest \<lparr> fl_rest = [1, 2, 3], fl_read_fails = [] \<rparr>) - 1) div 2 ^ 20 + 1"
  by (rule pl_config_loads_file [where bs = "[]" and ms = "[]"])
     (simp_all add: file_of_def sample_dev_def const_defs)

text \<open>When the weight file cannot be opened, \<open>pl_config\<close> says -2, which \<open>pl_init\<close> does not
  take for a failure: it returns with the size register set to \<open>0xffffffff\<close>, and no request
  has reached the device.\<close>

theorem pl_init_accepts_missing_file:
  assumes "fe_open env = None"
  shows "pl_init stack reg env weight_addr dev =
    Inr (reg\<lparr> na_weight_addr := weight_addr, na_weight_size := 0xffffffff \<rparr>, dev)"
  using assms by (simp add: pl_init_def pl_config_def ps_read_file_def)

definition blank_reg :: network_acc_reg where
  "blank_reg = \<lparr> na_control = 0, na_weight_addr = 0, na_weight_size = 0, na_quantify_addr = 0,
     na_quantify_size = 0, na_picture_addr = 0, na_picture_size = 0, na_trans_addr = 0,
     na_trans_size = 0, na_entropy_addr = 0, na_entropy_size = 0 \<rparr>"

lemma pl_init_accepts_missing_file_witness:
  "pl_init sample_transaction blank_reg \<lparr> fe_open = None, fe_fstat_ok = True, fe_close_ok = True \<rparr> 5
      sample_dev =
    Inr (blank_reg\<lparr> na_weight_addr := 5, na_weight_size := 0xffffffff \<rparr>, sample_dev)"
  by (rule pl_init_accepts_missing_file) simp

end
