(* ===== verification/Driver.thy ===== *)
theory Driver
  imports Dma PlLib
begin

text \<open>
  \<^verbatim>\<open>axitangxi_dev.c\<close>, \<^verbatim>\<open>axi_tangxi_platform.c\<close> and the request handlers of
  \<^verbatim>\<open>axi_tangxi.c\<close>: the character device of the kernel module. Its state is what outlives a
  call: the device structure, the DMA blocks mapped into user space, the completion the
  interrupt handler signals, and the register writes so far.
\<close>

section \<open>Registers\<close>

definition reg_addr :: "hw_reg \<Rightarrow> u32" where
  "reg_addr r = (case r of
       DMA_MM2S_PS_ADDR \<Rightarrow> 0x80000000 | DMA_MM2S_PS_SIZE \<Rightarrow> 0x80000004
     | NOC_DATA_PKG_ADDR \<Rightarrow> 0x80000008 | NOC_DATA_PKG_CTL \<Rightarrow> 0x8000000C
     | NOC_CTL_PKG_CTL \<Rightarrow> 0x80000010 | CSRAM_WRITE_CTL \<Rightarrow> 0x80000014
     | DMA_S2MM_PS_ADDR \<Rightarrow> 0x80000018 | DMA_S2MM_PS_SIZE \<Rightarrow> 0x8000001C
     | RESULT_READ_ADDR \<Rightarrow> 0x80000020 | RESULT_READ_CTL \<Rightarrow> 0x80000024
     | TX_RISCV_RESET_CTL \<Rightarrow> 0x80000028 | PL_IRQ_TASK_NUM \<Rightarrow> 0x8000002C
     | DMA_MM2S_PL_ADDR \<Rightarrow> 0x80000030 | DMA_MM2S_PL_SIZE \<Rightarrow> 0x80000034
     | DMA_S2MM_PL_ADDR \<Rightarrow> 0x80000038 | DMA_S2MM_PL_SIZE \<Rightarrow> 0x8000003C
     | ENGINE_CR \<Rightarrow> 0x80000100
     | ENGINE_WA \<Rightarrow> 0x80000104 | ENGINE_WS \<Rightarrow> 0x80000108
     | ENGINE_QA \<Rightarrow> 0x8000010C | ENGINE_QS \<Rightarrow> 0x80000110
     | ENGINE_PA \<Rightarrow> 0x80000114 | ENGINE_PS \<Rightarrow> 0x80000118
     | ENGINE_TA \<Rightarrow> 0x8000011C | ENGINE_TS \<Rightarrow> 0x80000120
     | ENGINE_EA \<Rightarrow> 0x80000124 | ENGINE_ES \<Rightarrow> 0x80000128)"

text \<open>The live mappings of registers, each of 4 bytes, as \<open>ioremap\<close> and \<open>iounmap\<close> leave them.\<close>

definition reg_map :: "hw_reg list \<Rightarrow> hw_reg list" where
  "reg_map mapped = mapped @
     [DMA_MM2S_PS_ADDR, DMA_MM2S_PS_SIZE, NOC_DATA_PKG_ADDR, NOC_DATA_PKG_CTL,
      NOC_CTL_PKG_CTL, CSRAM_WRITE_CTL, DMA_S2MM_PS_ADDR, DMA_S2MM_PS_SIZE,
      RESULT_READ_ADDR, RESULT_READ_CTL, TX_RISCV_RESET_CTL,
      DMA_MM2S_PL_ADDR, DMA_MM2S_PL_SIZE, DMA_S2MM_PL_ADDR, DMA_S2MM_PL_SIZE, PL_IRQ_TASK_NUM,
      ENGINE_CR, ENGINE_WA, ENGINE_WS, ENGINE_QA, ENGINE_QS, ENGINE_PA, ENGINE_PS,
      ENGINE_TA, ENGINE_TS, ENGINE_EA, ENGINE_ES]"

definition iounmap :: "hw_reg \<Rightarrow> hw_reg list \<Rightarrow> hw_reg list res" where
  "iounmap r mapped = (if r \<in> set mapped then Inr (remove1 r mapped) else Inl DoubleFree)"

definition reg_unmap :: "hw_reg list \<Rightarrow> hw_reg list res" where
  "reg_unmap = for_each
     [DMA_MM2S_PS_ADDR, DMA_MM2S_PS_SIZE, NOC_DATA_PKG_ADDR, NOC_DATA_PKG_CTL,
      NOC_CTL_PKG_CTL, CSRAM_WRITE_CTL, DMA_S2MM_PS_ADDR, DMA_S2MM_PS_SIZE,
      RESULT_READ_ADDR, RESULT_READ_CTL, TX_RISCV_RESET_CTL,
      DMA_MM2S_PL_ADDR, DMA_MM2S_PL_SIZE, DMA_S2MM_PL_ADDR, DMA_S2MM_PL_SIZE, PL_IRQ_TASK_NUM,
      ENGINE_CR, ENGINE_WA, ENGINE_WS, ENGINE_QA, ENGINE_QS, ENGINE_PA, ENGINE_PS,
      ENGINE_TA, ENGINE_TS, ENGINE_EA, ENGINE_ES] iounmap"

section \<open>State\<close>

text \<open>
  A DMA block and its mapping; \<open>user_addr\<close> is not written before the block is mapped. The
  blocks of \<open>kmalloc\<close> have names; the list of the device holds the names, first entry first.
  The global completion pointer is null, or points to a completion that was signalled so
  often, or to the stack of a call that has returned.
\<close>

record axitangxi_allocation =
  al_size :: u64
  al_user_addr :: "u64 option"
  al_kern_addr :: u64
  al_phys_addr :: u32
  al_dma_addr :: u64

datatype comp_ptr = No_completion | Armed nat | Stale

record driver =
  dr_dev_live :: bool
  dr_addr_list :: "nat list"
  dr_allocs :: "nat \<Rightarrow> axitangxi_allocation option"
  dr_next :: nat
  dr_regions :: "u64 list"
  dr_comp :: comp_ptr
  dr_log :: "hw_event list"

definition with_dev :: "driver \<Rightarrow> 'a res \<Rightarrow> 'a res" where
  "with_dev d r = (if dr_dev_live d then r else Inl UseAfterFree)"

definition emit :: "hw_event list \<Rightarrow> driver \<Rightarrow> driver" where
  "emit es d = d\<lparr> dr_log := dr_log d @ es \<rparr>"

definition ENOMEM :: int where [const_defs]: "ENOMEM = 12"
definition EFAULT :: int where [const_defs]: "EFAULT = 14"
definition EINVAL :: int where [const_defs]: "EINVAL = 22"
definition ENOTTY :: int where [const_defs]: "ENOTTY = 25"
definition ENOSYS :: int where [const_defs]: "ENOSYS = 38"
definition ETIME :: int where [const_defs]: "ETIME = 62"

section \<open>Interrupts\<close>

definition MM2S_PS_DONE :: u32 where [const_defs]: "MM2S_PS_DONE = 256"
definition S2MM_PS_DONE :: u32 where [const_defs]: "S2MM_PS_DONE = 257"
definition MM2S_PL_DONE :: u32 where [const_defs]: "MM2S_PL_DONE = 258"
definition S2MM_PL_DONE :: u32 where [const_defs]: "S2MM_PL_DONE = 259"
definition REQ_DATA_DONE :: u32 where [const_defs]: "REQ_DATA_DONE = 260"
definition READ_RESULT_DONE :: u32 where [const_defs]: "READ_RESULT_DONE = 261"
definition NETWORK_ACC_DONE :: u32 where [const_defs]: "NETWORK_ACC_DONE = 263"

definition complete_comp :: "driver \<Rightarrow> driver res" where
  "complete_comp d = (case dr_comp d of
       No_completion \<Rightarrow> Inl NullDeref
     | Armed n \<Rightarrow> Inr (d\<lparr> dr_comp := Armed (Suc n) \<rparr>)
     | Stale \<Rightarrow> Inl UseAfterFree)"

definition clean_irq :: "driver \<Rightarrow> driver" where
  "clean_irq d = emit [Writel 0 PL_IRQ_TASK_NUM] d"

text \<open>\<open>irq_TX\<close> is what \<open>get_irq\<close> reads from \<open>PL_IRQ_TASK_NUM\<close>.\<close>

definition irq_handler :: "u32 \<Rightarrow> driver \<Rightarrow> driver res" where
  "irq_handler irq_TX d =
     and_then
       (if irq_TX = MM2S_PS_DONE then Inr d
        else if irq_TX = S2MM_PS_DONE then complete_comp d
        else if irq_TX = MM2S_PL_DONE then Inr d
        else if irq_TX = S2MM_PL_DONE then complete_comp d
        else if irq_TX = REQ_DATA_DONE then Inr d
        else if irq_TX = READ_RESULT_DONE then Inr d
        else if irq_TX = NETWORK_ACC_DONE then complete_comp d
        else Inr d)
       (\<lambda>d. Inr (clean_irq d))"

text \<open>
  \<open>irqs\<close> are the interrupts between the installation of the completion, which lives on the
  stack, and the end of the wait.
\<close>

definition acc_complete :: "u32 list \<Rightarrow> driver \<Rightarrow> (int \<times> driver) res" where
  "acc_complete irqs d =
     and_then (for_each irqs irq_handler (d\<lparr> dr_comp := Armed 0 \<rparr>))
       (\<lambda>d. Inr (if dr_comp d = Armed 0 then - ETIME else 0, d\<lparr> dr_comp := Stale \<rparr>))"

section \<open>Mappings\<close>

text \<open>Opening a file stores the device pointer in it; closing it frees the device.\<close>

definition axitangxi_open :: "driver \<Rightarrow> int \<times> driver" where
  "axitangxi_open d = (0, d)"

definition axitangxi_release :: "driver \<Rightarrow> (int \<times> driver) res" where
  "axitangxi_release d =
     (if dr_dev_live d then Inr (0, d\<lparr> dr_dev_live := False \<rparr>) else Inl DoubleFree)"

fun find_phys :: "(nat \<Rightarrow> axitangxi_allocation option) \<Rightarrow> u64 \<Rightarrow> nat list \<Rightarrow> u32 res" where
  "find_phys allocs addr [] = Inr 0"
| "find_phys allocs addr (i # is) = (case allocs i of
       None \<Rightarrow> Inl UseAfterFree
     | Some a \<Rightarrow> (case al_user_addr a of
           None \<Rightarrow> Inl Uninit
         | Some u \<Rightarrow> if u = addr then Inr (al_phys_addr a) else find_phys allocs addr is))"

definition axitangxi_uservirt_to_phys :: "driver \<Rightarrow> u64 \<Rightarrow> u32 res" where
  "axitangxi_uservirt_to_phys d user_addr =
     with_dev d (find_phys (dr_allocs d) user_addr (dr_addr_list d))"

definition kfree :: "nat \<Rightarrow> driver \<Rightarrow> driver res" where
  "kfree i d = (if dr_allocs d i = None then Inl DoubleFree
     else Inr (d\<lparr> dr_allocs := (dr_allocs d)(i := None) \<rparr>))"

text \<open>\<open>dma_free_coherent\<close> with the device and the members of block \<open>i\<close>.\<close>

definition dma_free_block :: "nat \<Rightarrow> driver \<Rightarrow> driver res" where
  "dma_free_block i d = with_dev d (case dr_allocs d i of
       None \<Rightarrow> Inl UseAfterFree
     | Some a \<Rightarrow> if al_dma_addr a \<in> set (dr_regions d)
         then Inr (d\<lparr> dr_regions := remove1 (al_dma_addr a) (dr_regions d) \<rparr>)
         else Inl DoubleFree)"

definition axitangxi_vma_close :: "nat \<Rightarrow> driver \<Rightarrow> driver res" where
  "axitangxi_vma_close i d =
     and_then (dma_free_block i d)
       (\<lambda>d. and_then (if i \<in> set (dr_addr_list d)
              then Inr (d\<lparr> dr_addr_list := remove1 i (dr_addr_list d) \<rparr>) else Inl Uninit)
         (kfree i))"

text \<open>
  What the kernel answers a mapping with: whether \<open>kmalloc\<close> succeeds, what
  \<open>dma_alloc_coherent\<close> returns (kernel and bus address) and what \<open>dma_mmap_coherent\<close>
  returns.
\<close>

record mmap_env =
  me_start :: u64
  me_end :: u64
  me_kmalloc :: bool
  me_dma :: "(u64 \<times> u64) option"
  me_remap :: int

text \<open>
  The labels at the end stand in the wrong order: \<open>free_vma_data\<close> falls through into
  \<open>free_dma_region\<close>. A returned name is \<open>vma->vm_private_data\<close>.
\<close>

definition axitangxi_mmap :: "mmap_env \<Rightarrow> driver \<Rightarrow> (int \<times> nat option \<times> driver) res" where
  "axitangxi_mmap m d =
     (if \<not> me_kmalloc m then Inr (- ENOMEM, None, d)
      else let i = dr_next d; size = me_end m - me_start m;
               d = d\<lparr> dr_next := Suc i \<rparr>
        in with_dev d (case me_dma m of
             None \<Rightarrow> and_then (kfree i (d\<lparr> dr_allocs := (dr_allocs d)(i \<mapsto>
                 \<lparr> al_size = size, al_user_addr = None, al_kern_addr = 0, al_phys_addr = 0,
                   al_dma_addr = 0 \<rparr>) \<rparr>))
               (\<lambda>d. and_then (dma_free_block i d) (\<lambda>d. Inr (- ENOMEM, Some i, d)))
           | Some (kern, dma) \<Rightarrow>
               let a = \<lparr> al_size = size, al_user_addr = None, al_kern_addr = kern,
                     al_phys_addr = ucast dma, al_dma_addr = dma \<rparr>;
                   d = d\<lparr> dr_allocs := (dr_allocs d)(i \<mapsto> a), dr_regions := dma # dr_regions d \<rparr>
               in if me_remap m < 0
                  then and_then (dma_free_block i d) (\<lambda>d. Inr (me_remap m, Some i, d))
                  else Inr (0, Some i, d\<lparr>
                    dr_allocs := (dr_allocs d)(i \<mapsto> a\<lparr> al_user_addr := Some (me_start m) \<rparr>),
                    dr_addr_list := i # dr_addr_list d \<rparr>)))"

section \<open>Requests\<close>

text \<open>
  A transfer installs a completion on its stack for every burst, so the pointer is left
  dangling as soon as there was one. \<open>stack\<close> is what the transfer struct holds before its
  members are set. \<open>None\<close> is a request that never returns.
\<close>

definition after_bursts :: "hw_event list \<Rightarrow> driver \<Rightarrow> driver" where
  "after_bursts es d = emit es (if es = [] then d else d\<lparr> dr_comp := Stale \<rparr>)"

definition run_transfer :: "hw_event list option \<Rightarrow> driver \<Rightarrow> (int \<times> driver) res option" where
  "run_transfer r d = map_option (\<lambda>es. Inr (0, after_bursts es d)) r"

definition psddr_to_plddr ::
    "axitangxi_transfer \<Rightarrow> axitangxi_transaction \<Rightarrow> driver \<Rightarrow> (int \<times> driver) res option" where
  "psddr_to_plddr stack tr d =
     (case axitangxi_uservirt_to_phys d (tr_tx_data_ps_ptr tr) of
        Inl f \<Rightarrow> Some (Inl f)
      | Inr phys \<Rightarrow> run_transfer (axitangxi_psddr_plddr (stack\<lparr>
            at_tx_data_size := tr_tx_data_size tr, at_rx_data_size := tr_rx_data_size tr,
            at_burst_size := tr_burst_size tr, at_burst_count := tr_burst_count tr,
            at_burst_data := tr_burst_data tr, at_rx_data_pl_ptr := tr_rx_data_pl_ptr tr,
            at_tx_data_ps_ptr := phys, at_node := tr_node tr \<rparr>)) d)"

definition plddr_to_psddr ::
    "axitangxi_transfer \<Rightarrow> axitangxi_transaction \<Rightarrow> driver \<Rightarrow> (int \<times> driver) res option" where
  "plddr_to_psddr stack tr d =
     (case axitangxi_uservirt_to_phys d (tr_rx_data_ps_ptr tr) of
        Inl f \<Rightarrow> Some (Inl f)
      | Inr phys \<Rightarrow> run_transfer (axitangxi_plddr_psddr (stack\<lparr>
            at_tx_data_size := tr_tx_data_size tr, at_rx_data_size := tr_rx_data_size tr,
            at_burst_size := tr_burst_size tr, at_burst_count := tr_burst_count tr,
            at_burst_data := tr_burst_data tr, at_tx_data_pl_ptr := tr_tx_data_pl_ptr tr,
            at_rx_data_ps_ptr := phys, at_node := tr_node tr \<rparr>)) d)"

text \<open>
  The loopback sends to the PL addresses that equal its own PS address. The words of the
  user's buffers it reads before and after are only printed and left out.
\<close>

definition axitangxi_psddr_plddr_loopback ::
    "axitangxi_transfer \<Rightarrow> axitangxi_transaction \<Rightarrow> driver \<Rightarrow> (int \<times> driver) res option" where
  "axitangxi_psddr_plddr_loopback stack tr d =
     (case axitangxi_uservirt_to_phys d (tr_rx_data_ps_ptr tr) of
        Inl f \<Rightarrow> Some (Inl f)
      | Inr rx_phys \<Rightarrow> (case axitangxi_uservirt_to_phys d (tr_tx_data_ps_ptr tr) of
          Inl f \<Rightarrow> Some (Inl f)
        | Inr tx_phys \<Rightarrow>
          let x = stack\<lparr>
            at_tx_data_size := tr_tx_data_size tr, at_rx_data_size := tr_rx_data_size tr,
            at_burst_size := tr_burst_size tr, at_burst_count := tr_burst_count tr,
            at_burst_data := tr_burst_data tr, at_rx_data_ps_ptr := rx_phys,
            at_tx_data_pl_ptr := tx_phys, at_rx_data_pl_ptr := tx_phys,
            at_tx_data_ps_ptr := tx_phys, at_node := tr_node tr \<rparr>
          in Option.bind (axitangxi_psddr_plddr x) (\<lambda>es.
             Option.bind (axitangxi_plddr_psddr x) (\<lambda>fs.
               run_transfer (Some (es @ fs)) d))))"

text \<open>
  The request numbers: \<open>_IO\<close> and \<open>_IOR\<close> of \<^verbatim>\<open>linux/ioctl.h\<close> with the magic number \<open>'Y'\<close>; the
  structs are 72 and 44 bytes long on a 64-bit kernel.
\<close>

definition AXITANGXI_IOCTL_MAGIC :: u32 where [const_defs]: "AXITANGXI_IOCTL_MAGIC = 0x59"
definition AXITANGXI_NUM_IOCTLS :: u32 where [const_defs]: "AXITANGXI_NUM_IOCTLS = 10"
definition IOC_TYPE :: "u32 \<Rightarrow> u32" where "IOC_TYPE cmd = take_bit 8 (drop_bit 8 cmd)"
definition IOC_NR :: "u32 \<Rightarrow> u32" where "IOC_NR cmd = take_bit 8 cmd"
definition IOR :: "u32 \<Rightarrow> u32 \<Rightarrow> u32" where
  "IOR nr bytes = push_bit 30 2 OR push_bit 16 bytes OR push_bit 8 AXITANGXI_IOCTL_MAGIC OR nr"

definition CMD_PSDDR_PLDDR_LOOPBACK :: u32 where [const_defs]: "CMD_PSDDR_PLDDR_LOOPBACK = IOR 0 72"
definition CMD_PSDDR_TANGXI_LOOPBACK :: u32 where [const_defs]: "CMD_PSDDR_TANGXI_LOOPBACK = IOR 1 72"
definition CMD_NETWORK_ACC_CONFIG :: u32 where [const_defs]: "CMD_NETWORK_ACC_CONFIG = IOR 2 44"
definition CMD_NETWORK_ACC_START :: u32 where
  [const_defs]: "CMD_NETWORK_ACC_START = push_bit 8 AXITANGXI_IOCTL_MAGIC OR 3"
definition CMD_NETWORK_ACC_GET :: u32 where [const_defs]: "CMD_NETWORK_ACC_GET = IOR 4 44"
definition CMD_PSDDR_TO_PLDDR :: u32 where [const_defs]: "CMD_PSDDR_TO_PLDDR = IOR 5 72"
definition CMD_PLDDR_TO_PSDDR :: u32 where [const_defs]: "CMD_PLDDR_TO_PSDDR = IOR 6 72"

text \<open>
  What surrounds a call of \<open>ioctl\<close>: what \<open>copy_from_user\<close> reads (\<open>None\<close> when it fails), whether
  \<open>copy_to_user\<close> succeeds, the interrupts of the wait, the result registers, and what the
  structs on the stack hold at first. The result is the return value and what is copied to
  the user.
\<close>

record ioctl_env =
  ie_trans :: "axitangxi_transaction option"
  ie_reg :: "network_acc_reg option"
  ie_copy_out :: bool
  ie_irqs :: "u32 list"
  ie_readl :: "hw_reg \<Rightarrow> u32"
  ie_stack_reg :: network_acc_reg
  ie_stack_transfer :: axitangxi_transfer

definition acc_get :: "ioctl_env \<Rightarrow> network_acc_reg" where
  "acc_get e = (ie_stack_reg e)\<lparr> na_trans_addr := ie_readl e ENGINE_TA,
     na_trans_size := ie_readl e ENGINE_TS, na_entropy_addr := ie_readl e ENGINE_EA,
     na_entropy_size := ie_readl e ENGINE_ES \<rparr>"

definition with_trans :: "ioctl_env \<Rightarrow> driver \<Rightarrow>
    (axitangxi_transaction \<Rightarrow> driver \<Rightarrow> (int \<times> driver) res option) \<Rightarrow>
    (int \<times> network_acc_reg option \<times> driver) res option" where
  "with_trans e d f = (case ie_trans e of
       None \<Rightarrow> Some (Inr (- EFAULT, None, d))
     | Some tr \<Rightarrow> map_option (\<lambda>r. and_then r (\<lambda>(rc, d). Inr (rc, None, d))) (f tr d))"

definition axitangxi_ioctl :: "ioctl_env \<Rightarrow> u32 \<Rightarrow> driver \<Rightarrow>
    (int \<times> network_acc_reg option \<times> driver) res option" where
  "axitangxi_ioctl e cmd d =
     (if IOC_TYPE cmd \<noteq> AXITANGXI_IOCTL_MAGIC then Some (Inr (- ENOTTY, None, d))
      else if AXITANGXI_NUM_IOCTLS \<le> IOC_NR cmd then Some (Inr (- ENOTTY, None, d))
      else if cmd = CMD_PSDDR_PLDDR_LOOPBACK then
        with_trans e d (axitangxi_psddr_plddr_loopback (ie_stack_transfer e))
      else if cmd = CMD_PSDDR_TANGXI_LOOPBACK then
        with_trans e d (\<lambda>_ d. Some (Inr (0, d)))
      else if cmd = CMD_NETWORK_ACC_CONFIG then
        Some (case ie_reg e of
            None \<Rightarrow> Inr (- EFAULT, None, d)
          | Some iargs \<Rightarrow> Inr (0, None, emit (acc_config iargs) d))
      else if cmd = CMD_NETWORK_ACC_START then Some (Inr (0, None, emit acc_start d))
      else if cmd = CMD_NETWORK_ACC_GET then
        Some (and_then (acc_complete (ie_irqs e) d) (\<lambda>(_, d).
          if ie_copy_out e then Inr (0, Some (acc_get e), d) else Inr (- EFAULT, None, d)))
      else if cmd = CMD_PSDDR_TO_PLDDR then
        with_trans e d (psddr_to_plddr (ie_stack_transfer e))
      else if cmd = CMD_PLDDR_TO_PSDDR then
        with_trans e d (plddr_to_psddr (ie_stack_transfer e))
      else Some (Inr (- ENOTTY, None, d)))"

section \<open>Loading and unloading\<close>

text \<open>
  What is registered with the kernel. \<open>mo_global\<close> tells whether the global \<open>axitangxi_dev\<close>
  points to the device structure, \<open>mo_dev_live\<close> whether the structure is allocated.
\<close>

record module_t =
  mo_dev_live :: bool
  mo_global :: bool
  mo_drvdata :: bool
  mo_irq :: bool
  mo_region :: bool
  mo_cdev :: bool
  mo_class :: bool
  mo_device :: bool
  mo_mapped :: "hw_reg list"

text \<open>
  The results of the kernel calls in their order; \<open>in_class\<close> and \<open>in_device\<close> are error
  pointers, \<open>None\<close> when the call succeeds.
\<close>

record init_env =
  in_kmalloc :: bool
  in_mask :: int
  in_node :: bool
  in_reg :: int
  in_irq :: int
  in_region :: int
  in_cdev :: int
  in_class :: "int option"
  in_device :: "int option"

text \<open>The results are kept in a \<open>u32\<close>, so the comparisons with 0 are unsigned.\<close>

definition axitangxi_chrdev_init :: "init_env \<Rightarrow> module_t \<Rightarrow> int \<times> module_t" where
  "axitangxi_chrdev_init e m =
     (let m = m\<lparr> mo_global := True \<rparr> in
      if \<not> in_node e then (- EINVAL, m)
      else let ret = (word_of_int (in_reg e) :: u32) in
      if ret < 0 then (- EINVAL, m)
      else let ret = (word_of_int (in_irq e) :: u32);
               m = m\<lparr> mo_irq := (0 \<le> in_irq e) \<rparr> in
      if ret < 0 then (- EFAULT, m)
      else let m = m\<lparr> mo_region := (0 \<le> in_region e), mo_cdev := (0 \<le> in_cdev e) \<rparr> in
      case in_class e of
        Some err \<Rightarrow> (err, m)
      | None \<Rightarrow> let m = m\<lparr> mo_class := True \<rparr> in
        (case in_device e of
           Some err \<Rightarrow> (err, m)
         | None \<Rightarrow> (0, m\<lparr> mo_device := True, mo_mapped := reg_map (mo_mapped m) \<rparr>)))"

definition axitangxi_chrdev_exit :: "module_t \<Rightarrow> module_t res" where
  "axitangxi_chrdev_exit m =
     (if \<not> mo_dev_live m then Inl UseAfterFree
      else let m = m\<lparr> mo_irq := False \<rparr>
        in and_then (reg_unmap (mo_mapped m)) (\<lambda>mapped. Inr (m\<lparr> mo_mapped := mapped,
             mo_cdev := False, mo_region := False, mo_device := False, mo_class := False \<rparr>)))"

definition axitangxi_dma_init :: "init_env \<Rightarrow> int" where
  "axitangxi_dma_init e = in_mask e"

definition axitangxi_probe :: "init_env \<Rightarrow> module_t \<Rightarrow> int \<times> module_t" where
  "axitangxi_probe e m =
     (if \<not> in_kmalloc e then (- ENOMEM, m)
      else let m = m\<lparr> mo_dev_live := True \<rparr> in
      if axitangxi_dma_init e < 0 then (- ENOSYS, m\<lparr> mo_dev_live := False \<rparr>)
      else case axitangxi_chrdev_init e m of (rc, m) \<Rightarrow>
        if rc < 0 then (- ENOSYS, m\<lparr> mo_dev_live := False \<rparr>)
        else (0, m\<lparr> mo_drvdata := True \<rparr>))"

definition axitangxi_remove :: "module_t \<Rightarrow> module_t res" where
  "axitangxi_remove m = and_then (axitangxi_chrdev_exit m)
     (\<lambda>m. if mo_dev_live m then Inr (m\<lparr> mo_dev_live := False \<rparr>) else Inl DoubleFree)"

section \<open>The mappings of a session\<close>

text \<open>
  The abstract view of the device's list: the user address and the bus address of each
  block. A session is what happens while the first file is open; the allocator never hands
  a region out twice.
\<close>

definition mapped :: "driver \<Rightarrow> (u64 \<times> u64) list" where
  "mapped d = map (\<lambda>i. case dr_allocs d i of
       None \<Rightarrow> (0, 0)
     | Some a \<Rightarrow> (case al_user_addr a of None \<Rightarrow> 0 | Some u \<Rightarrow> u, al_dma_addr a)) (dr_addr_list d)"

definition init_driver :: driver where
  "init_driver = \<lparr> dr_dev_live = True, dr_addr_list = [], dr_allocs = (\<lambda>_. None), dr_next = 0,
     dr_regions = [], dr_comp = No_completion, dr_log = [] \<rparr>"

inductive session :: "driver \<Rightarrow> bool" where
  start: "session init_driver"
| map_block: "session d \<Longrightarrow> \<forall>kern dma. me_dma m = Some (kern, dma) \<longrightarrow> dma \<notin> set (dr_regions d) \<Longrightarrow>
    axitangxi_mmap m d = Inr (rc, i, d') \<Longrightarrow> session d'"
| unmap_block: "session d \<Longrightarrow> axitangxi_vma_close i d = Inr d' \<Longrightarrow> session d'"
| request: "session d \<Longrightarrow> axitangxi_ioctl e cmd d = Some (Inr (rc, r, d')) \<Longrightarrow> session d'"
| interrupt: "session d \<Longrightarrow> irq_handler n d = Inr d' \<Longrightarrow> session d'"

definition driver_inv :: "driver \<Rightarrow> bool" where
  "driver_inv d \<longleftrightarrow> dr_dev_live d \<and> distinct (dr_addr_list d) \<and> distinct (dr_regions d) \<and>
     (\<forall>i \<in> set (dr_addr_list d). i < dr_next d \<and>
        (\<exists>a u. dr_allocs d i = Some a \<and> al_user_addr a = Some u \<and>
           al_phys_addr a = ucast (al_dma_addr a))) \<and>
     (\<forall>i \<ge> dr_next d. dr_allocs d i = None) \<and>
     dr_regions d = map snd (mapped d)"

text \<open>The part of the state that concerns the mappings; requests and interrupts keep it.\<close>

definition memory ::
    "driver \<Rightarrow> bool \<times> nat list \<times> (nat \<Rightarrow> axitangxi_allocation option) \<times> nat \<times> u64 list" where
  "memory d = (dr_dev_live d, dr_addr_list d, dr_allocs d, dr_next d, dr_regions d)"

lemma memory_simps [simp]:
  "memory (emit es d) = memory d" "memory (d\<lparr> dr_comp := c \<rparr>) = memory d"
  "memory (after_bursts es d) = memory d" "memory (clean_irq d) = memory d"
  by (simp_all add: memory_def emit_def after_bursts_def clean_irq_def)

lemma memory_inv: "memory d' = memory d \<Longrightarrow> driver_inv d' \<longleftrightarrow> driver_inv d"
  by (simp add: memory_def driver_inv_def mapped_def)

lemma irq_handler_memory:
  assumes "irq_handler n d = Inr d'"
  shows "memory d' = memory d"
proof -
  have "complete_comp d = Inr e \<Longrightarrow> memory e = memory d" for e
    by (auto simp add: complete_comp_def split: comp_ptr.splits)
  then show ?thesis
    using assms by (auto simp add: irq_handler_def and_then_eq_Inr split: if_split_asm)
qed

lemma acc_complete_memory:
  assumes "acc_complete irqs d = Inr (rc, d')"
  shows "memory d' = memory d"
proof -
  from assms obtain e where e: "for_each irqs irq_handler (d\<lparr> dr_comp := Armed 0 \<rparr>) = Inr e"
    and d': "d' = e\<lparr> dr_comp := Stale \<rparr>"
    by (auto simp add: acc_complete_def and_then_eq_Inr)
  from e have "memory e = memory d"
    by (rule for_each_keeps [where I = "\<lambda>s. memory s = memory d"])
      (auto dest: irq_handler_memory)
  with d' show ?thesis by simp
qed

lemma run_transfer_memory: "run_transfer r d = Some (Inr (rc, d')) \<Longrightarrow> memory d' = memory d"
  by (auto simp add: run_transfer_def)

lemma with_trans_memory:
  assumes "with_trans e d f = Some (Inr (rc, r, d'))"
    and "\<And>t rc d'. f t d = Some (Inr (rc, d')) \<Longrightarrow> memory d' = memory d"
  shows "memory d' = memory d"
  using assms by (auto simp add: with_trans_def and_then_eq_Inr split: option.splits)

lemma transfer_memory:
  "psddr_to_plddr stack t d = Some (Inr (rc, d')) \<Longrightarrow> memory d' = memory d"
  "plddr_to_psddr stack t d = Some (Inr (rc, d')) \<Longrightarrow> memory d' = memory d"
  "axitangxi_psddr_plddr_loopback stack t d = Some (Inr (rc, d')) \<Longrightarrow> memory d' = memory d"
  by (auto simp add: psddr_to_plddr_def plddr_to_psddr_def axitangxi_psddr_plddr_loopback_def
      Let_def bind_eq_Some_conv split: sum.splits dest: run_transfer_memory)

lemma ioctl_memory:
  assumes "axitangxi_ioctl e cmd d = Some (Inr (rc, r, d'))"
  shows "memory d' = memory d"
proof -
  show ?thesis
    using assms unfolding axitangxi_ioctl_def
    by (auto simp add: and_then_eq_Inr split: if_split_asm option.splits prod.splits
        dest: transfer_memory acc_complete_memory intro: with_trans_memory)
qed

lemma mapped_Nil [simp]: "dr_addr_list d = [] \<Longrightarrow> mapped d = []"
  by (simp add: mapped_def)

lemma driver_inv_init: "driver_inv init_driver"
  by (simp add: driver_inv_def init_driver_def mapped_def)

text \<open>A mapping that succeeds adds one entry at the front; one that fails changes nothing.\<close>

lemma mmap_cases:
  assumes "axitangxi_mmap m d = Inr (rc, v, d')" and "dr_dev_live d"
  obtains (none) "rc < 0" "dr_addr_list d' = dr_addr_list d" "dr_regions d' = dr_regions d"
      "dr_dev_live d'" "dr_next d \<le> dr_next d'"
      "\<And>i. i < dr_next d \<Longrightarrow> dr_allocs d' i = dr_allocs d i"
      "\<And>i. dr_next d' \<le> i \<Longrightarrow> dr_allocs d' i = dr_allocs d i"
  | (mapped) kern dma a where "rc = 0" "v = Some (dr_next d)" "me_dma m = Some (kern, dma)"
      "al_user_addr a = Some (me_start m)" "al_dma_addr a = dma" "al_phys_addr a = ucast dma"
      "d' = d\<lparr> dr_next := Suc (dr_next d), dr_allocs := (dr_allocs d)(dr_next d \<mapsto> a),
         dr_regions := dma # dr_regions d, dr_addr_list := dr_next d # dr_addr_list d \<rparr>"
proof (cases "me_dma m")
  case None
  then show thesis
    using assms none by (auto simp add: axitangxi_mmap_def Let_def with_dev_def kfree_def
        dma_free_block_def ENOMEM_def split: if_split_asm)
next
  case (Some p)
  obtain kern dma where p: "p = (kern, dma)" by (cases p)
  consider "\<not> me_kmalloc m" | "me_kmalloc m" "me_remap m < 0" | "me_kmalloc m" "0 \<le> me_remap m"
    by linarith
  then show thesis
  proof cases
    case 1
    then show thesis using assms none by (auto simp add: axitangxi_mmap_def ENOMEM_def)
  next
    case 2
    then show thesis
      using assms Some p by (intro none) (auto simp add: axitangxi_mmap_def Let_def with_dev_def
          dma_free_block_def)
  next
    case 3
    then show thesis
      using assms Some p
      by (intro mapped [of kern dma "\<lparr> al_size = me_end m - me_start m,
            al_user_addr = Some (me_start m), al_kern_addr = kern, al_phys_addr = ucast dma,
            al_dma_addr = dma \<rparr>"]) (auto simp add: axitangxi_mmap_def Let_def with_dev_def)
  qed
qed

lemma mmap_keeps_inv:
  assumes "driver_inv d" and "axitangxi_mmap m d = Inr (rc, v, d')"
    and "\<forall>kern dma. me_dma m = Some (kern, dma) \<longrightarrow> dma \<notin> set (dr_regions d)"
  shows "driver_inv d'"
proof -
  from assms(1) have live: "dr_dev_live d" by (simp add: driver_inv_def)
  show ?thesis
    using assms(2) live
  proof (cases rule: mmap_cases)
    case none
    have "mapped d' = mapped d"
      using assms(1) none by (auto simp add: mapped_def driver_inv_def)
    then show ?thesis
      using assms(1) none by (fastforce simp add: driver_inv_def)
  next
    case (mapped kern dma a)
    have "dr_next d \<notin> set (dr_addr_list d)"
      using assms(1) by (auto simp add: driver_inv_def)
    moreover from this have "map snd (Driver.mapped d') = dma # map snd (Driver.mapped d)"
      using mapped by (auto simp add: Driver.mapped_def)
    ultimately show ?thesis
      using assms(1,3) mapped by (auto simp add: driver_inv_def less_Suc_eq)
  qed
qed

text \<open>Closing the mapping of a listed block succeeds and takes exactly that block out.\<close>

lemma vma_close_listed:
  assumes "driver_inv d" and "i \<in> set (dr_addr_list d)"
  shows "\<exists>a. dr_allocs d i = Some a \<and> axitangxi_vma_close i d = Inr (d\<lparr>
    dr_regions := remove1 (al_dma_addr a) (dr_regions d),
    dr_addr_list := remove1 i (dr_addr_list d), dr_allocs := (dr_allocs d)(i := None) \<rparr>)"
proof -
  from assms obtain a u where a: "dr_allocs d i = Some a" "al_user_addr a = Some u"
    by (auto simp add: driver_inv_def)
  then have "(u, al_dma_addr a) \<in> set (mapped d)"
    using assms(2) by (force simp add: mapped_def)
  then have "al_dma_addr a \<in> set (dr_regions d)"
    using assms(1) by (force simp add: driver_inv_def)
  then show ?thesis
    using a assms by (simp add: axitangxi_vma_close_def dma_free_block_def with_dev_def kfree_def
        driver_inv_def)
qed

lemma vma_close_only_listed:
  assumes "axitangxi_vma_close i d = Inr d'"
  shows "i \<in> set (dr_addr_list d)"
proof -
  from assms have "dr_addr_list e = dr_addr_list d" if "dma_free_block i d = Inr e" for e
    using that by (auto simp add: dma_free_block_def with_dev_def split: if_split_asm option.splits)
  then show ?thesis
    using assms by (fastforce simp add: axitangxi_vma_close_def and_then_eq_Inr split: if_split_asm)
qed

lemma mapped_remove:
  assumes "driver_inv d" and "i \<in> set (dr_addr_list d)" and "dr_allocs d i = Some a"
  shows "mapped (d\<lparr> dr_regions := R, dr_addr_list := remove1 i (dr_addr_list d),
      dr_allocs := (dr_allocs d)(i := None) \<rparr>) =
    filter (\<lambda>p. snd p \<noteq> al_dma_addr a) (mapped d)"
proof -
  define entry where "entry j = (case dr_allocs d j of
       None \<Rightarrow> (0, 0)
     | Some a \<Rightarrow> (case al_user_addr a of None \<Rightarrow> 0 | Some u \<Rightarrow> u, al_dma_addr a))" for j
  have m: "mapped d = map entry (dr_addr_list d)" by (simp add: mapped_def entry_def)
  have "distinct (dr_regions d)" and "distinct (dr_addr_list d)"
    and "dr_regions d = map (snd \<circ> entry) (dr_addr_list d)"
    using assms(1) by (auto simp add: driver_inv_def m)
  then have dist: "distinct (map (snd \<circ> entry) (dr_addr_list d))" by simp
  have e1: "mapped (d\<lparr> dr_regions := R, dr_addr_list := remove1 i (dr_addr_list d),
      dr_allocs := (dr_allocs d)(i := None) \<rparr>) = map entry (remove1 i (dr_addr_list d))"
    using \<open>distinct (dr_addr_list d)\<close> by (auto simp add: mapped_def entry_def)
  have "remove1 i (dr_addr_list d) = filter (\<lambda>j. j \<noteq> i) (dr_addr_list d)"
    using \<open>distinct (dr_addr_list d)\<close> by (simp add: distinct_remove1_removeAll removeAll_filter_not_eq)
      (metis)
  also have "\<dots> = filter (\<lambda>j. snd (entry j) \<noteq> snd (entry i)) (dr_addr_list d)"
    using dist assms(2) by (intro filter_cong) (auto simp add: distinct_map inj_on_def)
  finally have e2: "remove1 i (dr_addr_list d) = \<dots>" .
  have "snd (entry i) = al_dma_addr a" using assms(3) by (simp add: entry_def)
  then show ?thesis unfolding e1 by (simp only: e2 m filter_map o_def)
qed

lemma vma_close_keeps_inv:
  assumes "driver_inv d" and "axitangxi_vma_close i d = Inr d'"
  shows "driver_inv d'"
proof -
  from vma_close_only_listed [OF assms(2)] have i: "i \<in> set (dr_addr_list d)" .
  with vma_close_listed [OF assms(1) i] assms(2) obtain a where a: "dr_allocs d i = Some a"
    and d': "d' = d\<lparr> dr_regions := remove1 (al_dma_addr a) (dr_regions d),
      dr_addr_list := remove1 i (dr_addr_list d), dr_allocs := (dr_allocs d)(i := None) \<rparr>"
    by auto
  have r: "dr_regions d = map snd (mapped d)" "distinct (dr_regions d)"
    using assms(1) unfolding driver_inv_def by blast+
  have "map snd (filter (\<lambda>p. snd p \<noteq> x) ps) = filter (\<lambda>y. y \<noteq> x) (map snd ps)"
    for x :: u64 and ps :: "(u64 \<times> u64) list"
    by (simp add: filter_map o_def)
  then have "map snd (mapped d') = remove1 (al_dma_addr a) (dr_regions d)"
    unfolding d' mapped_remove [OF assms(1) i a] using r
    by (simp add: distinct_remove1_removeAll removeAll_filter_not_eq) (metis)
  then show ?thesis
    using assms(1) unfolding d' driver_inv_def
    by auto
qed

lemma session_inv: "session d \<Longrightarrow> driver_inv d"
proof (induction rule: session.induct)
  case (request d e cmd rc r d')
  then show ?case using ioctl_memory memory_inv by blast
next
  case (interrupt d n d')
  then show ?case using irq_handler_memory memory_inv by blast
qed (auto intro: driver_inv_init mmap_keeps_inv vma_close_keeps_inv)

lemma find_phys_map_of:
  assumes "\<forall>i \<in> set is. \<exists>a u. allocs i = Some a \<and> al_user_addr a = Some u \<and>
      al_phys_addr a = ucast (al_dma_addr a)"
  shows "find_phys allocs addr is = Inr (case map_of (map (\<lambda>i. case allocs i of
       None \<Rightarrow> (0, 0)
     | Some a \<Rightarrow> (case al_user_addr a of None \<Rightarrow> 0 | Some u \<Rightarrow> u, al_dma_addr a)) is) addr of
       None \<Rightarrow> 0 | Some dma \<Rightarrow> ucast dma)"
  using assms by (induction "is") auto

lemma uservirt_to_phys_refines:
  assumes "driver_inv d"
  shows "axitangxi_uservirt_to_phys d addr =
    Inr (case map_of (mapped d) addr of None \<Rightarrow> 0 | Some dma \<Rightarrow> ucast dma)"
  using assms
  by (simp add: axitangxi_uservirt_to_phys_def with_dev_def driver_inv_def mapped_def find_phys_map_of)

text \<open>Between calls no completion waits: every wait leaves its pointer behind, dangling.\<close>

definition idle :: "driver \<Rightarrow> bool" where
  "idle d \<longleftrightarrow> (\<forall>n. dr_comp d \<noteq> Armed n)"

lemma complete_comp_idle: "idle d \<Longrightarrow> \<exists>f. complete_comp d = Inl f"
  by (cases "dr_comp d") (simp_all add: idle_def complete_comp_def)

lemma idle_simps [simp]:
  "idle (emit es d) = idle d" "idle (d\<lparr> dr_comp := Stale \<rparr>)"
  "idle (d\<lparr> dr_addr_list := x \<rparr>) = idle d" "idle (d\<lparr> dr_allocs := y \<rparr>) = idle d"
  "idle (d\<lparr> dr_next := z \<rparr>) = idle d" "idle (d\<lparr> dr_regions := w \<rparr>) = idle d"
  by (simp_all add: idle_def emit_def)

lemma irq_handler_idle:
  assumes "idle d" and "irq_handler n d = Inr d'"
  shows "idle d'"
  using assms complete_comp_idle [OF assms(1)]
  by (auto simp add: irq_handler_def clean_irq_def and_then_eq_Inr split: if_split_asm)

lemma memory_operation_idle:
  "idle d \<Longrightarrow> axitangxi_vma_close i d = Inr d' \<Longrightarrow> idle d'"
  "idle d \<Longrightarrow> axitangxi_mmap m d = Inr (rc, v, d') \<Longrightarrow> idle d'"
proof -
  have "idle e' = idle e" if "dma_free_block i e = Inr e'" for i e e'
    using that by (auto simp add: dma_free_block_def with_dev_def split: if_split_asm option.splits)
  moreover have "idle e' = idle e" if "kfree i e = Inr e'" for i e e'
    using that by (auto simp add: kfree_def split: if_split_asm)
  ultimately show "idle d \<Longrightarrow> axitangxi_vma_close i d = Inr d' \<Longrightarrow> idle d'"
    and "idle d \<Longrightarrow> axitangxi_mmap m d = Inr (rc, v, d') \<Longrightarrow> idle d'"
    by (auto simp add: axitangxi_vma_close_def axitangxi_mmap_def Let_def with_dev_def
        and_then_eq_Inr split: if_split_asm option.splits)
qed

lemma run_transfer_idle: "idle d \<Longrightarrow> run_transfer r d = Some (Inr (rc, d')) \<Longrightarrow> idle d'"
  by (auto simp add: run_transfer_def after_bursts_def)

lemma transfer_idle:
  "idle d \<Longrightarrow> psddr_to_plddr stack t d = Some (Inr (rc, d')) \<Longrightarrow> idle d'"
  "idle d \<Longrightarrow> plddr_to_psddr stack t d = Some (Inr (rc, d')) \<Longrightarrow> idle d'"
  "idle d \<Longrightarrow> axitangxi_psddr_plddr_loopback stack t d = Some (Inr (rc, d')) \<Longrightarrow> idle d'"
  by (auto simp add: psddr_to_plddr_def plddr_to_psddr_def axitangxi_psddr_plddr_loopback_def
      Let_def bind_eq_Some_conv split: sum.splits dest: run_transfer_idle)

lemma with_trans_idle:
  assumes "with_trans e d f = Some (Inr (rc, r, d'))" and "idle d"
    and "\<And>t rc d'. f t d = Some (Inr (rc, d')) \<Longrightarrow> idle d'"
  shows "idle d'"
  using assms by (auto simp add: with_trans_def and_then_eq_Inr split: option.splits)

lemma acc_complete_idle: "acc_complete irqs d = Inr (rc, d') \<Longrightarrow> idle d'"
  by (auto simp add: acc_complete_def and_then_eq_Inr)

lemma ioctl_idle:
  assumes "idle d" and "axitangxi_ioctl e cmd d = Some (Inr (rc, r, d'))"
  shows "idle d'"
  using assms unfolding axitangxi_ioctl_def
  by (auto simp add: and_then_eq_Inr split: if_split_asm option.splits prod.splits
      dest: transfer_idle acc_complete_idle intro: with_trans_idle)

lemma idle_init: "idle init_driver"
  by (simp add: idle_def init_driver_def)

lemma session_idle: "session d \<Longrightarrow> idle d"
  by (induction rule: session.induct)
    (auto intro: idle_init irq_handler_idle memory_operation_idle ioctl_idle)

lemmas session_facts = session_inv session_idle

section \<open>Properties of the mappings\<close>

text \<open>A session with one block, at user address 0x7000 and bus address 0x10000000.\<close>

definition sample_mmap :: mmap_env where
  "sample_mmap = \<lparr> me_start = 0x7000, me_end = 0x8000, me_kmalloc = True,
     me_dma = Some (0xFFFF0000, 0x10000000), me_remap = 0 \<rparr>"

definition sample_driver :: driver where
  "sample_driver = init_driver\<lparr> dr_addr_list := [0], dr_next := 1, dr_regions := [0x10000000],
     dr_allocs := [0 \<mapsto> \<lparr> al_size = 0x1000, al_user_addr = Some 0x7000,
       al_kern_addr = 0xFFFF0000, al_phys_addr = 0x10000000, al_dma_addr = 0x10000000 \<rparr>] \<rparr>"

lemma sample_mmap_run: "axitangxi_mmap sample_mmap init_driver = Inr (0, Some 0, sample_driver)"
  by (simp add: axitangxi_mmap_def sample_mmap_def init_driver_def sample_driver_def with_dev_def
      Let_def)

lemma sample_session: "session sample_driver"
  by (rule map_block [OF start _ sample_mmap_run]) (simp add: init_driver_def)

lemma sample_mapped: "mapped sample_driver = [(0x7000, 0x10000000)]"
  by (simp add: sample_driver_def mapped_def init_driver_def)

text \<open>
  C15: as long as the first file is open, the translation of a user address never faults and
  implements the abstract table of mappings: it gives the low 32 bits of the bus address of
  the latest block mapped there, and 0 when there is none.
\<close>

theorem translation_implements_the_table:
  assumes "session d"
  shows "axitangxi_uservirt_to_phys d addr =
    Inr (case map_of (mapped d) addr of None \<Rightarrow> 0 | Some dma \<Rightarrow> ucast dma)"
  using assms by (intro uservirt_to_phys_refines session_inv)

theorem translation_implements_the_table_witness:
  "axitangxi_uservirt_to_phys sample_driver 0x7000 = Inr 0x10000000 \<and>
    axitangxi_uservirt_to_phys sample_driver 0x9000 = Inr 0"
  by (simp add: translation_implements_the_table [OF sample_session] sample_mapped)

text \<open>
  C16: as long as the first file is open, the DMA regions the driver holds are exactly those
  of the mappings in its list, each once, and closing any of these mappings succeeds and
  takes out that one mapping and its region.
\<close>

theorem mappings_own_the_regions:
  assumes "session d"
  shows "dr_regions d = map snd (mapped d) \<and> distinct (dr_regions d) \<and>
    (\<forall>i \<in> set (dr_addr_list d). \<exists>a d'. dr_allocs d i = Some a \<and>
       axitangxi_vma_close i d = Inr d' \<and> dr_allocs d' i = None \<and>
       mapped d' = filter (\<lambda>p. snd p \<noteq> al_dma_addr a) (mapped d))"
proof -
  from assms have inv: "driver_inv d" by (rule session_inv)
  then have "dr_regions d = map snd (mapped d) \<and> distinct (dr_regions d)"
    unfolding driver_inv_def by blast
  moreover have "\<exists>a d'. dr_allocs d i = Some a \<and> axitangxi_vma_close i d = Inr d' \<and>
      dr_allocs d' i = None \<and> mapped d' = filter (\<lambda>p. snd p \<noteq> al_dma_addr a) (mapped d)"
    if i: "i \<in> set (dr_addr_list d)" for i
    using vma_close_listed [OF inv i] mapped_remove [OF inv i] by fastforce
  ultimately show ?thesis by blast
qed

theorem mappings_own_the_regions_witness:
  "dr_regions sample_driver = [0x10000000] \<and>
    (\<exists>d'. axitangxi_vma_close 0 sample_driver = Inr d' \<and> mapped d' = [])"
  using mappings_own_the_regions [OF sample_session]
  by (force simp add: sample_mapped sample_driver_def)

text \<open>
  C29: unmapping a block right after it was mapped gives back every list, block and region
  the driver had before.
\<close>

theorem munmap_undoes_mmap:
  assumes "session d" and "axitangxi_mmap m d = Inr (0, Some i, d')"
    and "\<forall>kern dma. me_dma m = Some (kern, dma) \<longrightarrow> dma \<notin> set (dr_regions d)"
  shows "axitangxi_vma_close i d' = Inr (d\<lparr> dr_next := Suc (dr_next d) \<rparr>)"
proof -
  from assms(1) have inv: "driver_inv d" by (rule session_inv)
  then have "dr_dev_live d" and new: "dr_allocs d (dr_next d) = None"
    by (simp_all add: driver_inv_def)
  from assms(2) this(1) show ?thesis
  proof (cases rule: mmap_cases)
    case (mapped kern dma a)
    have "driver_inv d'" using assms(3) by (rule mmap_keeps_inv [OF inv assms(2)])
    from vma_close_listed [OF this, of i] mapped new show ?thesis
      by (auto simp add: fun_upd_idem)
  qed simp
qed

theorem munmap_undoes_mmap_witness:
  "axitangxi_vma_close 0 sample_driver = Inr (init_driver\<lparr> dr_next := 1 \<rparr>)"
  using munmap_undoes_mmap [OF start sample_mmap_run] by (simp add: init_driver_def)

text \<open>
  Both error paths of a mapping go wrong. When no DMA memory is left, the block is freed
  and then read again; when the remapping fails, the region is given back but the block
  stays allocated for ever, in no list.
\<close>

theorem mmap_error_paths:
  assumes "session d" and "me_kmalloc m"
  shows "(me_dma m = None \<longrightarrow> axitangxi_mmap m d = Inl UseAfterFree) \<and>
    (\<forall>p. me_dma m = Some p \<longrightarrow> me_remap m < 0 \<longrightarrow>
      (\<exists>d' i. axitangxi_mmap m d = Inr (me_remap m, Some i, d') \<and>
        dr_regions d' = dr_regions d \<and> dr_allocs d' i \<noteq> None \<and> i \<notin> set (dr_addr_list d')))"
proof -
  from assms(1) have inv: "driver_inv d" by (rule session_inv)
  then have "dr_dev_live d" and "dr_next d \<notin> set (dr_addr_list d)"
    by (auto simp add: driver_inv_def)
  then show ?thesis
    using assms(2)
    by (auto simp add: axitangxi_mmap_def Let_def with_dev_def kfree_def dma_free_block_def)
qed

theorem mmap_error_paths_witness:
  "axitangxi_mmap (sample_mmap\<lparr> me_dma := None \<rparr>) init_driver = Inl UseAfterFree \<and>
    (\<exists>d'. axitangxi_mmap (sample_mmap\<lparr> me_remap := - 11 \<rparr>) init_driver = Inr (- 11, Some 0, d'))"
  using mmap_error_paths [OF start, of "sample_mmap\<lparr> me_dma := None \<rparr>"]
    mmap_error_paths [OF start, of "sample_mmap\<lparr> me_remap := - 11 \<rparr>"]
  by (simp add: sample_mmap_def)
    (simp add: axitangxi_mmap_def Let_def with_dev_def dma_free_block_def init_driver_def)

text \<open>
  C39: closing a file frees the device structure itself, which the driver shares between all
  files. From then on closing another file frees it twice, and mapping, unmapping and every
  transfer use it after it was freed.
\<close>

theorem close_frees_the_shared_device:
  assumes "axitangxi_release d = Inr (rc, d')"
  shows "axitangxi_release d' = Inl DoubleFree \<and>
    (me_kmalloc m \<longrightarrow> axitangxi_mmap m d' = Inl UseAfterFree) \<and>
    axitangxi_vma_close i d' = Inl UseAfterFree \<and>
    psddr_to_plddr stack t d' = Some (Inl UseAfterFree) \<and>
    plddr_to_psddr stack t d' = Some (Inl UseAfterFree)"
proof -
  from assms have "\<not> dr_dev_live d'" by (auto simp add: axitangxi_release_def split: if_split_asm)
  then show ?thesis
    by (simp add: axitangxi_release_def axitangxi_mmap_def Let_def with_dev_def
        axitangxi_vma_close_def dma_free_block_def psddr_to_plddr_def plddr_to_psddr_def
        axitangxi_uservirt_to_phys_def)
qed

theorem close_frees_the_shared_device_witness:
  "axitangxi_mmap sample_mmap (init_driver\<lparr> dr_dev_live := False \<rparr>) = Inl UseAfterFree"
  using close_frees_the_shared_device [of init_driver 0 "init_driver\<lparr> dr_dev_live := False \<rparr>"
      sample_mmap]
  by (simp add: axitangxi_release_def) (simp add: init_driver_def sample_mmap_def)

section \<open>Properties of the requests\<close>

lemma commands_pass [simp]:
  "IOC_TYPE CMD_NETWORK_ACC_GET = AXITANGXI_IOCTL_MAGIC" "IOC_NR CMD_NETWORK_ACC_GET = 4"
  "IOC_TYPE CMD_NETWORK_ACC_START = AXITANGXI_IOCTL_MAGIC" "IOC_NR CMD_NETWORK_ACC_START = 3"
  "IOC_TYPE CMD_PSDDR_TO_PLDDR = AXITANGXI_IOCTL_MAGIC" "IOC_NR CMD_PSDDR_TO_PLDDR = 5"
  "IOC_TYPE CMD_PLDDR_TO_PSDDR = AXITANGXI_IOCTL_MAGIC" "IOC_NR CMD_PLDDR_TO_PSDDR = 6"
  by code_simp+

lemma commands_differ:
  "distinct [CMD_PSDDR_PLDDR_LOOPBACK, CMD_PSDDR_TANGXI_LOOPBACK, CMD_NETWORK_ACC_CONFIG,
     CMD_NETWORK_ACC_START, CMD_NETWORK_ACC_GET, CMD_PSDDR_TO_PLDDR, CMD_PLDDR_TO_PSDDR]"
  by code_simp

lemma num_ioctls: "AXITANGXI_NUM_IOCTLS = 10"
  by (simp add: const_defs)

lemma ioctl_transfer:
  "axitangxi_ioctl e CMD_PSDDR_TO_PLDDR d =
     with_trans e d (psddr_to_plddr (ie_stack_transfer e))"
  "axitangxi_ioctl e CMD_PLDDR_TO_PSDDR d =
     with_trans e d (plddr_to_psddr (ie_stack_transfer e))"
  using commands_differ by (auto simp add: axitangxi_ioctl_def num_ioctls)

lemma ioctl_acc:
  "axitangxi_ioctl e CMD_NETWORK_ACC_START d = Some (Inr (0, None, emit acc_start d))"
  "axitangxi_ioctl e CMD_NETWORK_ACC_GET d =
     Some (and_then (acc_complete (ie_irqs e) d) (\<lambda>(_, d).
       if ie_copy_out e then Inr (0, Some (acc_get e), d) else Inr (- EFAULT, None, d)))"
  using commands_differ by (auto simp add: axitangxi_ioctl_def num_ioctls)

lemma low32_ucast: "low32 (ucast (sz :: u32)) = unat sz"
proof -
  have "unat sz < 2 ^ LENGTH(32)" by (rule unsigned_less)
  then show ?thesis by (simp add: low32_def unsigned_ucast_eq take_bit_nat_eq_self)
qed

lemma library_bursts: "at_burst_data t = 16 * BURST_SIZE \<Longrightarrow> at_burst_size t = BURST_SIZE \<Longrightarrow>
    whole_beats t (2 ^ 20)"
  by (simp add: whole_beats_def BURST_SIZE_def)

text \<open>The physical address a user address stands for.\<close>

definition phys_of :: "driver \<Rightarrow> u64 \<Rightarrow> u32" where
  "phys_of d addr = (case map_of (mapped d) addr of None \<Rightarrow> 0 | Some dma \<Rightarrow> ucast dma)"

text \<open>
  C14: the library's write request and its read request return 0 for every size and move
  exactly the bytes between the block behind the user address and the PL address, rounded up
  to whole beats. An address that is not mapped stands for physical address 0.
\<close>

theorem library_requests_move_the_block:
  assumes "session d" and "ie_trans e = Some (init_trans stack addr pl sz)"
  shows "(\<exists>es d'. axitangxi_ioctl e CMD_PSDDR_TO_PLDDR d = Some (Inr (0, None, d')) \<and>
      dr_log d' = dr_log d @ es \<and>
      moved (DMA_MM2S_PS_ADDR, DMA_MM2S_PS_SIZE, DMA_S2MM_PL_ADDR, DMA_S2MM_PL_SIZE) es =
        map (\<lambda>i. (phys_of d addr + of_nat i, pl + of_nat i)) [0..<align16 (unat sz)]) \<and>
    (\<exists>es d'. axitangxi_ioctl e CMD_PLDDR_TO_PSDDR d = Some (Inr (0, None, d')) \<and>
      dr_log d' = dr_log d @ es \<and>
      moved (DMA_MM2S_PL_ADDR, DMA_MM2S_PL_SIZE, DMA_S2MM_PS_ADDR, DMA_S2MM_PS_SIZE) es =
        map (\<lambda>i. (pl + of_nat i, phys_of d addr + of_nat i)) [0..<align16 (unat sz)])"
proof -
  have phys: "axitangxi_uservirt_to_phys d addr = Inr (phys_of d addr)"
    unfolding phys_of_def using assms(1) by (intro uservirt_to_phys_refines session_inv)
  have log: "dr_log (after_bursts es d) = dr_log d @ es" for es
    by (simp add: after_bursts_def emit_def)
  show ?thesis
  proof
    let ?t = "ie_stack_transfer e\<lparr> at_tx_data_size := ucast sz, at_rx_data_size := ucast sz,
      at_burst_size := BURST_SIZE,
      at_burst_count := tr_burst_count (init_trans stack addr pl sz),
      at_burst_data := 16 * BURST_SIZE, at_rx_data_pl_ptr := pl,
      at_tx_data_ps_ptr := phys_of d addr, at_node := tr_node stack \<rparr>"
    show "\<exists>es d'. axitangxi_ioctl e CMD_PSDDR_TO_PLDDR d = Some (Inr (0, None, d')) \<and>
      dr_log d' = dr_log d @ es \<and>
      moved (DMA_MM2S_PS_ADDR, DMA_MM2S_PS_SIZE, DMA_S2MM_PL_ADDR, DMA_S2MM_PL_SIZE) es =
        map (\<lambda>i. (phys_of d addr + of_nat i, pl + of_nat i)) [0..<align16 (unat sz)]"
      using ps_to_pl.run_moves [OF library_bursts, of ?t] assms(2) phys
      by (auto simp add: ioctl_transfer with_trans_def psddr_to_plddr_def init_trans_def
          run_transfer_def log low32_ucast)
  next
    let ?t = "ie_stack_transfer e\<lparr> at_tx_data_size := ucast sz, at_rx_data_size := ucast sz,
      at_burst_size := BURST_SIZE,
      at_burst_count := tr_burst_count (init_trans stack addr pl sz),
      at_burst_data := 16 * BURST_SIZE, at_tx_data_pl_ptr := pl,
      at_rx_data_ps_ptr := phys_of d addr, at_node := tr_node stack \<rparr>"
    show "\<exists>es d'. axitangxi_ioctl e CMD_PLDDR_TO_PSDDR d = Some (Inr (0, None, d')) \<and>
      dr_log d' = dr_log d @ es \<and>
      moved (DMA_MM2S_PL_ADDR, DMA_MM2S_PL_SIZE, DMA_S2MM_PS_ADDR, DMA_S2MM_PS_SIZE) es =
        map (\<lambda>i. (pl + of_nat i, phys_of d addr + of_nat i)) [0..<align16 (unat sz)]"
      using pl_to_ps.run_moves [OF library_bursts, of ?t] assms(2) phys
      by (auto simp add: ioctl_transfer with_trans_def plddr_to_psddr_def init_trans_def
          run_transfer_def log low32_ucast)
  qed
qed

definition sample_ioctl :: ioctl_env where
  "sample_ioctl = \<lparr> ie_trans = Some (init_trans sample_transaction 0x7000 0x20000000 40),
     ie_reg = None, ie_copy_out = True, ie_irqs = [], ie_readl = (\<lambda>_. 0),
     ie_stack_reg = blank_reg, ie_stack_transfer = sample_transfer \<rparr>"

theorem library_requests_move_the_block_witness:
  "\<exists>es d'. axitangxi_ioctl sample_ioctl CMD_PSDDR_TO_PLDDR sample_driver =
      Some (Inr (0, None, d')) \<and> dr_log d' = es \<and>
    length (moved (DMA_MM2S_PS_ADDR, DMA_MM2S_PS_SIZE, DMA_S2MM_PL_ADDR, DMA_S2MM_PL_SIZE) es) = 48"
proof -
  have "ie_trans sample_ioctl = Some (init_trans sample_transaction 0x7000 0x20000000 40)"
    by (simp add: sample_ioctl_def)
  from library_requests_move_the_block [OF sample_session this]
  show ?thesis by (auto simp add: sample_driver_def init_driver_def align16_def)
qed

text \<open>
  An accelerator that has not answered in time is not reported: \<open>acc_complete\<close> fails
  with \<open>-ETIME\<close>, but the request returns 0. Whatever happened, it overwrites the user's whole
  register file; all but the four result registers comes from the kernel's stack.
\<close>

theorem acc_get_hides_the_timeout:
  assumes "ie_irqs e = []" and "ie_copy_out e"
  shows "\<exists>reg d'. acc_complete (ie_irqs e) d = Inr (- ETIME, d') \<and>
    axitangxi_ioctl e CMD_NETWORK_ACC_GET d = Some (Inr (0, Some reg, d')) \<and>
    na_weight_addr reg = na_weight_addr (ie_stack_reg e) \<and>
    na_weight_size reg = na_weight_size (ie_stack_reg e) \<and>
    na_trans_addr reg = ie_readl e ENGINE_TA \<and> na_trans_size reg = ie_readl e ENGINE_TS \<and>
    na_entropy_addr reg = ie_readl e ENGINE_EA \<and> na_entropy_size reg = ie_readl e ENGINE_ES"
  using assms by (simp add: ioctl_acc acc_complete_def acc_get_def)

theorem acc_get_hides_the_timeout_witness:
  "\<exists>reg d'. axitangxi_ioctl sample_ioctl CMD_NETWORK_ACC_GET sample_driver =
     Some (Inr (0, Some reg, d'))"
  using acc_get_hides_the_timeout [of sample_ioctl] by (force simp add: sample_ioctl_def)

text \<open>
  C38: a completion interrupt is only safe during a wait. Between the calls of a session the
  handler dereferences a null or a dangling completion pointer; so it does when the
  accelerator finishes after it was started but before its result is asked for.
\<close>

theorem interrupt_outside_a_wait_faults:
  assumes "session d" and "n \<in> {S2MM_PS_DONE, S2MM_PL_DONE, NETWORK_ACC_DONE}"
  shows "irq_handler n d \<in> {Inl NullDeref, Inl UseAfterFree} \<and>
    (\<exists>d'. axitangxi_ioctl e CMD_NETWORK_ACC_START d = Some (Inr (0, None, d')) \<and>
       irq_handler n d' \<in> {Inl NullDeref, Inl UseAfterFree})"
proof -
  have "irq_handler n d \<in> {Inl NullDeref, Inl UseAfterFree}" if "idle d" for d
    using assms(2) that
    by (cases "dr_comp d") (auto simp add: irq_handler_def complete_comp_def const_defs idle_def)
  with session_idle [OF assms(1)] show ?thesis by (simp add: ioctl_acc)
qed

theorem interrupt_outside_a_wait_faults_witness:
  "irq_handler 263 sample_driver \<in> {Inl NullDeref, Inl UseAfterFree}"
  using interrupt_outside_a_wait_faults [OF sample_session, of 263]
  by (simp add: NETWORK_ACC_DONE_def)

section \<open>Properties of loading and unloading\<close>

definition unloaded :: module_t where
  "unloaded = \<lparr> mo_dev_live = False, mo_global = False, mo_drvdata = False, mo_irq = False,
     mo_region = False, mo_cdev = False, mo_class = False, mo_device = False, mo_mapped = [] \<rparr>"

definition all_well :: init_env where
  "all_well = \<lparr> in_kmalloc = True, in_mask = 0, in_node = True, in_reg = 0, in_irq = 0,
     in_region = 0, in_cdev = 0, in_class = None, in_device = None \<rparr>"

lemma reg_unmap_reg_map: "reg_unmap (reg_map []) = Inr []"
  by (simp add: reg_unmap_def reg_map_def iounmap_def)

lemma all_registers_mapped: "r \<in> set (reg_map [])"
  by (cases r) (simp_all add: reg_map_def)

lemma register_windows:
  "distinct (map (\<lambda>r. drop_bit 2 (reg_addr r)) (reg_map []))"
  "list_all (\<lambda>r. take_bit 2 (reg_addr r) = 0) (reg_map [])"
  by code_simp+



text \<open>
  Two kinds of failing kernel calls are mishandled. A missing register description or a
  refused interrupt line goes unnoticed, because the result is compared as an unsigned
  number: the module loads without its interrupt. When the class or the device node cannot
  be created, the device structure is freed while the interrupt handler and the character
  device stay registered and the global pointer keeps pointing to it.
\<close>

theorem failing_probe_calls:
  assumes "in_kmalloc e" and "0 \<le> in_mask e" and "in_node e"
  shows "(in_class e = None \<longrightarrow> in_device e = None \<longrightarrow>
      (\<exists>m'. axitangxi_probe e m = (0, m') \<and> mo_irq m' = (0 \<le> in_irq e))) \<and>
    (\<forall>err. err < 0 \<longrightarrow> in_class e = Some err \<or> in_class e = None \<and> in_device e = Some err \<longrightarrow>
      (\<exists>m'. axitangxi_probe e m = (- ENOSYS, m') \<and> \<not> mo_dev_live m' \<and> mo_global m' \<and>
         mo_irq m' = (0 \<le> in_irq e) \<and> mo_cdev m' = (0 \<le> in_cdev e)))"
  using assms
  by (auto simp add: axitangxi_probe_def axitangxi_dma_init_def axitangxi_chrdev_init_def Let_def)

theorem failing_probe_calls_witness:
  "(\<exists>m'. axitangxi_probe (all_well\<lparr> in_irq := - 16 \<rparr>) unloaded = (0, m') \<and> \<not> mo_irq m') \<and>
   (\<exists>m'. axitangxi_probe (all_well\<lparr> in_device := Some (- 12) \<rparr>) unloaded = (- 38, m') \<and>
      \<not> mo_dev_live m' \<and> mo_irq m')"
  using failing_probe_calls [of "all_well\<lparr> in_irq := - 16 \<rparr>" unloaded]
    failing_probe_calls [of "all_well\<lparr> in_device := Some (- 12) \<rparr>" unloaded]
  by (force simp add: all_well_def ENOSYS_def)

end
