(* ===== verification/Transport.thy ===== *)
theory Transport
  imports Framing
begin

text \<open>
  The serial line side of \<^verbatim>\<open>transmission_protocol.c\<close>: \<open>bin_to_str\<close>, the command
  frame functions \<open>write_frame\<close>, \<open>send_frame\<close>, \<open>receive_frame\<close>, and the data frame
  functions \<open>write_data_frame\<close>, \<open>send_data_frame\<close>, \<open>send_data_frame_directly\<close>,
  \<open>receive_data_frames\<close>. The terminal is a record of what its next system calls will
  return; a theorem for every such record is a theorem for every behaviour of the line.
\<close>

section \<open>Hexadecimal dump\<close>

text \<open>
  \<open>bin_to_str\<close> prints a dump into a block of \<open>malloc\<close>; \<open>None\<close> is a byte of it that was
  not written. An allocation beyond \<open>PTRDIFF_MAX\<close> returns a null pointer. \<open>sprintf\<close> writes
  three characters and the terminating NUL, which the next call overwrites.
\<close>

definition hex_digit :: "nat \<Rightarrow> char" where
  "hex_digit d = ''0123456789abcdef'' ! d"

definition sprintf_02x :: "u8 \<Rightarrow> char option list" where
  "sprintf_02x b = map Some [hex_digit (unat b div 16), hex_digit (unat b mod 16), CHR '' '', CHR 0x00]"

definition bin_to_str :: "bytes \<Rightarrow> u64 \<Rightarrow> char option list res" where
  "bin_to_str bin sz =
     (let cap = unat (sz * 3 + 1) in
      if 2 ^ 63 \<le> cap then Inl NullDeref
      else for_each [0..<unat sz]
        (\<lambda>i str. and_then (get_at bin i) (\<lambda>b. blit str (3 * i) (sprintf_02x b)))
        (replicate cap None))"

text \<open>What \<open>%s\<close> prints: the characters up to the first NUL.\<close>

fun c_string :: "char option list \<Rightarrow> string res" where
  "c_string [] = Inl OutOfBounds"
| "c_string (None # cs) = Inl Uninit"
| "c_string (Some c # cs) =
     (if c = CHR 0x00 then Inr [] else and_then (c_string cs) (\<lambda>s. Inr (c # s)))"

definition log_dump :: "bytes \<Rightarrow> u64 \<Rightarrow> string res" where
  "log_dump bin sz = and_then (bin_to_str bin sz) c_string"

section \<open>The terminal\<close>

text \<open>
  \<open>rx_ready\<close>, \<open>tx_ready\<close>: whether the next calls of \<open>epoll_wait\<close> on the receiving and the
  sending descriptor report an event before their timeout. \<open>rx_reads\<close>: what the next calls of
  \<open>read\<close> find, \<open>None\<close> for an error, otherwise the bytes that are there (the call takes as
  many as it asked for and leaves the rest). \<open>tx_writes\<close>: what the next calls of
  \<open>write\<close> return, \<open>None\<close> for an error. A list that is used up stands for a silent line and for
  a sending side without trouble. \<open>n_total_frame\<close> is the global counter.
\<close>

record tty_t =
  rx_ready :: "bool list"
  rx_reads :: "bytes option list"
  tx_ready :: "bool list"
  tx_writes :: "nat option list"
  tx_bytes :: bytes
  n_total_frame :: u24

definition epoll_rx :: "tty_t \<Rightarrow> bool \<times> tty_t" where
  "epoll_rx tty = (case rx_ready tty of [] \<Rightarrow> (False, tty) | r # rs \<Rightarrow> (r, tty\<lparr> rx_ready := rs \<rparr>))"

definition epoll_tx :: "tty_t \<Rightarrow> bool \<times> tty_t" where
  "epoll_tx tty = (case tx_ready tty of [] \<Rightarrow> (True, tty) | r # rs \<Rightarrow> (r, tty\<lparr> tx_ready := rs \<rparr>))"

fun read_reads :: "nat \<Rightarrow> bytes option list \<Rightarrow> bytes option \<times> bytes option list" where
  "read_reads k [] = (Some [], [])"
| "read_reads k (None # rs) = (None, rs)"
| "read_reads k (Some bs # rs) =
     (Some (take k bs), if length bs \<le> k then rs else Some (drop k bs) # rs)"

definition write_tty :: "bytes \<Rightarrow> tty_t \<Rightarrow> nat option \<times> tty_t" where
  "write_tty bs tty = (case tx_writes tty of
       [] \<Rightarrow> (Some (length bs), tty\<lparr> tx_bytes := tx_bytes tty @ bs \<rparr>)
     | None # ws \<Rightarrow> (None, tty\<lparr> tx_writes := ws \<rparr>)
     | Some k # ws \<Rightarrow> (Some (min k (length bs)),
         tty\<lparr> tx_writes := ws, tx_bytes := tx_bytes tty @ take k bs \<rparr>))"

text \<open>
  The check of the result \<open>n\<close> of \<open>write\<close> and the log line of both senders. \<open>n < sizeof(temp)\<close>
  compares as unsigned: a short count ends the process, but \<open>-1\<close> passes the test and is handed
  to \<open>bin_to_str\<close> as \<open>SIZE_MAX\<close>.
\<close>

definition written :: "bytes \<Rightarrow> nat option \<Rightarrow> tty_t \<Rightarrow> (int \<times> tty_t) res" where
  "written img n tty = (case n of
       None \<Rightarrow> and_then (log_dump img (- 1)) (\<lambda>_. Inr (- 1, tty))
     | Some k \<Rightarrow> if k < length img then Inl ErrExit
         else and_then (log_dump img (of_nat k)) (\<lambda>_. Inr (int k, tty)))"

section \<open>Command frames\<close>

definition zero_frame :: frame_t where
  "zero_frame = \<lparr> f_address = 0, f_frame_type = 0, f_n_file = 0, f_n_frame = 0, f_status = 0,
     f_check_sum = 0 \<rparr>"

definition write_frame :: "frame_t \<Rightarrow> tty_t \<Rightarrow> (int \<times> tty_t) res" where
  "write_frame frame tty =
     (let img = frame_bytes (frame_to_wire frame); (n, tty) = write_tty img tty
      in written img n tty)"

definition send_frame :: "frame_t \<Rightarrow> tty_t \<Rightarrow> (int \<times> tty_t) res" where
  "send_frame frame tty =
     (case epoll_tx tty of (False, tty) \<Rightarrow> Inr (- 1, tty) | (True, tty) \<Rightarrow> write_frame frame tty)"

text \<open>The dump is made before the count is checked, with \<open>-1\<close> as \<open>SIZE_MAX\<close> again.\<close>

definition receive_frame :: "frame_t \<Rightarrow> tty_t \<Rightarrow> (int \<times> frame_t \<times> tty_t) res" where
  "receive_frame frame tty = (case epoll_rx tty of
       (False, tty) \<Rightarrow> Inr (- 1, frame, tty)
     | (True, tty) \<Rightarrow>
         let (n, rs) = read_reads sizeof_frame_t (rx_reads tty); tty = tty\<lparr> rx_reads := rs \<rparr>
         in case n of
              None \<Rightarrow> and_then (bin_to_str (replicate sizeof_frame_t 0) (- 1))
                (\<lambda>_. Inr (- 1, frame, tty))
            | Some temp \<Rightarrow> and_then (log_dump temp (of_nat (length temp)))
                (\<lambda>_. if length temp < sizeof_frame_t then Inr (- 2, frame, tty)
                   else if \<not> frame_accepted temp then Inr (- 3, frame, tty)
                   else Inr (int (length temp), frame_from_wire (bytes_frame temp), tty)))"

section \<open>Data frames\<close>

definition write_data_frame :: "data_frame_t \<Rightarrow> tty_t \<Rightarrow> (int \<times> tty_t) res" where
  "write_data_frame frame tty =
     (let img = data_frame_bytes (data_frame_to_wire frame); (n, tty) = write_tty img tty
      in written img n tty)"

definition send_data_frame ::
    "data_frame_t \<Rightarrow> tty_t \<Rightarrow> (int \<times> data_frame_t \<times> tty_t) res" where
  "send_data_frame frame tty =
     (case epoll_tx tty of
        (False, tty) \<Rightarrow> Inr (- 1, frame, tty)
      | (True, tty) \<Rightarrow>
          let frame = frame\<lparr> df_n_total_frame := n_total_frame tty \<rparr>;
              tty = tty\<lparr> n_total_frame := n_total_frame tty + 1 \<rparr>
          in and_then (write_data_frame frame tty) (\<lambda>(n, tty). Inr (n, frame, tty)))"

definition send_data_frame_directly :: "data_frame_t \<Rightarrow> tty_t \<Rightarrow> int \<times> tty_t" where
  "send_data_frame_directly frame tty =
     (case epoll_tx tty of
        (False, tty) \<Rightarrow> (- 1, tty)
      | (True, tty) \<Rightarrow> (case write_tty (data_frame_bytes frame) tty of
            (None, tty) \<Rightarrow> (- 1, tty)
          | (Some n, tty) \<Rightarrow> (int n, tty)))"

lemma remaining_decreases:
  "xs \<noteq> [] \<Longrightarrow> g + length xs < k \<Longrightarrow> k - (g + length xs) < k - g"
  by (cases xs) simp_all

text \<open>
  The \<open>do\<close>/\<open>while\<close> loop of \<open>receive_data_frames\<close>. \<open>got\<close> is the part of the zeroed buffer
  \<open>temp\<close> that has been written, \<open>n\<close> its length. The \<open>calloc\<close> of \<open>temp\<close>, whose result the code does not
  look at, is taken to succeed.
\<close>

definition COUNT :: nat where [const_defs]: "COUNT = 10"

function read_loop :: "nat \<Rightarrow> bytes \<Rightarrow> nat \<Rightarrow> bytes option list \<Rightarrow> bytes \<times> nat \<times> bytes option list"
where
  "read_loop len got count rs =
     (let (r, rs) = read_reads (len - length got) rs;
          bs = (case r of None \<Rightarrow> [] | Some bs \<Rightarrow> bs);
          count = (if 0 < length bs then 0 else Suc count);
          got = got @ bs
      in if length got < len \<and> count < COUNT then read_loop len got count rs
         else (got, count, rs))"
  by auto
termination
  by (relation "measures [\<lambda>(len, got, count, rs). len - length got,
      \<lambda>(len, got, count, rs). COUNT - count]")
     (auto split: if_splits simp add: remaining_decreases)

declare read_loop.simps [simp del]

text \<open>The loop over the slots of the picture; \<open>sum\<close> is a 16-bit counter.\<close>

definition accept_frames ::
    "bytes \<Rightarrow> nat \<Rightarrow> data_frame_t list \<Rightarrow> (u16 \<times> data_frame_t list) res" where
  "accept_frames temp n_frame frames =
     for_each [0..<n_frame]
       (\<lambda>i (sum, fs). and_then (get_at fs i)
          (\<lambda>f. let img = piece sizeof_data_frame_t i temp in
             if 0 < df_data_len f then Inr (sum, fs)
             else if \<not> data_frame_accepted img then Inr (sum + 1, fs)
             else Inr (sum, fs[i := data_frame_from_wire (bytes_data_frame img)])))
       (0, frames)"

definition receive_data_frames ::
    "data_frame_t list \<Rightarrow> frame_t \<Rightarrow> tty_t \<Rightarrow> (u16 \<times> data_frame_t list \<times> tty_t) res" where
  "receive_data_frames frames input_frame tty =
     (case epoll_rx tty of
        (False, tty) \<Rightarrow> Inr (- 1, frames, tty)
      | (True, tty) \<Rightarrow>
          let n = unat (f_n_frame input_frame);
              len = sizeof_data_frame_t * n;
              (got, count, rs) = read_loop len [] 0 (rx_reads tty);
              temp = got @ replicate (len - length got) 0
          in and_then (accept_frames temp n frames)
               (\<lambda>(sum, fs). Inr (sum, fs, tty\<lparr> rx_reads := rs \<rparr>)))"

section \<open>The dump\<close>

definition hex2 :: "u8 \<Rightarrow> string" where
  "hex2 b = [hex_digit (unat b div 16), hex_digit (unat b mod 16), CHR '' '']"

lemma hex_digit_not_nul: "d < 16 \<Longrightarrow> hex_digit d \<noteq> CHR 0x00"
proof -
  assume "d < 16"
  then have "d \<in> {0..<16}" by simp
  moreover have "\<forall>d \<in> {0..<16}. hex_digit d \<noteq> CHR 0x00"
    by (simp add: hex_digit_def atLeastLessThan_upt upt_rec_numeral upt_conv_Cons)
  ultimately show ?thesis by blast
qed

lemma hex2_not_nul: "c \<in> set (hex2 b) \<Longrightarrow> c \<noteq> CHR 0x00"
proof -
  have "unat b < 256" using unsigned_less [of b] by simp
  then have "unat b div 16 < 16" "unat b mod 16 < 16" by simp_all
  then show "c \<in> set (hex2 b) \<Longrightarrow> c \<noteq> CHR 0x00"
    using hex_digit_not_nul [of "unat b div 16"] hex_digit_not_nul [of "unat b mod 16"]
    by (auto simp add: hex2_def)
qed

lemma c_string_append:
  "CHR 0x00 \<notin> set s \<Longrightarrow> c_string (map Some s @ Some CHR 0x00 # cs) = Inr s"
  by (induction s) auto

lemma concat_hex2_nul: "CHR 0x00 \<notin> set (concat (map hex2 bs))"
  using hex2_not_nul by auto

lemma length_concat_hex2: "length (concat (map hex2 bs)) = 3 * length bs"
  by (induction bs) (simp_all add: hex2_def)

lemma bin_to_str_ok:
  assumes "length bin < 2 ^ 31"
  shows "bin_to_str bin (of_nat (length bin)) = Inr (map Some (concat (map hex2 bin))
    @ (if bin = [] then [None] else [Some CHR 0x00]))"
proof -
  let ?n = "length bin"
  let ?body = "\<lambda>i str. and_then (get_at bin i) (\<lambda>b. blit str (3 * i) (sprintf_02x b))"
  let ?I = "\<lambda>i str. str = map Some (concat (map hex2 (take i bin)))
    @ (if i = 0 then None else Some CHR 0x00) # replicate (3 * (?n - i)) None"
  have "of_nat ?n * 3 + 1 = (of_nat (3 * ?n + 1) :: u64)" by simp
  then have cap: "unat (of_nat ?n * 3 + 1 :: u64) = 3 * ?n + 1"
    using assms by (simp only:) (subst unat_of_nat_u64, auto)
  have "\<exists>s. for_each [0..<?n] ?body (replicate (3 * ?n + 1) None) = Inr s \<and> ?I ?n s"
  proof (rule for_each_invariant [where I = ?I])
    fix i str assume i: "0 \<le> i" "i < ?n" and I: "?I i str"
    let ?p = "map Some (concat (map hex2 (take i bin)))"
    have "length ?p = 3 * i" using i by (simp only: length_map length_concat_hex2) simp
    moreover have "replicate (3 * (?n - i)) None =
        replicate 3 None @ replicate (3 * (?n - Suc i)) (None :: char option)"
      using i by (simp flip: replicate_add)
    ultimately show "\<exists>s'. ?body i str = Inr s' \<and> ?I (Suc i) s'"
      using I i
      by (simp add: blit_def sprintf_02x_def take_Suc_conv_app_nth hex2_def)
  qed simp_all
  then show ?thesis
    using assms cap by (auto simp add: bin_to_str_def)
qed

lemma log_dump_ok:
  "0 < length bin \<Longrightarrow> length bin < 2 ^ 31 \<Longrightarrow>
     log_dump bin (of_nat (length bin)) = Inr (concat (map hex2 bin))"
  using c_string_append [OF concat_hex2_nul, of bin "[]"] bin_to_str_ok [of bin]
  by (auto simp add: log_dump_def)

lemma log_dump_empty: "log_dump [] 0 = Inl Uninit"
  using bin_to_str_ok [of "[]"] by (simp add: log_dump_def)

lemma log_dump_minus_1: "log_dump bin (- 1) = Inl NullDeref"
  by (simp add: log_dump_def bin_to_str_def)

lemma written_simps:
  "0 < length img \<Longrightarrow> length img < 2 ^ 31 \<Longrightarrow>
     written img (Some (length img)) tty = Inr (int (length img), tty)"
  "k < length img \<Longrightarrow> written img (Some k) tty = Inl ErrExit"
  "written img None tty = Inl NullDeref"
  by (simp_all add: written_def log_dump_ok log_dump_minus_1)

section \<open>The read loop\<close>

definition failing :: "bytes option \<Rightarrow> bool" where
  "failing r \<longleftrightarrow> r = None \<or> r = Some []"

definition stream :: "bytes option list \<Rightarrow> bytes" where
  "stream rs = concat (map (\<lambda>r. case r of None \<Rightarrow> [] | Some bs \<Rightarrow> bs) rs)"

text \<open>No run of \<open>COUNT\<close> failing reads, \<open>c\<close> of them having happened already.\<close>

fun steady :: "nat \<Rightarrow> bytes option list \<Rightarrow> bool" where
  "steady c [] = True"
| "steady c (r # rs) = (if failing r then Suc c < COUNT \<and> steady (Suc c) rs else steady 0 rs)"

lemma stream_simps [simp]:
  "stream [] = []" "stream (None # rs) = stream rs" "stream (Some bs # rs) = bs @ stream rs"
  by (simp_all add: stream_def)

lemma failing_simps [simp]: "failing None" "failing (Some bs) \<longleftrightarrow> bs = []"
  by (simp_all add: failing_def)

lemma read_loop_step:
  "read_loop len got count (r # rs) =
     (if failing r then
        (if length got < len \<and> Suc count < COUNT then read_loop len got (Suc count) rs
         else (got, Suc count, rs))
      else let k = len - length got; bs = take k (the r);
               rs = (if length (the r) \<le> k then rs else Some (drop k (the r)) # rs)
        in if bs = [] then
             (if length got < len \<and> Suc count < COUNT then read_loop len got (Suc count) rs
              else (got, Suc count, rs))
           else if length (got @ bs) < len then read_loop len (got @ bs) 0 rs
           else (got @ bs, 0, rs))"
  by (subst read_loop.simps) (cases r; auto simp add: Let_def COUNT_def)

text \<open>Whatever the pieces the line delivers, the loop assembles the stream they make.\<close>

lemma read_loop_stream:
  assumes "steady count rs" and "length got < len" and "len \<le> length got + length (stream rs)"
  shows "\<exists>rs'. read_loop len got count rs = (take len (got @ stream rs), 0, rs')"
  using assms
proof (induction rs arbitrary: got count)
  case (Cons r rs)
  show ?case
  proof (cases "failing r")
    case True
    then have "stream (r # rs) = stream rs" by (cases r) simp_all
    moreover have "Suc count < COUNT" "steady (Suc count) rs"
      using True Cons.prems(1) by simp_all
    ultimately show ?thesis
      using True Cons.prems(2,3) Cons.IH [of "Suc count" got] by (simp add: read_loop_step)
  next
    case False
    then obtain b bs where r: "r = Some (b # bs)"
      by (cases r rule: option.exhaust, simp, metis failing_simps(2) neq_Nil_conv)
    show ?thesis
    proof (cases "length got + length (b # bs) < len")
      case True
      with Cons.prems(2) r have "read_loop len got count (r # rs) = read_loop len (got @ b # bs) 0 rs"
        by (subst read_loop_step) (auto simp add: Let_def)
      moreover have "steady 0 rs" using Cons.prems(1) r by simp
      ultimately show ?thesis
        using Cons.IH [of 0 "got @ b # bs"] Cons.prems(3) r True by simp
    next
      case False
      moreover have "take (len - length got) (b # bs @ stream rs) = take (len - length got) (b # bs)"
        using False take_append [of "len - length got" "b # bs" "stream rs"] by simp
      moreover have "take (len - length got) (b # bs) \<noteq> []" using Cons.prems(2) by simp
      ultimately show ?thesis
        using Cons.prems(2) r by (subst read_loop_step) (auto simp add: Let_def)
    qed
  qed
qed simp

lemma read_loop_length:
  "length got \<le> len \<Longrightarrow> read_loop len got count rs = (got', count', rs') \<Longrightarrow>
     length got' \<le> len \<and> (length got' < len \<longrightarrow> COUNT \<le> count') \<and> take (length got) got' = got"
proof (induction len got count rs rule: read_loop.induct)
  case (1 len got count rs)
  obtain r rs1 where r: "read_reads (len - length got) rs = (r, rs1)" by force
  define bs where "bs = (case r of None \<Rightarrow> [] | Some bs \<Rightarrow> bs)"
  define c where "c = (if 0 < length bs then 0 else Suc count)"
  have "length bs \<le> len - length got"
    using r by (cases "(len - length got, rs)" rule: read_reads.cases) (auto simp add: bs_def)
  with 1(2) have le: "length (got @ bs) \<le> len" by simp
  have step: "read_loop len got count rs =
      (if length (got @ bs) < len \<and> c < COUNT then read_loop len (got @ bs) c rs1
       else (got @ bs, c, rs1))"
    by (subst read_loop.simps) (simp add: r bs_def c_def Let_def)
  show ?case
  proof (cases "length (got @ bs) < len \<and> c < COUNT")
    case True
    then have "read_loop len (got @ bs) c rs1 = (got', count', rs')"
      using step 1(3) by simp
    from 1(1) [OF refl r [symmetric] bs_def c_def refl True le this]
    have "length got' \<le> len \<and> (length got' < len \<longrightarrow> COUNT \<le> count')
        \<and> take (length (got @ bs)) got' = got @ bs"
      .
    then show ?thesis by (metis append_eq_conv_conj take_take min_def length_append le_add1)
  next
    case False
    with 1(3) step le show ?thesis by auto
  qed
qed

section \<open>The slots of a picture\<close>

text \<open>What one round of the second loop does to slot \<open>i\<close>, and when it counts the slot.\<close>

definition accept_slot :: "bytes \<Rightarrow> nat \<Rightarrow> data_frame_t \<Rightarrow> data_frame_t" where
  "accept_slot temp i f =
     (let img = piece sizeof_data_frame_t i temp in
      if df_data_len f = 0 \<and> data_frame_accepted img
      then data_frame_from_wire (bytes_data_frame img) else f)"

definition missed :: "bytes \<Rightarrow> data_frame_t list \<Rightarrow> nat \<Rightarrow> bool" where
  "missed temp fs i \<longleftrightarrow>
     df_data_len (fs ! i) = 0 \<and> \<not> data_frame_accepted (piece sizeof_data_frame_t i temp)"

lemma accept_frames_ok:
  assumes "n < 65536" and "n \<le> length fs"
  shows "accept_frames temp n fs =
    Inr (of_nat (length (filter (missed temp fs) [0..<n])),
      map (\<lambda>i. accept_slot temp i (fs ! i)) [0..<n] @ drop n fs)"
proof -
  let ?body = "\<lambda>i (sum, fs). and_then (get_at fs i)
    (\<lambda>f. let img = piece sizeof_data_frame_t i temp in
       if 0 < df_data_len f then Inr (sum, fs)
       else if \<not> data_frame_accepted img then Inr (sum + 1, fs)
       else Inr (sum, fs[i := data_frame_from_wire (bytes_data_frame img)]))"
  let ?gs = "\<lambda>i. map (\<lambda>i. accept_slot temp i (fs ! i)) [0..<i] @ drop i fs"
  let ?I = "\<lambda>i s. s = (of_nat (length (filter (missed temp fs) [0..<i])) :: u16, ?gs i)"
  have "\<exists>s. for_each [0..<n] ?body (0, fs) = Inr s \<and> ?I n s"
  proof (rule for_each_invariant [where I = ?I])
    fix i s assume i: "0 \<le> i" "i < n" and I: "?I i s"
    define gs where "gs = ?gs i"
    have nth: "gs ! i = fs ! i" "i < length gs" using i assms(2) by (simp_all add: gs_def nth_append)
    have upd: "?gs (Suc i) = gs[i := accept_slot temp i (fs ! i)]"
      using i assms(2) by (simp add: gs_def list_update_append flip: Cons_nth_drop_Suc)
    have same: "gs[i := fs ! i] = gs" using nth by (metis list_update_id)
    consider "0 < df_data_len (fs ! i)" | "missed temp fs i"
      | "df_data_len (fs ! i) = 0" "data_frame_accepted (piece sizeof_data_frame_t i temp)"
      by (auto simp add: missed_def word_gt_0)
    then show "\<exists>s'. ?body i s = Inr s' \<and> ?I (Suc i) s'"
    proof cases
      case 1
      then show ?thesis
        using I nth same unfolding upd gs_def [symmetric]
        by (simp add: Let_def missed_def accept_slot_def word_gt_0)
    next
      case 2
      then show ?thesis
        using I nth same unfolding upd gs_def [symmetric]
        by (simp add: Let_def missed_def accept_slot_def)
    next
      case 3
      then show ?thesis
        using I nth unfolding upd gs_def [symmetric]
        by (simp add: Let_def missed_def accept_slot_def)
    qed
  qed simp_all
  then show ?thesis by (simp add: accept_frames_def)
qed

section \<open>Receiving a picture\<close>

text \<open>The buffer \<open>temp\<close> after the read loop.\<close>

definition received_temp :: "nat \<Rightarrow> bytes option list \<Rightarrow> bytes" where
  "received_temp n rs = (case read_loop (sizeof_data_frame_t * n) [] 0 rs of
     (got, _, _) \<Rightarrow> got @ replicate (sizeof_data_frame_t * n - length got) 0)"

lemma length_received_temp: "length (received_temp n rs) = sizeof_data_frame_t * n"
proof -
  obtain got count rs' where r: "read_loop (sizeof_data_frame_t * n) [] 0 rs = (got, count, rs')"
    by (metis prod_cases3)
  then have "length got \<le> sizeof_data_frame_t * n"
    using read_loop_length [of "[]"] by fastforce
  with r show ?thesis by (simp add: received_temp_def)
qed

lemma received_temp_stream:
  assumes "0 < n" and "steady 0 rs" and "sizeof_data_frame_t * n \<le> length (stream rs)"
  shows "received_temp n rs = take (sizeof_data_frame_t * n) (stream rs)"
  using read_loop_stream [of 0 rs "[]" "sizeof_data_frame_t * n"] assms
  by (auto simp add: received_temp_def sizeof_data_frame_t_def)

lemma receive_data_frames_timeout:
  "epoll_rx tty = (False, tty') \<Longrightarrow> receive_data_frames fs frame tty = Inr (- 1, fs, tty')"
  by (simp add: receive_data_frames_def)

lemma receive_data_frames_ok:
  assumes "epoll_rx tty = (True, tty')" and n: "n = unat (f_n_frame frame)" and "n \<le> length fs"
  shows "\<exists>rs. receive_data_frames fs frame tty =
    Inr (of_nat (length (filter (missed (received_temp n (rx_reads tty')) fs) [0..<n])),
      map (\<lambda>i. accept_slot (received_temp n (rx_reads tty')) i (fs ! i)) [0..<n] @ drop n fs,
      tty'\<lparr> rx_reads := rs \<rparr>)"
proof -
  have "n < 65536" unfolding n by (rule unat_u16_less)
  with assms show ?thesis
    by (auto simp add: receive_data_frames_def Let_def received_temp_def accept_frames_ok
        split: prod.splits)
qed

lemma accept_slot_cases:
  "accept_slot temp i f = f \<or>
     df_data_len f = 0 \<and> data_frame_accepted (piece sizeof_data_frame_t i temp)
     \<and> accept_slot temp i f =
         data_frame_from_wire (bytes_data_frame (piece sizeof_data_frame_t i temp))"
  by (simp add: accept_slot_def Let_def)

text \<open>The image of a frame on the line.\<close>

abbreviation wire :: "data_frame_t \<Rightarrow> bytes" where
  "wire f \<equiv> data_frame_bytes (data_frame_to_wire f)"

lemma piece_take: "Suc i * k \<le> m \<Longrightarrow> piece k i (take m xs) = piece k i xs"
  by (simp add: piece_def drop_take)

lemma received_temp_piece:
  assumes "i < n" and "steady 0 rs" and "sizeof_data_frame_t * n \<le> length (stream rs)"
  shows "piece sizeof_data_frame_t i (received_temp n rs) = piece sizeof_data_frame_t i (stream rs)"
proof -
  have "Suc i * sizeof_data_frame_t \<le> n * sizeof_data_frame_t"
    using assms(1) by (intro mult_le_mono1) simp
  then have "Suc i * sizeof_data_frame_t \<le> sizeof_data_frame_t * n" by (simp only: mult.commute)
  with assms show ?thesis by (simp add: received_temp_stream piece_take)
qed

text \<open>A slot that has its frame keeps it; the others take theirs from the stream.\<close>

definition fill_slot :: "data_frame_t \<Rightarrow> data_frame_t \<Rightarrow> data_frame_t" where
  "fill_slot slot f = (if df_data_len slot = 0 then data_frame_received f else slot)"

lemma receive_clean_stream:
  assumes ready: "epoll_rx tty = (True, tty')" and steady: "steady 0 (rx_reads tty')"
    and stream: "stream (rx_reads tty') = concat (map wire fs) @ rest"
    and fs: "list_all sendable fs" "unat (f_n_frame frame) = length fs"
    and slots: "length slots = length fs"
  shows "\<exists>rs. receive_data_frames slots frame tty =
    Inr (0, map2 fill_slot slots fs, tty'\<lparr> rx_reads := rs \<rparr>)"
proof -
  let ?temp = "received_temp (length fs) (rx_reads tty')"
  have len: "sizeof_data_frame_t * length fs \<le> length (stream (rx_reads tty'))"
    unfolding stream using df.length_stream [OF fs(1)] by (simp add: mult.commute)
  have piece: "piece sizeof_data_frame_t i ?temp = wire (fs ! i)" if "i < length fs" for i
    using received_temp_piece [OF that steady len] stream df.piece_stream [OF fs(1) that, of rest]
    by simp
  then have acc: "data_frame_accepted (piece sizeof_data_frame_t i ?temp)" if "i < length fs" for i
    using that df.good_enc fs(1) by (simp add: list_all_length)
  then have "filter (missed ?temp slots) [0..<length fs] = []"
    by (simp add: filter_empty_conv missed_def)
  moreover have "accept_slot ?temp i (slots ! i) = fill_slot (slots ! i) (fs ! i)"
    if "i < length fs" for i
    using acc [OF that] piece [OF that] df.dec_enc [of "fs ! i"] fs(1) that
    by (auto simp add: accept_slot_def Let_def fill_slot_def list_all_length)
  then have "map (\<lambda>i. accept_slot ?temp i (slots ! i)) [0..<length fs] = map2 fill_slot slots fs"
    using slots by (intro nth_equalityI) simp_all
  ultimately show ?thesis
    using receive_data_frames_ok [OF ready refl, of frame slots] fs(2) slots by simp
qed

text \<open>A corrupted frame is neither stored nor counted as received; the others are.\<close>

lemma corrupted_data_frame_rejected:
  assumes "sendable f" and "corrupts (wire f) img"
  shows "\<not> data_frame_accepted img" and "length img = sizeof_data_frame_t"
proof -
  have len: "length (wire f) = sizeof_data_frame_t" using df.length_enc assms(1) .
  then show img: "length img = sizeof_data_frame_t" using assms(2) by (simp add: corrupts_def)
  have "crc_sealed (wire f)"
    using df.good_enc [OF assms(1)] data_frame_accepted_sealed [OF len] by simp
  then have "\<not> crc_sealed img"
    using crc.corruption_detected assms(2) len by (simp add: sizeof_data_frame_t_def)
  then show "\<not> data_frame_accepted img" using data_frame_accepted_sealed [OF img] by simp
qed

lemma receive_corrupted_stream:
  assumes ready: "epoll_rx tty = (True, tty')" and steady: "steady 0 (rx_reads tty')"
    and k: "k < length fs" and bad: "corrupts (wire (fs ! k)) bad"
    and stream: "stream (rx_reads tty') = concat ((map wire fs)[k := bad]) @ rest"
    and fs: "list_all sendable fs" "unat (f_n_frame frame) = length fs"
    and slots: "length slots = length fs" "\<And>f. f \<in> set slots \<Longrightarrow> df_data_len f = 0"
  shows "\<exists>rs. receive_data_frames slots frame tty =
    Inr (1, (map data_frame_received fs)[k := slots ! k], tty'\<lparr> rx_reads := rs \<rparr>)"
proof -
  let ?imgs = "(map wire fs)[k := bad]" and ?n = "length fs"
  let ?temp = "received_temp ?n (rx_reads tty')"
  have sk: "sendable (fs ! i)" if "i < ?n" for i using fs(1) that by (simp add: list_all_length)
  note rejected = corrupted_data_frame_rejected [OF sk [OF k] bad]
  have sizes: "\<forall>x \<in> set ?imgs. length x = sizeof_data_frame_t"
    using rejected(2) fs(1) df.length_enc
    by (auto simp add: list_all_iff dest!: subsetD [OF set_update_subset_insert])
  have len: "sizeof_data_frame_t * ?n \<le> length (stream (rx_reads tty'))"
    unfolding stream using length_concat_const [OF sizes] by (simp add: mult.commute)
  have piece: "piece sizeof_data_frame_t i ?temp = ?imgs ! i" if "i < ?n" for i
    using received_temp_piece [OF that steady len] stream piece_concat [OF sizes, of i rest] that
    by simp
  have good: "data_frame_accepted (?imgs ! i) \<longleftrightarrow> i \<noteq> k" if "i < ?n" for i
    using that rejected(1) df.good_enc [OF sk [OF that]] k by (auto simp add: nth_list_update)
  have blank: "df_data_len (slots ! i) = 0" if "i < ?n" for i using slots that by simp
  have "filter (missed ?temp slots) [0..<?n] = [k]"
    using k by (intro filter_upt_single) (auto simp add: missed_def piece good blank)
  moreover have "accept_slot ?temp i (slots ! i) = (map data_frame_received fs)[k := slots ! k] ! i"
    if "i < ?n" for i
    using piece [OF that] good [OF that] blank [OF that] df.dec_enc [OF sk [OF that]] that k
    by (auto simp add: accept_slot_def Let_def nth_list_update)
  then have "map (\<lambda>i. accept_slot ?temp i (slots ! i)) [0..<?n] =
      (map data_frame_received fs)[k := slots ! k]"
    by (intro nth_equalityI) simp_all
  ultimately show ?thesis
    using receive_data_frames_ok [OF ready refl, of frame slots] fs(2) slots(1) by simp
qed

lemma receive_overrun_fault:
  assumes "length slots < unat (f_n_frame frame)" and "fst (epoll_rx tty)"
  shows "receive_data_frames slots frame tty = Inl OutOfBounds"
proof -
  obtain tty' where tty': "epoll_rx tty = (True, tty')" using assms(2) by (cases "epoll_rx tty") auto
  let ?m = "length slots" and ?n = "unat (f_n_frame frame)"
  have m: "?m < 65536" using assms(1) unat_u16_less [of "f_n_frame frame"] by linarith
  have upt: "[0..<?n] = [0..<?m] @ ?m # [Suc ?m..<?n]"
    using assms(1) upt_add_eq_append [of 0 ?m "?n - ?m"] by (simp add: upt_conv_Cons)
  have "accept_frames temp ?n slots = Inl OutOfBounds" for temp
    using accept_frames_ok [OF m, of slots temp]
    unfolding accept_frames_def upt for_each_append by (simp add: get_at_def)
  then show ?thesis
    using tty' by (simp add: receive_data_frames_def Let_def split: prod.split)
qed

section \<open>Command frames on the line\<close>

lemma send_frame_ok:
  assumes "epoll_tx tty = (True, tty')" and "tx_writes tty' = []"
  shows "send_frame f tty =
    Inr (12, tty'\<lparr> tx_bytes := tx_bytes tty' @ frame_bytes (frame_to_wire f) \<rparr>)"
  using assms written_simps(1) [of "frame_bytes (frame_to_wire f)"]
  by (simp add: send_frame_def write_frame_def write_tty_def)

lemma receive_frame_image:
  assumes "epoll_rx tty = (True, tty')" and "rx_reads tty' = Some img # rs" and "length img = 12"
  shows "receive_frame g tty =
    Inr (if frame_accepted img then (12, frame_from_wire (bytes_frame img), tty'\<lparr> rx_reads := rs \<rparr>)
         else (- 3, g, tty'\<lparr> rx_reads := rs \<rparr>))"
  using assms log_dump_ok [of img] by (simp add: receive_frame_def sizeof_frame_t_def)

lemma corrupted_frame_rejected:
  assumes "corrupts (frame_bytes (frame_to_wire f)) img"
  shows "\<not> frame_accepted img" and "length img = 12"
proof -
  show img: "length img = 12" using assms by (simp add: corrupts_def)
  have "crc_sealed (frame_bytes (frame_to_wire f))"
    using fr.good_enc frame_accepted_sealed by simp
  then have "\<not> crc_sealed img" using crc.corruption_detected assms by simp
  then show "\<not> frame_accepted img" using frame_accepted_sealed [OF img] by simp
qed

section \<open>Properties\<close>

text \<open>The hex dump both directions of the line log never leaves its buffer of
  \<open>size * 3 + 1\<close> characters and is exactly two lower-case digits and a space per byte,
  for every message up to 2 GiB that is not empty.\<close>

theorem bin_to_str_dump:
  assumes "0 < length bin" and "length bin < 2 ^ 31"
  shows "\<exists>str. bin_to_str bin (of_nat (length bin)) = Inr str
    \<and> length str = 3 * length bin + 1
    \<and> c_string str = Inr (concat (map (\<lambda>b. [hex_digit (unat b div 16), hex_digit (unat b mod 16),
        CHR '' '']) bin))"
proof -
  have "c_string (map Some (concat (map hex2 bin)) @ [Some CHR 0x00]) = Inr (concat (map hex2 bin))"
    using c_string_append [OF concat_hex2_nul] .
  moreover have "length (concat (map hex2 bin)) = 3 * length bin" by (rule length_concat_hex2)
  ultimately show ?thesis
    using bin_to_str_ok [OF assms(2)] assms(1)
    by (simp add: hex2_def [abs_def] del: map_concat)
qed

lemma bin_to_str_dump_witness:
  "\<exists>str. bin_to_str [0x3a, 0x62] (of_nat (length [0x3a :: u8, 0x62])) = Inr str
    \<and> length str = 3 * length [0x3a :: u8, 0x62] + 1
    \<and> c_string str = Inr (concat (map (\<lambda>b. [hex_digit (unat b div 16), hex_digit (unat b mod 16),
        CHR '' '']) [0x3a :: u8, 0x62]))"
  by (rule bin_to_str_dump) simp_all

text \<open>A command frame sent over an idle line and read whole by the other end arrives:
  \<open>send_frame\<close> returns 12, \<open>receive_frame\<close> returns 12, and the receiver has the sender's
  address, type, file number, frame number and status.\<close>

theorem command_frame_delivered:
  assumes "epoll_tx sender = (True, sender')" and "tx_writes sender' = []"
    and "epoll_rx receiver = (True, receiver')"
    and "rx_reads receiver' = Some (frame_bytes (frame_to_wire f)) # rs"
  shows "\<exists>g. send_frame f sender =
        Inr (12, sender'\<lparr> tx_bytes := tx_bytes sender' @ frame_bytes (frame_to_wire f) \<rparr>)
      \<and> receive_frame old receiver = Inr (12, g, receiver'\<lparr> rx_reads := rs \<rparr>)
      \<and> f_address g = f_address f \<and> f_frame_type g = f_frame_type f
      \<and> f_n_file g = f_n_file f \<and> f_n_frame g = f_n_frame f \<and> f_status g = f_status f"
  using send_frame_ok [OF assms(1,2)] receive_frame_image [OF assms(3,4)]
    fr.good_enc [of f] fr.dec_enc [of f]
  by (simp add: frame_received_def)

definition idle_tty :: tty_t where
  "idle_tty = \<lparr> rx_ready = [], rx_reads = [], tx_ready = [], tx_writes = [], tx_bytes = [],
     n_total_frame = 0 \<rparr>"

definition query_frame :: frame_t where
  "query_frame = \<lparr> f_address = TP_ADDRESS_MASTER, f_frame_type = TP_FRAME_TYPE_QUERY,
     f_n_file = 1, f_n_frame = 0, f_status = 0, f_check_sum = 0 \<rparr>"

definition hearing_tty :: "bytes list \<Rightarrow> tty_t" where
  "hearing_tty bss = idle_tty\<lparr> rx_ready := [True], rx_reads := map Some bss \<rparr>"

lemma hearing_tty_simps [simp]:
  "epoll_rx (hearing_tty bss) = (True, hearing_tty bss\<lparr> rx_ready := [] \<rparr>)"
  "rx_reads (hearing_tty bss) = map Some bss"
  by (simp_all add: hearing_tty_def idle_tty_def epoll_rx_def)

lemma idle_tty_simps [simp]: "epoll_tx idle_tty = (True, idle_tty)" "tx_writes idle_tty = []"
  by (simp_all add: idle_tty_def epoll_tx_def)

lemma command_frame_delivered_witness:
  "\<exists>g. send_frame query_frame idle_tty =
        Inr (12, idle_tty\<lparr> tx_bytes := tx_bytes idle_tty @ frame_bytes (frame_to_wire query_frame) \<rparr>)
      \<and> receive_frame query_frame (hearing_tty [frame_bytes (frame_to_wire query_frame)]) =
          Inr (12, g, (hearing_tty [frame_bytes (frame_to_wire query_frame)])
            \<lparr> rx_ready := [] \<rparr>\<lparr> rx_reads := [] \<rparr>)
      \<and> f_address g = f_address query_frame \<and> f_frame_type g = f_frame_type query_frame
      \<and> f_n_file g = f_n_file query_frame \<and> f_n_frame g = f_n_frame query_frame
      \<and> f_status g = f_status query_frame"
  by (rule command_frame_delivered) simp_all

text \<open>A command frame hit on the line by a burst within two adjacent bytes or by an odd
  number of bit errors is refused with -3, and the caller's frame keeps its contents.\<close>

theorem corrupted_command_frame_refused:
  assumes "epoll_rx receiver = (True, receiver')" and "rx_reads receiver' = Some img # rs"
    and "corrupts (frame_bytes (frame_to_wire f)) img"
  shows "receive_frame old receiver = Inr (- 3, old, receiver'\<lparr> rx_reads := rs \<rparr>)"
  using receive_frame_image [OF assms(1,2)] corrupted_frame_rejected [OF assms(3)] by simp

lemma corrupted_command_frame_refused_witness:
  "receive_frame query_frame (hearing_tty [(frame_bytes (frame_to_wire query_frame))[1 := 9]]) =
     Inr (- 3, query_frame, (hearing_tty [(frame_bytes (frame_to_wire query_frame))[1 := 9]])
       \<lparr> rx_ready := [] \<rparr>\<lparr> rx_reads := [] \<rparr>)"
proof (rule corrupted_command_frame_refused)
  have "frame_bytes (frame_to_wire query_frame) ! 1 = 1"
    by (simp add: frame_bytes_def frame_to_wire_def query_frame_def Let_def const_defs)
  then show "corrupts (frame_bytes (frame_to_wire query_frame))
      ((frame_bytes (frame_to_wire query_frame))[1 := 9])"
    by (intro corrupts_update) simp_all
qed simp_all


definition sample_data_frame :: data_frame_t where
  "sample_data_frame = blank_data_frame\<lparr> df_header := tp_header, df_n_frame := 1, df_data_len := 3 \<rparr>"

lemma sendable_sample [simp]: "sendable sample_data_frame"
  by (simp add: sendable_def sample_data_frame_def wf_data_frame_def blank_data_frame_def
      tp_header_def)


text \<open>C22: a picture sent without line errors is received completely whatever the pieces
  \<open>read\<close> delivers it in, as long as fewer than ten reads in a row fail: the call
  returns 0 and every slot that was empty holds its frame.\<close>

theorem clean_stream_completes:
  assumes "epoll_rx tty = (True, tty')" and "steady 0 (rx_reads tty')"
    and "stream (rx_reads tty') = concat (map wire fs) @ rest"
    and "list_all sendable fs" and "unat (f_n_frame frame) = length fs"
    and "length slots = length fs"
  shows "\<exists>rs. receive_data_frames slots frame tty =
    Inr (0, map2 (\<lambda>slot f. if df_data_len slot = 0 then data_frame_received f else slot) slots fs,
      tty'\<lparr> rx_reads := rs \<rparr>)"
  using receive_clean_stream [OF assms] by (simp add: fill_slot_def)

lemma wire_not_Nil [simp]: "wire sample_data_frame \<noteq> []"
  using df.length_enc [OF sendable_sample] by (auto simp add: sizeof_data_frame_t_def)

lemma clean_stream_completes_witness:
  "\<exists>rs. receive_data_frames [blank_data_frame] (query_frame\<lparr> f_n_frame := 1 \<rparr>)
      (hearing_tty [[], wire sample_data_frame]) =
    Inr (0, map2 (\<lambda>slot f. if df_data_len slot = 0 then data_frame_received f else slot)
        [blank_data_frame] [sample_data_frame],
      hearing_tty [[], wire sample_data_frame]\<lparr> rx_ready := [] \<rparr>\<lparr> rx_reads := rs \<rparr>)"
  by (rule clean_stream_completes [where rest = "[]"]) (simp_all add: COUNT_def)

text \<open>C9: one data frame of a picture hit on the line (two adjacent bytes, or an odd number
  of bits): the receiver reports exactly one frame missing, keeps every other, and one clean
  repetition of the picture completes it with the frame of the repetition.\<close>

theorem corrupted_frame_retransmitted:
  assumes first: "epoll_rx tty = (True, tty')" "steady 0 (rx_reads tty')"
      "stream (rx_reads tty') = concat ((map wire fs)[k := bad]) @ rest"
    and hit: "k < length fs" "corrupts (wire (fs ! k)) bad"
    and again: "epoll_rx tty2 = (True, tty2')" "steady 0 (rx_reads tty2')"
      "stream (rx_reads tty2') = concat (map wire fs2) @ rest'"
    and frames: "list_all sendable fs" "list_all sendable fs2" "length fs2 = length fs"
      "list_all (\<lambda>f. df_data_len f \<noteq> 0) fs" "unat (f_n_frame frame) = length fs"
    and slots: "length slots = length fs" "list_all (\<lambda>f. df_data_len f = 0) slots"
  shows "\<exists>slots1 rs1 rs2.
      receive_data_frames slots frame tty = Inr (1, slots1, tty'\<lparr> rx_reads := rs1 \<rparr>)
    \<and> slots1 ! k = slots ! k
    \<and> receive_data_frames slots1 frame tty2 =
        Inr (0, (map data_frame_received fs)[k := data_frame_received (fs2 ! k)],
          tty2'\<lparr> rx_reads := rs2 \<rparr>)"
proof -
  let ?slots1 = "(map data_frame_received fs)[k := slots ! k]"
  obtain rs1 where r1: "receive_data_frames slots frame tty =
      Inr (1, ?slots1, tty'\<lparr> rx_reads := rs1 \<rparr>)"
    using receive_corrupted_stream [OF first(1,2) hit first(3) frames(1,5) slots(1)] slots(2)
    by (auto simp add: list_all_iff)
  obtain rs2 where r2: "receive_data_frames ?slots1 frame tty2 =
      Inr (0, map2 fill_slot ?slots1 fs2, tty2'\<lparr> rx_reads := rs2 \<rparr>)"
    using receive_clean_stream [OF again frames(2), of frame ?slots1] frames(3,5) by auto
  have "fill_slot (?slots1 ! i) (fs2 ! i) =
      (map data_frame_received fs)[k := data_frame_received (fs2 ! k)] ! i"
    if "i < length fs" for i
    using that hit(1) frames(3,4) slots
    by (auto simp add: fill_slot_def nth_list_update list_all_length data_frame_received_def)
  then have "map2 fill_slot ?slots1 fs2 =
      (map data_frame_received fs)[k := data_frame_received (fs2 ! k)]"
    using frames(3) by (intro nth_equalityI) simp_all
  with r1 r2 hit(1) show ?thesis by (intro exI [of _ ?slots1]) auto
qed

lemma sample_wire_byte: "wire sample_data_frame ! 0 = 0x3A"
  by (simp add: data_frame_bytes_def data_frame_to_wire_def sample_data_frame_def Let_def
      tp_header_def)

lemma wire_update_not_Nil [simp]: "(wire sample_data_frame)[0 := v] \<noteq> []"
  by simp

lemma corrupted_frame_retransmitted_witness:
  "\<exists>slots1 rs1 rs2.
      receive_data_frames [blank_data_frame] (query_frame\<lparr> f_n_frame := 1 \<rparr>)
        (hearing_tty [(wire sample_data_frame)[0 := 0]]) =
        Inr (1, slots1, (hearing_tty [(wire sample_data_frame)[0 := 0]])
          \<lparr> rx_ready := [] \<rparr>\<lparr> rx_reads := rs1 \<rparr>)
    \<and> slots1 ! 0 = [blank_data_frame] ! 0
    \<and> receive_data_frames slots1 (query_frame\<lparr> f_n_frame := 1 \<rparr>)
        (hearing_tty [wire sample_data_frame]) =
        Inr (0, (map data_frame_received [sample_data_frame])
            [0 := data_frame_received ([sample_data_frame] ! 0)],
          (hearing_tty [wire sample_data_frame])\<lparr> rx_ready := [] \<rparr>\<lparr> rx_reads := rs2 \<rparr>)"
proof (rule corrupted_frame_retransmitted [where rest = "[]" and rest' = "[]"])
  show "corrupts (wire ([sample_data_frame] ! 0)) ((wire sample_data_frame)[0 := 0])"
    using corrupts_update [of 0 "wire sample_data_frame" 0] sample_wire_byte by simp
  show "list_all (\<lambda>f. df_data_len f \<noteq> 0) [sample_data_frame]"
    by (simp add: sample_data_frame_def)
  show "list_all (\<lambda>f. df_data_len f = 0) [blank_data_frame]"
    by (simp add: blank_data_frame_def)
qed simp_all

text \<open>When the array has fewer slots than the frame header announces, every reception
  that does not time out runs past the end of the array.\<close>

theorem receive_data_frames_overflow:
  assumes "length slots < unat (f_n_frame frame)" and "fst (epoll_rx tty)"
  shows "receive_data_frames slots frame tty = Inl OutOfBounds"
  using assms by (rule receive_overrun_fault)

lemma receive_data_frames_overflow_witness:
  "receive_data_frames [blank_data_frame] (query_frame\<lparr> f_n_frame := 2 \<rparr>) (hearing_tty [[1]]) =
     Inl OutOfBounds"
  by (rule receive_data_frames_overflow) simp_all

text \<open>What the unsigned comparison \<open>n < sizeof(temp)\<close> lets through: a \<open>write\<close> or a
  \<open>read\<close> that fails with -1 is not reported but ends in a write through a null pointer in
  \<open>bin_to_str\<close>; only a short write reaches \<open>err\<close>.\<close>

theorem failing_io_is_not_reported:
  assumes "fst (epoll_tx a)" and "tx_writes a = None # ws"
    and "fst (epoll_tx b)" and "tx_writes b = Some k # ws'" and "k < sizeof_frame_t"
    and "fst (epoll_rx c)" and "rx_reads c = None # rs"
  shows "send_frame f a = Inl NullDeref \<and> send_frame f b = Inl ErrExit
    \<and> receive_frame f c = Inl NullDeref"
proof -
  obtain a' where a: "epoll_tx a = (True, a')" "tx_writes a' = None # ws"
    using assms(1,2) by (cases "epoll_tx a") (auto simp add: epoll_tx_def split: list.splits)
  obtain b' where b: "epoll_tx b = (True, b')" "tx_writes b' = Some k # ws'"
    using assms(3,4) by (cases "epoll_tx b") (auto simp add: epoll_tx_def split: list.splits)
  obtain c' where c: "epoll_rx c = (True, c')" "rx_reads c' = None # rs"
    using assms(6,7) by (cases "epoll_rx c") (auto simp add: epoll_rx_def split: list.splits)
  show ?thesis
    using a b c assms(5)
    by (simp add: send_frame_def write_frame_def write_tty_def written_simps receive_frame_def
        bin_to_str_def sizeof_frame_t_def)
qed

lemma failing_io_is_not_reported_witness:
  "send_frame query_frame (idle_tty\<lparr> tx_writes := [None] \<rparr>) = Inl NullDeref
    \<and> send_frame query_frame (idle_tty\<lparr> tx_writes := [Some 3] \<rparr>) = Inl ErrExit
    \<and> receive_frame query_frame (idle_tty\<lparr> rx_ready := [True], rx_reads := [None] \<rparr>) = Inl NullDeref"
  by (rule failing_io_is_not_reported [where ws = "[]" and ws' = "[]" and rs = "[]" and k = 3])
     (simp_all add: idle_tty_def epoll_tx_def epoll_rx_def sizeof_frame_t_def)

section \<open>Sending a picture\<close>

text \<open>The frames as \<open>send_data_frame\<close> numbers them, from the global counter on.\<close>

fun number_frames :: "u24 \<Rightarrow> data_frame_t list \<Rightarrow> data_frame_t list" where
  "number_frames c [] = []"
| "number_frames c (f # fs) = f\<lparr> df_n_total_frame := c \<rparr> # number_frames (c + 1) fs"

lemma length_number_frames [simp]: "length (number_frames c fs) = length fs"
  by (induction c fs rule: number_frames.induct) simp_all

lemma sendable_number [simp]: "sendable (f\<lparr> df_n_total_frame := c \<rparr>) \<longleftrightarrow> sendable f"
  by (simp add: sendable_def wf_data_frame_def)

lemma sendable_number_frames: "list_all sendable (number_frames c fs) \<longleftrightarrow> list_all sendable fs"
  by (induction c fs rule: number_frames.induct) simp_all

lemma payload_number_frames: "map payload (number_frames c fs) = map payload fs"
  by (induction c fs rule: number_frames.induct) (simp_all add: payload_def)

text \<open>The sending side has no trouble.\<close>

definition tx_idle :: "tty_t \<Rightarrow> bool" where
  "tx_idle tty \<longleftrightarrow> tx_ready tty = [] \<and> tx_writes tty = []"

lemma tx_idle_simps [simp]:
  "tx_idle (tty\<lparr> tx_bytes := bs \<rparr>) \<longleftrightarrow> tx_idle tty"
  "tx_idle (tty\<lparr> rx_reads := rs \<rparr>) \<longleftrightarrow> tx_idle tty"
  "tx_idle (tty\<lparr> rx_ready := bl \<rparr>) \<longleftrightarrow> tx_idle tty"
  "tx_idle (tty\<lparr> n_total_frame := n \<rparr>) \<longleftrightarrow> tx_idle tty"
  by (simp_all add: tx_idle_def)

lemma epoll_rx_tx_idle: "epoll_rx tty = (b, tty') \<Longrightarrow> tx_idle tty' \<longleftrightarrow> tx_idle tty"
  by (auto simp add: epoll_rx_def split: list.splits)

lemma epoll_rx_keeps: "epoll_rx tty = (b, tty') \<Longrightarrow>
    rx_reads tty' = rx_reads tty \<and> tx_bytes tty' = tx_bytes tty"
  by (auto simp add: epoll_rx_def split: list.splits)

lemma send_frame_idle:
  "tx_idle tty \<Longrightarrow> send_frame f tty =
     Inr (12, tty\<lparr> tx_bytes := tx_bytes tty @ frame_bytes (frame_to_wire f) \<rparr>)"
  using send_frame_ok [of tty tty f] by (simp add: tx_idle_def epoll_tx_def)

lemma send_data_frame_idle:
  assumes "tx_idle tty" and "sendable f"
  shows "send_data_frame f tty = Inr (534, f\<lparr> df_n_total_frame := n_total_frame tty \<rparr>,
    tty\<lparr> n_total_frame := n_total_frame tty + 1,
      tx_bytes := tx_bytes tty @ wire (f\<lparr> df_n_total_frame := n_total_frame tty \<rparr>) \<rparr>)"
proof -
  let ?f = "f\<lparr> df_n_total_frame := n_total_frame tty \<rparr>"
  have len: "length (wire ?f) = 534"
    using df.length_enc [of ?f] assms(2) by (simp add: sizeof_data_frame_t_def)
  with written_simps(1) [of "wire ?f"] show ?thesis
    using assms(1)
    by (simp add: send_data_frame_def tx_idle_def epoll_tx_def write_data_frame_def write_tty_def
        Let_def)
qed

lemma payload_received [simp]: "payload (data_frame_received f) = payload f"
  by (simp add: payload_def data_frame_received_def)

lemma fits_received [simp]: "fits (data_frame_received f) \<longleftrightarrow> fits f"
  by (simp add: fits_def data_frame_received_def)

lemma payloads_len_received: "payloads_len (map data_frame_received fs) = payloads_len fs"
  by (induction fs) (simp_all add: data_frame_received_def)

end
