(* ===== verification/Slave.thy ===== *)
theory Slave
  imports Transport PlLib
begin

text \<open>
  \<^verbatim>\<open>main.c\<close>, the program on the satellite: the state of the eight pictures, the encoding
  of a picture (\<open>process_data_frames\<close>, with the accelerator behind \<open>PlLib\<close>) and the loop
  that answers the master's commands. One pass of the receive loop, with the command it
  accepts, is one step.
\<close>

section \<open>Options\<close>

record opt_t =
  o_tty :: string
  o_out_dir :: string
  o_files :: "string list"
  o_number :: u32
  o_weight :: string
  o_quantization_coefficience :: string
  o_dry_run :: bool
  o_binary :: bool
  o_timeout :: int
  o_safe_time :: u32
  o_level :: "3 word"

text \<open>\<open>out_dir\<close> is what \<open>wordexp\<close> made of \<open>~/Downloads\<close>, \<open>None\<close> when it failed. \<open>LOG_NOTICE\<close> is 5.\<close>

definition init_opt :: "string option \<Rightarrow> opt_t" where
  "init_opt out_dir = \<lparr> o_tty = ''/dev/ttyPS1'',
     o_out_dir = (case out_dir of None \<Rightarrow> ''.'' | Some d \<Rightarrow> d), o_files = [], o_number = 0,
     o_weight = ''/usr/share/autostart/weight.bin'',
     o_quantization_coefficience = ''/usr/share/autostart/quantify.bin'',
     o_dry_run = False, o_binary = False, o_timeout = - 1, o_safe_time = 3, o_level = 5 \<rparr>"

text \<open>
  \<open>parse\<close> over the options \<open>getopt_long\<close> finds, each with its argument, and the operands
  it leaves; \<open>strtol\<close> is the C function with base 0. The verbosity is a 3-bit field.
\<close>

fun parse_options :: "(string \<Rightarrow> int) \<Rightarrow> (char \<times> string) list \<Rightarrow> opt_t \<Rightarrow> int \<times> opt_t" where
  "parse_options strtol [] opt = (0, opt)"
| "parse_options strtol ((c, optarg) # cs) opt =
     (if c = CHR ''V'' then (2, opt)
      else if c = CHR ''h'' then (1, opt)
      else if c = CHR ''v'' then parse_options strtol cs (opt\<lparr> o_level := o_level opt + 1 \<rparr>)
      else if c = CHR ''q'' then parse_options strtol cs (opt\<lparr> o_level := o_level opt - 1 \<rparr>)
      else if c = CHR ''b'' then parse_options strtol cs (opt\<lparr> o_binary := True \<rparr>)
      else if c = CHR ''d'' then parse_options strtol cs (opt\<lparr> o_dry_run := True \<rparr>)
      else if c = CHR ''t'' then parse_options strtol cs (opt\<lparr> o_tty := optarg \<rparr>)
      else if c = CHR ''T'' then parse_options strtol cs (opt\<lparr> o_timeout := strtol optarg \<rparr>)
      else if c = CHR ''S'' then
        parse_options strtol cs (opt\<lparr> o_safe_time := word_of_int (strtol optarg) \<rparr>)
      else if c = CHR ''w'' then parse_options strtol cs (opt\<lparr> o_weight := optarg \<rparr>)
      else if c = CHR ''c'' then
        parse_options strtol cs (opt\<lparr> o_quantization_coefficience := optarg \<rparr>)
      else if c = CHR ''o'' then parse_options strtol cs (opt\<lparr> o_out_dir := optarg \<rparr>)
      else (- 1, opt))"

definition parse_args ::
    "(string \<Rightarrow> int) \<Rightarrow> string option \<Rightarrow> (char \<times> string) list \<Rightarrow> string list \<Rightarrow> int \<times> opt_t" where
  "parse_args strtol out_dir options operands =
     (case parse_options strtol options (init_opt out_dir) of
        (r, opt) \<Rightarrow> if r = 0
          then (0, opt\<lparr> o_number := of_nat (length operands), o_files := operands \<rparr>)
          else (r, opt))"

section \<open>State\<close>

definition PICTURES_NUMBER_MAX :: nat where [const_defs]: "PICTURES_NUMBER_MAX = 8"
definition WEIGHT_ADDR :: u32 where [const_defs]: "WEIGHT_ADDR = 0x10000000"
definition PICTURE_BASE_ADDR :: u32 where [const_defs]: "PICTURE_BASE_ADDR = 0x20000000"

text \<open>A pointer is \<open>None\<close> when it is \<open>NULL\<close>, otherwise the contents of its block.\<close>

record data8_t =
  d8_addr :: "bytes option"
  d8_len :: nat

record data_frame_info_t =
  fi_addr :: "data_frame_t list option"
  fi_len :: u16
  fi_total_len :: u16

text \<open>
  The globals \<open>status\<close>, \<open>bit_streams\<close>, \<open>data_frame_infos\<close>, the local \<open>output_frame\<close> that
  lives as long as the loop, the terminal and the device.
\<close>

record slave_t =
  sl_status :: u16
  sl_bit_streams :: "data8_t list"
  sl_infos :: "data_frame_info_t list"
  sl_output :: frame_t
  sl_tty :: tty_t
  sl_dev :: pl_dev

text \<open>
  What surrounds the program: \<open>e_malloc n\<close> tells whether an allocation of \<open>n\<close> bytes succeeds,
  \<open>e_frames\<close> what a fresh block of so many frames holds, \<open>e_stack\<close>
  what an uninitialised transaction on the stack holds, \<open>e_codings\<close> is the entropy coder of
  \<^verbatim>\<open>coding.cpp\<close>, \<open>e_reg\<close> the registers \<open>pl_init\<close> has left in \<open>reg\<close>.
\<close>

record env_t =
  e_malloc :: "nat \<Rightarrow> bool"
  e_frames :: "nat \<Rightarrow> data_frame_t list"
  e_stack :: axitangxi_transaction
  e_codings :: "gmm_t option list list \<Rightarrow> i16 list list \<Rightarrow> nat list \<Rightarrow> int \<Rightarrow> bytes res"
  e_reg :: network_acc_reg
  e_dry_run :: bool

definition get_status :: "u32 \<Rightarrow> slave_t \<Rightarrow> u16" where
  "get_status n_file s =
     (if PICTURES_NUMBER_MAX \<le> unat n_file then TP_STATUS_UNRECEIVED
      else if 0 < d8_len (sl_bit_streams s ! unat n_file) then TP_STATUS_PROCESSED
      else let info = sl_infos s ! unat n_file in
        if fi_len info = fi_total_len info \<and> fi_total_len info \<noteq> 0 then TP_STATUS_PROCESSING
        else TP_STATUS_UNRECEIVED)"

section \<open>Encoding a picture\<close>

text \<open>
  One plane of the picture: its block is written as 16-bit samples, one for each byte of the
  plane. A write through \<open>MAP_FAILED\<close> is a fault.
\<close>

definition write_plane :: "u64 \<Rightarrow> bytes \<Rightarrow> pl_dev \<Rightarrow> pl_dev res" where
  "write_plane addr samples dev =
     (if samples = [] then Inr dev
      else if addr = MAP_FAILED then Inl OutOfBounds
      else Inr (dev\<lparr> pd_blocks := (pd_blocks dev)(addr := map_option
        (overlay (concat (map (\<lambda>b. le16 (ucast b)) samples))) (pd_blocks dev addr)) \<rparr>))"

text \<open>The three planes: two thirds and twice one sixth of the bytes; what is left is dropped.\<close>

definition make_yuv :: "bytes \<Rightarrow> pl_dev \<Rightarrow> ((u64 \<times> nat) list \<times> pl_dev) res" where
  "make_yuv addr dev =
     (let u_len = length addr div 6;
          (y, dev) = ps_mmap (u_len * 4 * 2) dev;
          (u, dev) = ps_mmap (u_len * 2) dev;
          (v, dev) = ps_mmap (u_len * 2) dev
      in and_then (write_plane y (take (4 * u_len) addr) dev)
        (\<lambda>dev. and_then (write_plane u (take u_len (drop (4 * u_len) addr)) dev)
          (\<lambda>dev. and_then (write_plane v (take u_len (drop (5 * u_len) addr)) dev)
            (\<lambda>dev. Inr ([(y, u_len * 4), (u, u_len), (v, u_len)], dev)))))"

text \<open>
  One channel through the accelerator. The result is the register file, the addresses of
  the transform and the entropy blocks, and the global \<open>status\<close>; \<open>trans\<close> and \<open>entropy\<close> start
  as null pointers.
\<close>

definition encode_channel :: "env_t \<Rightarrow> u64 \<times> nat \<Rightarrow> u16 \<times> network_acc_reg \<times> pl_dev \<Rightarrow>
    (u64 \<times> u64 \<times> u16 \<times> network_acc_reg \<times> pl_dev) res" where
  "encode_channel env plane st =
     (case (plane, st) of ((addr, len), status, reg, dev) \<Rightarrow>
      let reg = reg\<lparr> na_picture_addr := PICTURE_BASE_ADDR \<rparr>;
          (r, addr, dev) = pl_write (e_stack env) addr PICTURE_BASE_ADDR (of_nat (2 * len)) dev
      in if r = - 1 then Inl ErrExit
      else case munmap addr dev of
          (False, dev) \<Rightarrow> Inl ErrExit
        | (True, dev) \<Rightarrow>
          let reg = reg\<lparr> na_picture_size := of_nat (2 * len) \<rparr>;
              status = status OR TP_STATUS_NETWORK_ENCODING
          in and_then (pl_run reg dev)
            (\<lambda>dev. let status = status AND NOT TP_STATUS_NETWORK_ENCODING;
                       status = status OR TP_STATUS_NETWORK_ENCODING
               in and_then (pl_get (e_stack env) reg 0 0 dev)
                 (\<lambda>(reg, trans_addr, entropy_addr, dev).
                    Inr (trans_addr, entropy_addr, status AND NOT TP_STATUS_NETWORK_ENCODING,
                      reg, dev))))"

definition lens :: "nat list" where
  "lens = [
      32400,  32400,  32400,   32400,   129600,  129600, 129600, 518400,
      518400, 518400, 2073600, 2073600, 2073600, 8160,   8160,   8160,
      8160,   32640,  32640,   32640,   130560,  130560, 130560, 522240,
      522240, 522240, 8160,    8160,    8160,    8160,   32640,  32640,
      32640,  130560, 130560,  130560,  522240,  522240, 522240]"

fun halves :: "bytes \<Rightarrow> i16 list" where
  "halves (a # b # bs) = of_le16 a b # halves bs"
| "halves bs = []"

text \<open>
  The sub-bands of channel \<open>k\<close>: pointers into the mixtures and into the transform
  coefficients, at the running sum of \<open>lens\<close>. A pointer is what lies behind it.
\<close>

definition sub_bands :: "nat \<Rightarrow> gmm_t option list \<Rightarrow> i16 list \<Rightarrow> gmm_t option list list \<times> i16 list list" where
  "sub_bands k gmm coefficients =
     (let ptrs = map (\<lambda>i. sum_list (take i (drop (13 * k) lens))) [0..<13]
      in (map (\<lambda>ptr. drop ptr gmm) ptrs, map (\<lambda>ptr. drop ptr coefficients) ptrs))"

text \<open>The block of the mixtures comes from \<open>malloc\<close>: nothing in it has been written.\<close>

definition sizeof_gmm_t :: nat where [const_defs]: "sizeof_gmm_t = 18"

definition entropy_channel :: "env_t \<Rightarrow> nat \<Rightarrow> u64 \<times> u64 \<times> network_acc_reg \<Rightarrow> pl_dev \<Rightarrow>
    (gmm_t option list list \<times> i16 list list) res" where
  "entropy_channel env k channel dev =
     (case channel of (trans_addr, entropy_addr, reg) \<Rightarrow>
      let trans_len = unat (na_trans_size reg div 2); entropy_len = unat (na_entropy_size reg div 2);
          gmm_len = entropy_len div 9
      in if gmm_len \<noteq> trans_len then Inl AssertFail
         else if 0 < gmm_len \<and> \<not> e_malloc env (gmm_len * sizeof_gmm_t) then Inl NullDeref
         else and_then (entropy_to_gmm (halves (block dev entropy_addr)) (replicate gmm_len None) gmm_len)
           (\<lambda>gmm. Inr (sub_bands k gmm (halves (block dev trans_addr)))))"

text \<open>
  \<open>process_data_frames\<close>: the frames' bytes go into a fresh block (whose first contents do not
  matter), through the accelerator and the entropy coder into \<open>*p_addr\<close>, which is
  allocated only when it is \<open>NULL\<close>. The result is the length, \<open>*p_addr\<close>, \<open>status\<close> and the
  device.
\<close>

definition process_data_frames :: "env_t \<Rightarrow> data_frame_t list \<Rightarrow> u16 \<Rightarrow> bytes option \<Rightarrow>
    u16 \<Rightarrow> pl_dev \<Rightarrow> (nat \<times> bytes option \<times> u16 \<times> pl_dev) res" where
  "process_data_frames env frames n_frame p_addr status dev =
     and_then (data_frame_to_data_len frames n_frame) (\<lambda>yuv_len.
     and_then (if 0 < yuv_len \<and> \<not> e_malloc env yuv_len then Inl NullDeref
               else data_frames_to_data frames n_frame (replicate yuv_len 0)) (\<lambda>addr.
     and_then (make_yuv addr dev) (\<lambda>(yuv, dev).
     and_then (encode_channel env (yuv ! 0) (status, e_reg env, dev)) (\<lambda>(t0, e0, status, reg0, dev).
     and_then (encode_channel env (yuv ! 1) (status, reg0, dev)) (\<lambda>(t1, e1, status, reg1, dev).
     and_then (encode_channel env (yuv ! 2) (status, reg1, dev)) (\<lambda>(t2, e2, status, reg2, dev).
     let status = status OR TP_STATUS_ENTROPY_ENCODING in
     and_then (entropy_channel env 0 (t0, e0, reg0) dev) (\<lambda>(g0, d0).
     and_then (entropy_channel env 1 (t1, e1, reg1) dev) (\<lambda>(g1, d1).
     and_then (entropy_channel env 2 (t2, e2, reg2) dev) (\<lambda>(g2, d2).
     and_then (e_codings env (g0 @ g1 @ g2) (d0 @ d1 @ d2) lens 10000) (\<lambda>enc_data.
     let status = status AND NOT TP_STATUS_ENTROPY_ENCODING; len = length enc_data in
     case p_addr of
       None \<Rightarrow> if e_malloc env len then Inr (len, Some enc_data, status, dev) else Inl ErrExit
     | Some old \<Rightarrow> and_then (blit old 0 enc_data) (\<lambda>new. Inr (len, Some new, status, dev))))))))))))"

text \<open>With \<open>--dry-run\<close> the stream is a copy of the frames' bytes in a block of its own.\<close>

definition process_data_frames_dry_run :: "env_t \<Rightarrow> data_frame_t list \<Rightarrow> u16 \<Rightarrow> bytes option \<Rightarrow>
    u16 \<Rightarrow> pl_dev \<Rightarrow> (nat \<times> bytes option \<times> u16 \<times> pl_dev) res" where
  "process_data_frames_dry_run env frames n_frame p_addr status dev =
     (if e_dry_run env then
        and_then (data_frame_to_data_len frames n_frame) (\<lambda>len.
          if e_malloc env len then
            and_then (data_frames_to_data frames n_frame (replicate len 0))
              (\<lambda>addr. Inr (len, Some addr, status, dev))
          else if len = 0 then Inr (0, None, status, dev)
          else Inl NullDeref)
      else process_data_frames env frames n_frame p_addr status dev)"

section \<open>Commands\<close>

text \<open>
  The three handlers and the loop body. Every assignment to a member of \<open>output_frame\<close>
  outlives the command. A send that times out is only logged.
\<close>

definition reply :: "slave_t \<Rightarrow> (int \<times> slave_t) res" where
  "reply s = and_then (send_frame (sl_output s) (sl_tty s)) (\<lambda>(n, tty). Inr (n, s\<lparr> sl_tty := tty \<rparr>))"

definition handle_query :: "frame_t \<Rightarrow> slave_t \<Rightarrow> slave_t res" where
  "handle_query input s =
     (let n_file = f_n_file input;
          output = (sl_output s)\<lparr> f_frame_type := f_frame_type input, f_n_file := n_file,
            f_status := get_status n_file s,
            f_n_frame := (if unat n_file < PICTURES_NUMBER_MAX
              then fi_len (sl_infos s ! unat n_file) else 0) \<rparr>
      in and_then (reply (s\<lparr> sl_output := output \<rparr>)) (\<lambda>(_, s). Inr s))"

text \<open>
  The state after the reply to a SEND: a processed picture gives up its frames, and an array
  is allocated only when there is none.
\<close>

definition prepare_slots :: "env_t \<Rightarrow> frame_t \<Rightarrow> slave_t \<Rightarrow> data_frame_t list res" where
  "prepare_slots env input s =
     (let addr = (if get_status (f_n_file input) s = TP_STATUS_PROCESSED then None
                  else fi_addr (sl_infos s ! unat (f_n_file input)))
      in case addr of
           Some slots \<Rightarrow> Inr slots
         | None \<Rightarrow> if e_malloc env (unat (f_n_frame input) * sizeof_data_frame_t)
             then Inr (replicate (unat (f_n_frame input)) blank_data_frame) else Inl ErrExit)"

definition receive_picture :: "env_t \<Rightarrow> frame_t \<Rightarrow> slave_t \<Rightarrow> slave_t res" where
  "receive_picture env input s =
     (let i = unat (f_n_file input); n_frame = f_n_frame input in
      and_then (prepare_slots env input s) (\<lambda>slots.
      and_then (receive_data_frames slots input (sl_tty s)) (\<lambda>(sum, slots, tty).
      let s = s\<lparr> sl_tty := tty, sl_infos := (sl_infos s)[i := \<lparr> fi_addr = Some slots,
            fi_len = n_frame - sum, fi_total_len = n_frame \<rparr>] \<rparr>
      in if sum \<noteq> 0 then Inr s
         else and_then (process_data_frames_dry_run env slots n_frame
             (d8_addr (sl_bit_streams s ! i)) (sl_status s) (sl_dev s))
           (\<lambda>(len, addr, status, dev). Inr (s\<lparr> sl_status := status, sl_dev := dev,
              sl_bit_streams := (sl_bit_streams s)[i := \<lparr> d8_addr = addr, d8_len = len \<rparr>] \<rparr>)))))"

definition handle_send :: "env_t \<Rightarrow> frame_t \<Rightarrow> slave_t \<Rightarrow> slave_t res" where
  "handle_send env input s =
     (if PICTURES_NUMBER_MAX \<le> unat (f_n_file input) then Inr s
      else let output = (sl_output s)\<lparr> f_frame_type := f_frame_type input,
                 f_n_file := f_n_file input, f_n_frame := f_n_frame input \<rparr>
        in and_then (reply (s\<lparr> sl_output := output \<rparr>))
             (\<lambda>(n, s). if n \<le> 0 then Inr s else receive_picture env input s))"

text \<open>
  \<open>ret\<close> is not compared with 0, so a reply that timed out (-1) counts as sent. A stream with a
  length but no block would be taken for a file descriptor; no reachable state has one.
\<close>

definition send_all :: "data_frame_t list \<Rightarrow> tty_t \<Rightarrow> tty_t res" where
  "send_all frames = for_each frames (\<lambda>f tty. and_then (send_data_frame f tty)
     (\<lambda>(_, _, tty). Inr tty))"

definition handle_recv :: "env_t \<Rightarrow> frame_t \<Rightarrow> slave_t \<Rightarrow> slave_t res" where
  "handle_recv env input s =
     (if PICTURES_NUMBER_MAX \<le> unat (f_n_file input) then Inr s
      else let stream = sl_bit_streams s ! unat (f_n_file input); len = d8_len stream in
        if len = 0 then Inr s
        else let n_frame = of_nat (ceil_div len TP_FRAME_DATA_LEN_MAX) :: u16;
                 output = (sl_output s)\<lparr> f_frame_type := f_frame_type input,
                   f_n_file := f_n_file input, f_n_frame := n_frame \<rparr>;
                 s = s\<lparr> sl_output := output \<rparr>
          in case d8_addr stream of
               None \<Rightarrow> Inl Uninit
             | Some addr \<Rightarrow> and_then (alloc_data_frames
                 (if e_malloc env (unat n_frame * sizeof_data_frame_t)
                  then Some (e_frames env (unat n_frame)) else None)
                 n_frame (f_n_file input) (Buffer addr (of_nat len)) TP_FLAG_DATA (of_nat len))
               (\<lambda>r. case r of
                  None \<Rightarrow> Inr s
                | Some frames \<Rightarrow> and_then (reply s) (\<lambda>(ret, s).
                    if ret = 0 then Inr s
                    else and_then (send_all (take (unat n_frame) frames) (sl_tty s))
                      (\<lambda>tty. Inr (s\<lparr> sl_tty := tty \<rparr>)))))"

definition handle :: "env_t \<Rightarrow> frame_t \<Rightarrow> slave_t \<Rightarrow> slave_t res" where
  "handle env input s =
     (if f_frame_type input = TP_FRAME_TYPE_QUERY then handle_query input s
      else if f_frame_type input = TP_FRAME_TYPE_SEND then handle_send env input s
      else if f_frame_type input = TP_FRAME_TYPE_RECV then handle_recv env input s
      else Inr s)"

text \<open>One pass of the inner \<open>do\<close>/\<open>while\<close> loop, and the command when a frame has come.\<close>

definition slave_step :: "env_t \<Rightarrow> slave_t \<Rightarrow> slave_t res" where
  "slave_step env s =
     and_then (receive_frame zero_frame (sl_tty s)) (\<lambda>(n, input, tty).
       let s = s\<lparr> sl_tty := tty \<rparr> in
       if n \<le> 0 \<or> f_address input \<noteq> TP_ADDRESS_MASTER then Inr s else handle env input s)"

definition init_slave :: "tty_t \<Rightarrow> pl_dev \<Rightarrow> slave_t" where
  "init_slave tty dev = \<lparr> sl_status = 0,
     sl_bit_streams = replicate PICTURES_NUMBER_MAX \<lparr> d8_addr = None, d8_len = 0 \<rparr>,
     sl_infos = replicate PICTURES_NUMBER_MAX \<lparr> fi_addr = None, fi_len = 0, fi_total_len = 0 \<rparr>,
     sl_output = zero_frame\<lparr> f_address := TP_ADDRESS_SLAVE \<rparr>, sl_tty = tty, sl_dev = dev \<rparr>"

text \<open>The states the command loop goes through.\<close>

inductive reachable :: "env_t \<Rightarrow> tty_t \<Rightarrow> pl_dev \<Rightarrow> slave_t \<Rightarrow> bool" for env tty dev where
  start: "reachable env tty dev (init_slave tty dev)"
| step: "reachable env tty dev s \<Longrightarrow> slave_step env s = Inr s' \<Longrightarrow> reachable env tty dev s'"

section \<open>The abstract state of a picture\<close>

text \<open>
  What the comment at the top of \<^verbatim>\<open>main.c\<close> promises: a picture is unreceived, then
  processing, then processed.
\<close>

datatype picture_status = Unreceived | Processing | Processed

instantiation picture_status :: linorder
begin

definition less_eq_picture_status :: "picture_status \<Rightarrow> picture_status \<Rightarrow> bool" where
  "less_eq_picture_status a b \<longleftrightarrow> a = Unreceived \<or> b = Processed \<or> a = b"

definition less_picture_status :: "picture_status \<Rightarrow> picture_status \<Rightarrow> bool" where
  "less_picture_status a b \<longleftrightarrow> a \<noteq> b \<and> (a = Unreceived \<or> b = Processed)"

instance
proof
  fix a b c :: picture_status
  show "a < b \<longleftrightarrow> a \<le> b \<and> \<not> b \<le> a"
    by (cases a; cases b) (simp_all add: less_eq_picture_status_def less_picture_status_def)
  show "a \<le> a" by (simp add: less_eq_picture_status_def)
  show "a \<le> b \<Longrightarrow> b \<le> c \<Longrightarrow> a \<le> c"
    by (cases a; cases b; cases c) (simp_all add: less_eq_picture_status_def)
  show "a \<le> b \<Longrightarrow> b \<le> a \<Longrightarrow> a = b"
    by (cases a; cases b) (simp_all add: less_eq_picture_status_def)
  show "a \<le> b \<or> b \<le> a"
    by (cases a; cases b) (simp_all add: less_eq_picture_status_def)
qed

end

definition picture_status :: "nat \<Rightarrow> slave_t \<Rightarrow> picture_status" where
  "picture_status i s =
     (if 0 < d8_len (sl_bit_streams s ! i) then Processed
      else if fi_len (sl_infos s ! i) = fi_total_len (sl_infos s ! i)
        \<and> fi_total_len (sl_infos s ! i) \<noteq> 0 then Processing
      else Unreceived)"

definition status_code :: "picture_status \<Rightarrow> u16" where
  "status_code st = (case st of Unreceived \<Rightarrow> TP_STATUS_UNRECEIVED
     | Processing \<Rightarrow> TP_STATUS_PROCESSING | Processed \<Rightarrow> TP_STATUS_PROCESSED)"

lemma get_status_code:
  "unat n < PICTURES_NUMBER_MAX \<Longrightarrow> get_status n s = status_code (picture_status (unat n) s)"
  by (simp add: get_status_def picture_status_def status_code_def Let_def)

lemma get_status_processed:
  "unat n < PICTURES_NUMBER_MAX \<Longrightarrow>
     get_status n s = TP_STATUS_PROCESSED \<longleftrightarrow> picture_status (unat n) s = Processed"
  by (simp add: get_status_code status_code_def const_defs split: picture_status.split)

section \<open>What the commands leave alone\<close>

text \<open>Everything but the terminal and the reply frame, whose sender address is fixed.\<close>

definition keeps :: "slave_t \<Rightarrow> slave_t \<Rightarrow> bool" where
  "keeps s s' \<longleftrightarrow> sl_bit_streams s' = sl_bit_streams s \<and> sl_infos s' = sl_infos s
     \<and> sl_status s' = sl_status s \<and> sl_dev s' = sl_dev s
     \<and> f_address (sl_output s') = f_address (sl_output s)"

lemma keeps_refl [simp]: "keeps s s"
  by (simp add: keeps_def)

lemma keeps_tty [simp]: "keeps s (s'\<lparr> sl_tty := tty \<rparr>) \<longleftrightarrow> keeps s s'"
  by (simp add: keeps_def)

lemma keeps_tty_left [simp]: "keeps (s\<lparr> sl_tty := tty \<rparr>) s' \<longleftrightarrow> keeps s s'"
  by (simp add: keeps_def)

lemma reply_keeps: "reply s = Inr (n, s') \<Longrightarrow> keeps s s'"
  by (auto simp add: reply_def and_then_eq_Inr keeps_def)

lemma keeps_trans: "keeps s s' \<Longrightarrow> keeps s' s'' \<Longrightarrow> keeps s s''"
  by (simp add: keeps_def)

lemma keeps_output:
  "f_address out = f_address (sl_output s) \<Longrightarrow> keeps (s\<lparr> sl_output := out \<rparr>) s' \<longleftrightarrow> keeps s s'"
  by (simp add: keeps_def)

lemma handle_query_keeps:
  assumes "handle_query input s = Inr s'"
  shows "keeps s s'"
  using assms by (auto simp add: handle_query_def Let_def and_then_eq_Inr keeps_output
      dest!: reply_keeps)

lemma handle_recv_keeps:
  assumes "handle_recv env input s = Inr s'"
  shows "keeps s s'"
proof -
  define out where "out = (sl_output s)\<lparr> f_frame_type := f_frame_type input,
    f_n_file := f_n_file input, f_n_frame := of_nat (ceil_div
      (d8_len (sl_bit_streams s ! unat (f_n_file input))) TP_FRAME_DATA_LEN_MAX) \<rparr>"
  then have "f_address out = f_address (sl_output s)" by simp
  note out = keeps_output [OF this]
  show ?thesis
    using assms out out [of "s\<lparr> sl_output := out \<rparr>"] unfolding handle_recv_def Let_def out_def [symmetric]
    by (auto simp add: and_then_eq_Inr split: option.splits if_splits dest!: reply_keeps)
qed

section \<open>The invariant of the command loop\<close>

text \<open>
  A stream has at least as many bytes as its length says; a picture without an array has
  received nothing; frames in the arrays have the struct's layout; replies carry the
  slave's address.
\<close>

definition stream_ok :: "data8_t \<Rightarrow> bool" where
  "stream_ok st = (case d8_addr st of None \<Rightarrow> d8_len st = 0 | Some b \<Rightarrow> d8_len st \<le> length b)"

definition info_ok :: "data_frame_info_t \<Rightarrow> bool" where
  "info_ok info = (case fi_addr info of
       None \<Rightarrow> fi_len info = 0 \<and> fi_total_len info = 0
     | Some slots \<Rightarrow> list_all wf_data_frame slots)"

definition slave_inv :: "slave_t \<Rightarrow> bool" where
  "slave_inv s \<longleftrightarrow> length (sl_bit_streams s) = PICTURES_NUMBER_MAX
     \<and> length (sl_infos s) = PICTURES_NUMBER_MAX
     \<and> list_all stream_ok (sl_bit_streams s) \<and> list_all info_ok (sl_infos s)
     \<and> f_address (sl_output s) = TP_ADDRESS_SLAVE"

lemma slave_inv_keeps: "keeps s s' \<Longrightarrow> slave_inv s \<Longrightarrow> slave_inv s'"
  by (simp add: slave_inv_def keeps_def)

lemma slave_inv_init: "slave_inv (init_slave tty dev)"
  by (simp add: slave_inv_def init_slave_def stream_ok_def info_ok_def PICTURES_NUMBER_MAX_def
      zero_frame_def list_all_iff)

lemma blit_prefix: "blit old 0 new = Inr buf \<Longrightarrow> length new \<le> length buf \<and> take (length new) buf = new"
  by (auto simp add: blit_def split: if_splits)

lemma process_data_frames_result:
  assumes "process_data_frames env frames n p_addr status dev = Inr (len, addr, status', dev')"
  shows "\<exists>b. addr = Some b \<and> len \<le> length b"
  using assms unfolding process_data_frames_def Let_def and_then_eq_Inr
  by (auto split: option.splits if_splits simp add: and_then_eq_Inr dest!: blit_prefix)

lemma process_result:
  assumes "process_data_frames_dry_run env frames n p_addr status dev = Inr (len, addr, status', dev')"
  shows "stream_ok \<lparr> d8_addr = addr, d8_len = len \<rparr>"
proof (cases "e_dry_run env")
  case False
  with assms show ?thesis
    using process_data_frames_result [of env frames n p_addr status dev len addr status' dev']
    by (auto simp add: process_data_frames_dry_run_def stream_ok_def)
next
  case True
  with True assms show ?thesis
    by (auto simp add: process_data_frames_dry_run_def and_then_eq_Inr stream_ok_def
        split: if_splits dest!: length_data_frames_to_data)
qed

lemma receive_data_frames_Inr:
  assumes "receive_data_frames slots frame tty = Inr (m, slots', tty')"
  shows "length slots' = length slots \<and> (list_all wf_data_frame slots \<longrightarrow> list_all wf_data_frame slots')"
proof -
  have ok: "length (fst (snd (m, slots', tty'))) = length slots
    \<and> (list_all wf_data_frame slots \<longrightarrow> list_all wf_data_frame (fst (snd (m, slots', tty'))))"
  proof (cases "epoll_rx tty")
    case (Pair ready tty1)
    show ?thesis
    proof (cases ready)
      case False
      with Pair assms show ?thesis by (simp add: receive_data_frames_timeout)
    next
      case True
      let ?n = "unat (f_n_frame frame)"
      let ?temp = "received_temp ?n (rx_reads tty1)"
      have le: "?n \<le> length slots"
        using receive_overrun_fault [of slots frame tty] Pair True assms by fastforce
      obtain rs where r: "receive_data_frames slots frame tty =
          Inr (of_nat (length (filter (missed ?temp slots) [0..<?n])),
            map (\<lambda>i. accept_slot ?temp i (slots ! i)) [0..<?n] @ drop ?n slots,
            tty1\<lparr> rx_reads := rs \<rparr>)"
        using receive_data_frames_ok [of tty tty1 ?n frame slots] Pair True le by auto
      have "wf_data_frame (accept_slot ?temp i (slots ! i))"
        if "i < ?n" "wf_data_frame (slots ! i)" for i
      proof -
        have "Suc i * sizeof_data_frame_t \<le> ?n * sizeof_data_frame_t"
          using that(1) by (intro mult_le_mono1) simp
        then have "length (piece sizeof_data_frame_t i ?temp) = sizeof_data_frame_t"
          by (simp add: length_received_temp mult.commute)
        then show ?thesis
          using accept_slot_cases [of ?temp i "slots ! i"] that(2)
            data_frame_bytes_bytes_data_frame(2) by fastforce
      qed
      with r assms le show ?thesis
        by (auto simp add: list_all_length nth_append)
    qed
  qed
  then show ?thesis by simp
qed

lemma prepare_slots_Inr:
  assumes "prepare_slots env input s = Inr slots"
  shows "slots = replicate (unat (f_n_frame input)) blank_data_frame
      \<or> fi_addr (sl_infos s ! unat (f_n_file input)) = Some slots
        \<and> get_status (f_n_file input) s \<noteq> TP_STATUS_PROCESSED"
  using assms by (auto simp add: prepare_slots_def Let_def split: option.splits if_splits)

text \<open>What a SEND does to the state after its reply.\<close>

lemma receive_picture_Inr:
  assumes "receive_picture env input s = Inr s'"
  obtains slots0 missing slots tty where "prepare_slots env input s = Inr slots0"
    and "receive_data_frames slots0 input (sl_tty s) = Inr (missing, slots, tty)"
    and "sl_tty s' = tty" and "sl_output s' = sl_output s"
    and "sl_infos s' = (sl_infos s)[unat (f_n_file input) := \<lparr> fi_addr = Some slots,
      fi_len = f_n_frame input - missing, fi_total_len = f_n_frame input \<rparr>]"
    and "missing \<noteq> 0 \<longrightarrow> sl_bit_streams s' = sl_bit_streams s"
    and "missing = 0 \<longrightarrow> (\<exists>len addr status dev. process_data_frames_dry_run env slots (f_n_frame input)
        (d8_addr (sl_bit_streams s ! unat (f_n_file input))) (sl_status s) (sl_dev s) =
        Inr (len, addr, status, dev)
      \<and> sl_bit_streams s' =
          (sl_bit_streams s)[unat (f_n_file input) := \<lparr> d8_addr = addr, d8_len = len \<rparr>])"
proof -
  from assms obtain slots0 missing slots tty where p: "prepare_slots env input s = Inr slots0"
    and r: "receive_data_frames slots0 input (sl_tty s) = Inr (missing, slots, tty)"
    and rest: "(let s = s\<lparr> sl_tty := tty, sl_infos := (sl_infos s)[unat (f_n_file input) :=
          \<lparr> fi_addr = Some slots, fi_len = f_n_frame input - missing,
            fi_total_len = f_n_frame input \<rparr>] \<rparr>
      in if missing \<noteq> 0 then Inr s
         else and_then (process_data_frames_dry_run env slots (f_n_frame input)
             (d8_addr (sl_bit_streams s ! unat (f_n_file input))) (sl_status s) (sl_dev s))
           (\<lambda>(len, addr, status, dev). Inr (s\<lparr> sl_status := status, sl_dev := dev,
              sl_bit_streams := (sl_bit_streams s)[unat (f_n_file input) :=
                \<lparr> d8_addr = addr, d8_len = len \<rparr>] \<rparr>))) = Inr s'"
    unfolding receive_picture_def Let_def and_then_eq_Inr by auto
  from rest that [OF p r] show thesis
    by (cases "missing = 0") (auto simp add: and_then_eq_Inr)
qed

lemma list_all_update: "list_all P xs \<Longrightarrow> P x \<Longrightarrow> list_all P (xs[i := x])"
  by (auto simp add: list_all_iff dest!: subsetD [OF set_update_subset_insert])

lemma slave_inv_receive_picture:
  assumes "receive_picture env input s = Inr s'" and inv: "slave_inv s"
    and i: "unat (f_n_file input) < PICTURES_NUMBER_MAX"
  shows "slave_inv s'"
proof -
  let ?i = "unat (f_n_file input)"
  from assms(1) obtain slots0 missing slots tty where p: "prepare_slots env input s = Inr slots0"
    and r: "receive_data_frames slots0 input (sl_tty s) = Inr (missing, slots, tty)"
    and out: "sl_output s' = sl_output s"
    and infos: "sl_infos s' = (sl_infos s)[?i := \<lparr> fi_addr = Some slots,
      fi_len = f_n_frame input - missing, fi_total_len = f_n_frame input \<rparr>]"
    and streams: "missing \<noteq> 0 \<longrightarrow> sl_bit_streams s' = sl_bit_streams s"
      "missing = 0 \<longrightarrow> (\<exists>len addr status dev. process_data_frames_dry_run env slots (f_n_frame input)
        (d8_addr (sl_bit_streams s ! ?i)) (sl_status s) (sl_dev s) = Inr (len, addr, status, dev)
      \<and> sl_bit_streams s' = (sl_bit_streams s)[?i := \<lparr> d8_addr = addr, d8_len = len \<rparr>])"
    by (rule receive_picture_Inr)
  have "info_ok (sl_infos s ! ?i)" using inv i by (simp add: slave_inv_def list_all_length)
  then have "list_all wf_data_frame slots0"
    using prepare_slots_Inr [OF p] by (auto simp add: info_ok_def list_all_iff)
  then have "list_all wf_data_frame slots" using receive_data_frames_Inr [OF r] by simp
  then have "list_all info_ok (sl_infos s')"
    using inv infos by (simp add: slave_inv_def list_all_update info_ok_def)
  moreover have "list_all stream_ok (sl_bit_streams s')
      \<and> length (sl_bit_streams s') = length (sl_bit_streams s)"
    using streams inv process_result
    by (cases "missing = 0") (auto simp add: slave_inv_def intro!: list_all_update)
  ultimately show ?thesis using inv out infos by (simp add: slave_inv_def)
qed

lemma handle_send_cases:
  assumes "handle_send env input s = Inr s'"
  shows "keeps s s' \<or> unat (f_n_file input) < PICTURES_NUMBER_MAX \<and>
    (\<exists>s1. keeps s s1 \<and> receive_picture env input s1 = Inr s')"
proof (cases "PICTURES_NUMBER_MAX \<le> unat (f_n_file input)")
  case True
  with assms show ?thesis by (simp add: handle_send_def)
next
  case False
  with assms obtain n s1 where r: "reply (s\<lparr> sl_output := (sl_output s)
      \<lparr> f_frame_type := f_frame_type input, f_n_file := f_n_file input,
        f_n_frame := f_n_frame input \<rparr> \<rparr>) = Inr (n, s1)"
    and s': "(if n \<le> 0 then Inr s1 else receive_picture env input s1) = Inr s'"
    by (auto simp add: handle_send_def Let_def and_then_eq_Inr)
  from reply_keeps [OF r] have "keeps s s1" by (simp add: keeps_output)
  with s' False show ?thesis by (auto split: if_splits)
qed

lemma slave_step_Inr:
  assumes "slave_step env s = Inr s'"
  shows "\<exists>n input tty. receive_frame zero_frame (sl_tty s) = Inr (n, input, tty)
    \<and> (s' = s\<lparr> sl_tty := tty \<rparr>
      \<or> 0 < n \<and> f_address input = TP_ADDRESS_MASTER \<and> handle env input (s\<lparr> sl_tty := tty \<rparr>) = Inr s')"
  using assms by (auto simp add: slave_step_def and_then_eq_Inr Let_def split: if_splits)

lemma slave_inv_handle:
  assumes "handle env input s = Inr s'" and "slave_inv s"
  shows "slave_inv s'"
  using assms handle_send_cases [of env input s s']
  by (auto simp add: handle_def split: if_splits dest: handle_query_keeps handle_recv_keeps
      slave_inv_keeps slave_inv_receive_picture)

lemma slave_inv_step:
  assumes "slave_step env s = Inr s'" and "slave_inv s"
  shows "slave_inv s'"
proof -
  have "slave_inv (s\<lparr> sl_tty := tty \<rparr>)" for tty
    by (rule slave_inv_keeps [OF _ assms(2)]) simp
  then show ?thesis using slave_step_Inr [OF assms(1)] slave_inv_handle by blast
qed

lemma slave_inv_reachable: "reachable env tty dev s \<Longrightarrow> slave_inv s"
  by (induction rule: reachable.induct) (auto intro: slave_inv_init slave_inv_step)

text \<open>C4: in every state the command loop reaches, whatever arrives on the line: there are
  eight pictures; a stream that has a length has a block at least as long, so that a RECV
  never reads behind it nor takes a length for a file descriptor; a picture without an array
  has received nothing, and the frames in an array have the struct's layout; replies carry
  the slave's address.\<close>

theorem reachable_states_are_sound:
  assumes "reachable env tty dev s"
  shows "length (sl_bit_streams s) = 8 \<and> length (sl_infos s) = 8
    \<and> list_all (\<lambda>st. case d8_addr st of None \<Rightarrow> d8_len st = 0 | Some b \<Rightarrow> d8_len st \<le> length b)
        (sl_bit_streams s)
    \<and> list_all (\<lambda>info. case fi_addr info of
          None \<Rightarrow> fi_len info = 0 \<and> fi_total_len info = 0
        | Some slots \<Rightarrow> list_all wf_data_frame slots) (sl_infos s)
    \<and> f_address (sl_output s) = TP_ADDRESS_SLAVE"
  using slave_inv_reachable [OF assms]
  by (simp add: slave_inv_def stream_ok_def [abs_def] info_ok_def [abs_def] PICTURES_NUMBER_MAX_def)

lemma reachable_states_are_sound_witness:
  "length (sl_bit_streams (init_slave idle_tty sample_dev)) = 8
    \<and> length (sl_infos (init_slave idle_tty sample_dev)) = 8
    \<and> list_all (\<lambda>st. case d8_addr st of None \<Rightarrow> d8_len st = 0 | Some b \<Rightarrow> d8_len st \<le> length b)
        (sl_bit_streams (init_slave idle_tty sample_dev))
    \<and> list_all (\<lambda>info. case fi_addr info of
          None \<Rightarrow> fi_len info = 0 \<and> fi_total_len info = 0
        | Some slots \<Rightarrow> list_all wf_data_frame slots) (sl_infos (init_slave idle_tty sample_dev))
    \<and> f_address (sl_output (init_slave idle_tty sample_dev)) = TP_ADDRESS_SLAVE"
  by (rule reachable_states_are_sound [OF reachable.start])

lemma send_all_idle:
  assumes "tx_idle tty" and "list_all sendable fs"
  shows "send_all fs tty = Inr (tty\<lparr> n_total_frame := n_total_frame tty + of_nat (length fs),
    tx_bytes := tx_bytes tty @ concat (map wire (number_frames (n_total_frame tty) fs)) \<rparr>)"
  using assms
proof (induction fs arbitrary: tty)
  case Nil
  then show ?case by (simp add: send_all_def)
next
  case (Cons f fs)
  then show ?case
    using Cons.IH [of "tty\<lparr> n_total_frame := n_total_frame tty + 1,
      tx_bytes := tx_bytes tty @ wire (f\<lparr> df_n_total_frame := n_total_frame tty \<rparr>) \<rparr>"]
    by (simp add: send_all_def send_data_frame_idle add.assoc)
qed

section \<open>Functional behaviour of the commands\<close>

lemma reply_idle:
  "tx_idle (sl_tty s) \<Longrightarrow> reply s = Inr (12, s\<lparr> sl_tty := (sl_tty s)
     \<lparr> tx_bytes := tx_bytes (sl_tty s) @ frame_bytes (frame_to_wire (sl_output s)) \<rparr> \<rparr>)"
  by (simp add: reply_def send_frame_idle)

lemma handle_query_ok:
  assumes "unat (f_n_file input) < PICTURES_NUMBER_MAX" and "tx_idle (sl_tty s)"
    and "f_address (sl_output s) = TP_ADDRESS_SLAVE" and "f_frame_type input = TP_FRAME_TYPE_QUERY"
  shows "\<exists>s' answer. handle env input s = Inr s'
    \<and> tx_bytes (sl_tty s') = tx_bytes (sl_tty s) @ frame_bytes (frame_to_wire answer)
    \<and> f_address answer = TP_ADDRESS_SLAVE \<and> f_frame_type answer = TP_FRAME_TYPE_QUERY
    \<and> f_n_file answer = f_n_file input
    \<and> f_status answer = status_code (picture_status (unat (f_n_file input)) s)
    \<and> f_n_frame answer = fi_len (sl_infos s ! unat (f_n_file input))
    \<and> sl_bit_streams s' = sl_bit_streams s \<and> sl_infos s' = sl_infos s
    \<and> tx_idle (sl_tty s') \<and> f_address (sl_output s') = TP_ADDRESS_SLAVE"
proof -
  let ?out = "(sl_output s)\<lparr> f_frame_type := f_frame_type input, f_n_file := f_n_file input,
    f_status := get_status (f_n_file input) s,
    f_n_frame := fi_len (sl_infos s ! unat (f_n_file input)) \<rparr>"
  have "reply (s\<lparr> sl_output := ?out \<rparr>) = Inr (12, s\<lparr> sl_output := ?out, sl_tty := (sl_tty s)
      \<lparr> tx_bytes := tx_bytes (sl_tty s) @ frame_bytes (frame_to_wire ?out) \<rparr> \<rparr>)"
    using reply_idle [of "s\<lparr> sl_output := ?out \<rparr>"] assms(2) by simp
  then show ?thesis
    using assms by (intro exI [of _ "s\<lparr> sl_output := ?out, sl_tty := (sl_tty s)
      \<lparr> tx_bytes := tx_bytes (sl_tty s) @ frame_bytes (frame_to_wire ?out) \<rparr> \<rparr>"] exI [of _ ?out])
      (simp add: handle_def handle_query_def Let_def get_status_code)
qed

text \<open>C24: a QUERY for one of the eight pictures is answered with the picture's status and the
  number of uploaded frames it has, under the file number that was asked for, and changes no
  picture. The number is that of the upload in every status, also when the picture is processed, where
  the protocol document has the number of frames of the stream.\<close>

theorem query_answered:
  assumes "unat (f_n_file input) < PICTURES_NUMBER_MAX" and "tx_idle (sl_tty s)"
    and "f_address (sl_output s) = TP_ADDRESS_SLAVE" and "f_frame_type input = TP_FRAME_TYPE_QUERY"
  shows "\<exists>s' answer. handle env input s = Inr s'
    \<and> tx_bytes (sl_tty s') = tx_bytes (sl_tty s) @ frame_bytes (frame_to_wire answer)
    \<and> f_address answer = TP_ADDRESS_SLAVE \<and> f_frame_type answer = TP_FRAME_TYPE_QUERY
    \<and> f_n_file answer = f_n_file input
    \<and> f_status answer = status_code (picture_status (unat (f_n_file input)) s)
    \<and> f_n_frame answer = fi_len (sl_infos s ! unat (f_n_file input))
    \<and> sl_bit_streams s' = sl_bit_streams s \<and> sl_infos s' = sl_infos s"
  using handle_query_ok [OF assms] by blast

lemma init_slave_simps [simp]:
  "sl_tty (init_slave tty dev) = tty" "sl_output (init_slave tty dev) =
     zero_frame\<lparr> f_address := TP_ADDRESS_SLAVE \<rparr>"
  by (simp_all add: init_slave_def)

lemma tx_idle_sample [simp]: "tx_idle idle_tty" "tx_idle (hearing_tty bss)"
  by (simp_all add: tx_idle_def idle_tty_def hearing_tty_def)

definition sample_env :: env_t where
  "sample_env = \<lparr> e_malloc = (\<lambda>_. True), e_frames = (\<lambda>n. replicate n blank_data_frame),
     e_stack = sample_transaction,
     e_codings = (\<lambda>_ _ _ _. Inr [1, 2, 3]), e_reg = blank_reg, e_dry_run = True \<rparr>"

lemma query_answered_witness:
  "\<exists>s' answer. handle sample_env query_frame (init_slave idle_tty sample_dev) = Inr s'
    \<and> tx_bytes (sl_tty s') = tx_bytes (sl_tty (init_slave idle_tty sample_dev))
        @ frame_bytes (frame_to_wire answer)
    \<and> f_address answer = TP_ADDRESS_SLAVE \<and> f_frame_type answer = TP_FRAME_TYPE_QUERY
    \<and> f_n_file answer = f_n_file query_frame
    \<and> f_status answer = status_code (picture_status (unat (f_n_file query_frame))
        (init_slave idle_tty sample_dev))
    \<and> f_n_frame answer = fi_len (sl_infos (init_slave idle_tty sample_dev)
        ! unat (f_n_file query_frame))
    \<and> sl_bit_streams s' = sl_bit_streams (init_slave idle_tty sample_dev)
    \<and> sl_infos s' = sl_infos (init_slave idle_tty sample_dev)"
  by (rule query_answered) (simp_all add: query_frame_def const_defs)

text \<open>C23: no command touches a picture other than the one it names, and one that names none of
  the eight changes no picture at all.\<close>

theorem command_touches_only_its_picture:
  assumes "handle env input s = Inr s'" and "j \<noteq> unat (f_n_file input) \<or> 8 \<le> unat (f_n_file input)"
  shows "sl_bit_streams s' ! j = sl_bit_streams s ! j \<and> sl_infos s' ! j = sl_infos s ! j"
proof -
  have same: "keeps s s' \<Longrightarrow> ?thesis" by (simp add: keeps_def)
  show ?thesis
  proof (cases "f_frame_type input = TP_FRAME_TYPE_SEND")
    case True
    with assms(1) have "handle_send env input s = Inr s'"
      by (simp add: handle_def const_defs)
    from handle_send_cases [OF this] show ?thesis
    proof
      assume "unat (f_n_file input) < PICTURES_NUMBER_MAX \<and>
        (\<exists>s1. keeps s s1 \<and> receive_picture env input s1 = Inr s')"
      then obtain s1 where k: "keeps s s1" and r: "receive_picture env input s1 = Inr s'"
        and i: "unat (f_n_file input) < 8" by (auto simp add: PICTURES_NUMBER_MAX_def)
      then have "j \<noteq> unat (f_n_file input)" using assms(2) by auto
      moreover have "sl_infos s' ! j = sl_infos s1 ! j"
        using receive_picture_Inr [OF r] \<open>j \<noteq> _\<close> by (metis nth_list_update_neq)
      moreover have "sl_bit_streams s' ! j = sl_bit_streams s1 ! j"
        using receive_picture_Inr [OF r] \<open>j \<noteq> _\<close> by (metis nth_list_update_neq)
      ultimately show ?thesis using k by (simp add: keeps_def)
    qed (rule same)
  next
    case False
    with assms(1) show ?thesis
      by (auto simp add: handle_def keeps_def split: if_splits
          dest!: handle_query_keeps handle_recv_keeps)
  qed
qed

lemma command_touches_only_its_picture_witness:
  "\<exists>s'. handle sample_env query_frame (init_slave idle_tty sample_dev) = Inr s'
    \<and> sl_bit_streams s' ! 3 = sl_bit_streams (init_slave idle_tty sample_dev) ! 3
    \<and> sl_infos s' ! 3 = sl_infos (init_slave idle_tty sample_dev) ! 3"
proof -
  obtain s' where h: "handle sample_env query_frame (init_slave idle_tty sample_dev) = Inr s'"
    by (simp add: handle_def handle_query_def Let_def reply_idle query_frame_def)
  have "3 \<noteq> unat (f_n_file query_frame) \<or> 8 \<le> unat (f_n_file query_frame)"
    by (simp add: query_frame_def)
  from command_touches_only_its_picture [OF h this] h show ?thesis by blast
qed

section \<open>A picture up and down the line\<close>

lemma process_dry_run_ok:
  assumes "e_dry_run env" and "\<And>n. e_malloc env n" and "length fs < 65536" and "list_all fits fs"
  shows "process_data_frames_dry_run env (map data_frame_received fs) (of_nat (length fs)) p_addr
    status dev = Inr (payloads_len fs, Some (concat (map payload fs)), status, dev)"
proof -
  let ?gs = "map data_frame_received fs"
  have "data_frame_to_data_len ?gs (of_nat (length fs)) = Inr (payloads_len fs)"
    using data_frame_to_data_len_ok [of "length fs" ?gs] assms(3) by (simp add: payloads_len_received)
  moreover have "data_frames_to_data ?gs (of_nat (length fs)) (replicate (payloads_len fs) 0) =
      Inr (concat (map payload fs))"
    using data_frames_to_data_ok [of "length fs" ?gs "replicate (payloads_len fs) 0"] assms(3,4)
    by (simp add: payloads_len_received list.pred_map o_def)
  ultimately show ?thesis using assms(1,2) by (simp add: process_data_frames_dry_run_def)
qed

lemma process_announced:
  assumes "e_dry_run env" and "\<And>n. e_malloc env n" and "unat n_frame = length fs" and "list_all fits fs"
  shows "process_data_frames_dry_run env (map data_frame_received fs) n_frame p_addr status dev =
    Inr (length (concat (map payload fs)), Some (concat (map payload fs)), status, dev)"
proof -
  have "n_frame = of_nat (length fs)" by (simp flip: assms(3))
  moreover have "length fs < 65536" using unat_u16_less [of n_frame] assms(3) by simp
  ultimately show ?thesis
    using process_dry_run_ok [OF assms(1,2) _ assms(4)] length_payloads [OF assms(4)] by simp
qed

text \<open>
  A complete upload: the picture is processed, and what that returns, or its fault, is the rest of
  the command.
\<close>

lemma handle_send_received:
  assumes i: "unat (f_n_file up) < PICTURES_NUMBER_MAX" and idle: "tx_idle (sl_tty s)"
    and fresh: "fi_addr (sl_infos s ! unat (f_n_file up)) = None
      \<or> picture_status (unat (f_n_file up)) s = Processed"
    and env: "\<And>n. e_malloc env n"
    and fs: "list_all sendable fs" "unat (f_n_frame up) = length fs"
    and line: "epoll_rx (sl_tty s) = (True, tty')" "steady 0 (rx_reads tty')"
      "stream (rx_reads tty') = concat (map wire fs) @ rest"
  defines "out \<equiv> (sl_output s)\<lparr> f_frame_type := f_frame_type up, f_n_file := f_n_file up,
    f_n_frame := f_n_frame up \<rparr>"
  shows "\<exists>tty2. tx_idle tty2 \<and> tx_bytes tty2 = tx_bytes (sl_tty s) @ frame_bytes (frame_to_wire out)
    \<and> handle_send env up s = and_then
        (process_data_frames_dry_run env (map data_frame_received fs) (f_n_frame up)
          (d8_addr (sl_bit_streams s ! unat (f_n_file up))) (sl_status s) (sl_dev s))
        (\<lambda>(len, addr, status, dev). Inr (s\<lparr> sl_output := out, sl_tty := tty2,
          sl_infos := (sl_infos s)[unat (f_n_file up) := \<lparr> fi_addr = Some (map data_frame_received fs),
            fi_len = f_n_frame up, fi_total_len = f_n_frame up \<rparr>],
          sl_status := status, sl_dev := dev,
          sl_bit_streams := (sl_bit_streams s)[unat (f_n_file up) := \<lparr> d8_addr = addr, d8_len = len \<rparr>] \<rparr>))"
proof -
  let ?i = "unat (f_n_file up)" and ?n = "length fs"
  let ?bytes = "tx_bytes (sl_tty s) @ frame_bytes (frame_to_wire out)"
  let ?s1 = "s\<lparr> sl_output := out, sl_tty := (sl_tty s)\<lparr> tx_bytes := ?bytes \<rparr> \<rparr>"
  have r: "reply (s\<lparr> sl_output := out \<rparr>) = Inr (12, ?s1)"
    using reply_idle [of "s\<lparr> sl_output := out \<rparr>"] idle by simp
  have "picture_status ?i ?s1 = picture_status ?i s" by (simp add: picture_status_def)
  then have slots: "prepare_slots env up ?s1 = Inr (replicate ?n blank_data_frame)"
    using fresh env get_status_processed [OF i, of ?s1]
    by (auto simp add: prepare_slots_def Let_def fs(2))
  have ready: "epoll_rx (sl_tty ?s1) = (True, tty'\<lparr> tx_bytes := ?bytes \<rparr>)"
    using line(1) by (auto simp add: epoll_rx_def split: list.splits)
  have "map2 fill_slot (replicate ?n blank_data_frame) fs = map data_frame_received fs"
    by (intro nth_equalityI) (simp_all add: fill_slot_def blank_data_frame_def)
  then obtain rs where recv: "receive_data_frames (replicate ?n blank_data_frame) up (sl_tty ?s1) =
      Inr (0, map data_frame_received fs, tty'\<lparr> tx_bytes := ?bytes, rx_reads := rs \<rparr>)"
    using receive_clean_stream [OF ready, of fs rest up "replicate ?n blank_data_frame"] line(2,3)
      fs by auto
  show ?thesis
    using r slots recv i idle epoll_rx_tx_idle [OF line(1)]
    by (intro exI [of _ "tty'\<lparr> tx_bytes := ?bytes, rx_reads := rs \<rparr>"])
       (simp add: handle_send_def Let_def receive_picture_def not_le out_def [symmetric])
qed

text \<open>The state a complete upload leaves, whatever the processing makes of the picture.\<close>

lemma handle_send_processed:
  assumes "unat (f_n_file up) < PICTURES_NUMBER_MAX" and "tx_idle (sl_tty s)"
    and "fi_addr (sl_infos s ! unat (f_n_file up)) = None
      \<or> picture_status (unat (f_n_file up)) s = Processed"
    and "\<And>n. e_malloc env n"
    and "list_all sendable fs" "unat (f_n_frame up) = length fs"
    and process: "process_data_frames_dry_run env (map data_frame_received fs) (f_n_frame up)
      (d8_addr (sl_bit_streams s ! unat (f_n_file up))) (sl_status s) (sl_dev s) =
      Inr (length data, Some data, status', dev')"
    and "epoll_rx (sl_tty s) = (True, tty')" "steady 0 (rx_reads tty')"
      "stream (rx_reads tty') = concat (map wire fs) @ rest"
  shows "\<exists>s1. handle_send env up s = Inr s1
    \<and> sl_bit_streams s1 = (sl_bit_streams s)[unat (f_n_file up) :=
        \<lparr> d8_addr = Some data, d8_len = length data \<rparr>]
    \<and> sl_infos s1 = (sl_infos s)[unat (f_n_file up) :=
        \<lparr> fi_addr = Some (map data_frame_received fs), fi_len = f_n_frame up,
          fi_total_len = f_n_frame up \<rparr>]
    \<and> tx_idle (sl_tty s1) \<and> f_address (sl_output s1) = f_address (sl_output s)
    \<and> tx_bytes (sl_tty s1) = tx_bytes (sl_tty s) @ frame_bytes (frame_to_wire ((sl_output s)
        \<lparr> f_frame_type := f_frame_type up, f_n_file := f_n_file up, f_n_frame := f_n_frame up \<rparr>))"
  using handle_send_received [OF assms(1-6,8-10)] process by auto

lemma fits_number_frames: "list_all fits (number_frames c fs) \<longleftrightarrow> list_all fits fs"
  by (induction c fs rule: number_frames.induct) (simp_all add: fits_def)

text \<open>A RECV of a stream of up to 65535 full frames.\<close>

lemma handle_recv_ok:
  assumes i: "unat (f_n_file down) < PICTURES_NUMBER_MAX" and idle: "tx_idle (sl_tty s)"
    and stream: "sl_bit_streams s ! unat (f_n_file down) =
      \<lparr> d8_addr = Some data, d8_len = length data \<rparr>"
    and len: "data \<noteq> []" "length data \<le> 65535 * TP_FRAME_DATA_LEN_MAX"
    and env: "\<And>n. e_malloc env n" "\<And>n. length (e_frames env n) = n"
  shows "\<exists>s2 answer gs. handle_recv env down s = Inr s2
    \<and> tx_bytes (sl_tty s2) = tx_bytes (sl_tty s) @ frame_bytes (frame_to_wire answer)
        @ concat (map wire gs)
    \<and> f_address answer = f_address (sl_output s) \<and> f_frame_type answer = f_frame_type down
    \<and> f_n_file answer = f_n_file down \<and> unat (f_n_frame answer) = length gs
    \<and> length gs = ceil_div (length data) TP_FRAME_DATA_LEN_MAX
    \<and> list_all sendable gs \<and> list_all fits gs \<and> concat (map payload gs) = data"
proof -
  let ?n = "ceil_div (length data) TP_FRAME_DATA_LEN_MAX"
  have b: "length data \<le> ?n * TP_FRAME_DATA_LEN_MAX" "(?n - 1) * TP_FRAME_DATA_LEN_MAX < length data"
    using len(1) ceil_div_bounds [of TP_FRAME_DATA_LEN_MAX "length data"]
    by (simp_all add: TP_FRAME_DATA_LEN_MAX_def)
  with len(2) have n: "?n < 65536" by (simp add: TP_FRAME_DATA_LEN_MAX_def)
  let ?fs = "framed data ?n (f_n_file down) TP_FLAG_DATA (of_nat (length data)) (e_frames env ?n)"
  have alloc: "alloc_data_frames (Some (e_frames env ?n)) (of_nat ?n) (f_n_file down)
      (Buffer data (of_nat (length data))) TP_FLAG_DATA (of_nat (length data)) = Inr (Some ?fs)"
    using alloc_buffer_ok [of data ?n "e_frames env ?n" _ "[]"] len(1) n env(2) by simp
  let ?out = "(sl_output s)\<lparr> f_frame_type := f_frame_type down, f_n_file := f_n_file down,
    f_n_frame := of_nat ?n \<rparr>"
  let ?tty = "(sl_tty s)\<lparr> tx_bytes := tx_bytes (sl_tty s) @ frame_bytes (frame_to_wire ?out) \<rparr>"
  have r: "reply (s\<lparr> sl_output := ?out \<rparr>) = Inr (12, s\<lparr> sl_output := ?out, sl_tty := ?tty \<rparr>)"
    using reply_idle [of "s\<lparr> sl_output := ?out \<rparr>"] idle by simp
  let ?gs = "number_frames (n_total_frame (sl_tty s)) ?fs"
  have send: "send_all ?fs ?tty = Inr (?tty\<lparr> n_total_frame := n_total_frame (sl_tty s) + of_nat ?n,
      tx_bytes := tx_bytes ?tty @ concat (map wire ?gs) \<rparr>)"
    using send_all_idle [of ?tty ?fs] idle sendable_framed by simp
  have "handle_recv env down s = Inr (s\<lparr> sl_output := ?out, sl_tty := ?tty
      \<lparr> n_total_frame := n_total_frame (sl_tty s) + of_nat ?n,
        tx_bytes := tx_bytes ?tty @ concat (map wire ?gs) \<rparr> \<rparr>)"
    using i stream len(1) env(1) alloc r send n
    by (simp add: handle_recv_def Let_def not_le)
  moreover have "list_all sendable ?gs" "list_all fits ?gs"
    by (simp_all add: sendable_number_frames sendable_framed fits_number_frames fits_framed)
  moreover have "concat (map payload ?gs) = data"
    by (simp only: payload_number_frames payload_framed [OF b(1)])
  ultimately show ?thesis
    using n by (intro exI [of _ ?gs] exI [of _ ?out] exI conjI) auto
qed

text \<open>On a dry run, a picture of data frames sent over a clean line, whatever pieces the
  line delivers it in, is processed at once, and a RECV then sends it back: after the reply,
  which announces their number, come data frames whose bytes put together are exactly the bytes
  of the picture.\<close>

theorem dry_run_returns_the_picture:
  assumes "unat (f_n_file up) < PICTURES_NUMBER_MAX" and "f_n_file down = f_n_file up"
    and "f_frame_type up = TP_FRAME_TYPE_SEND" and "f_frame_type down = TP_FRAME_TYPE_RECV"
    and "slave_inv s" and "tx_idle (sl_tty s)"
    and "fi_addr (sl_infos s ! unat (f_n_file up)) = None
      \<or> picture_status (unat (f_n_file up)) s = Processed"
    and "e_dry_run env" and "\<And>n. e_malloc env n" and "\<And>n. length (e_frames env n) = n"
    and "list_all sendable fs" and "list_all fits fs" and "unat (f_n_frame up) = length fs"
    and "0 < payloads_len fs" and "payloads_len fs \<le> 65535 * TP_FRAME_DATA_LEN_MAX"
    and "epoll_rx (sl_tty s) = (True, tty')" and "steady 0 (rx_reads tty')"
    and "stream (rx_reads tty') = concat (map wire fs) @ rest"
  shows "\<exists>s1 s2 answer gs. handle env up s = Inr s1
    \<and> picture_status (unat (f_n_file up)) s1 = Processed
    \<and> handle env down s1 = Inr s2
    \<and> tx_bytes (sl_tty s2) = tx_bytes (sl_tty s1) @ frame_bytes (frame_to_wire answer)
        @ concat (map wire gs)
    \<and> f_n_file answer = f_n_file up \<and> unat (f_n_frame answer) = length gs
    \<and> list_all sendable gs \<and> concat (map payload gs) = concat (map payload fs)"
proof -
  let ?i = "unat (f_n_file up)" and ?data = "concat (map payload fs)"
  have len: "length ?data = payloads_len fs" using length_payloads assms(12) .
  obtain s1 where s1: "handle_send env up s = Inr s1" "tx_idle (sl_tty s1)"
    and streams: "sl_bit_streams s1 = (sl_bit_streams s)[?i :=
      \<lparr> d8_addr = Some ?data, d8_len = payloads_len fs \<rparr>]"
    using handle_send_processed [OF assms(1,6,7,9,11,13) process_announced [OF assms(8,9,13,12)] assms(16,17,18)]
    by (auto simp add: len)
  have "length (sl_bit_streams s) = PICTURES_NUMBER_MAX"
    using assms(5) by (simp add: slave_inv_def)
  with streams assms(1) have "sl_bit_streams s1 ! ?i =
      \<lparr> d8_addr = Some ?data, d8_len = length ?data \<rparr>"
    by (simp add: len)
  moreover from this assms(14) have "picture_status ?i s1 = Processed"
    by (simp add: picture_status_def len)
  moreover have "?data \<noteq> []" using assms(14) len by (metis length_0_conv less_irrefl)
  moreover have "length ?data \<le> 65535 * TP_FRAME_DATA_LEN_MAX" using assms(15) len by simp
  ultimately show ?thesis
    using handle_recv_ok [of down s1 ?data env] s1 assms(1-4,9,10)
    by (auto simp add: handle_def const_defs)
qed

definition send_command :: "u16 \<Rightarrow> frame_t" where
  "send_command n = query_frame\<lparr> f_frame_type := TP_FRAME_TYPE_SEND, f_n_frame := n \<rparr>"

definition recv_command :: frame_t where
  "recv_command = query_frame\<lparr> f_frame_type := TP_FRAME_TYPE_RECV \<rparr>"

lemma dry_run_returns_the_picture_witness:
  "\<exists>s1 s2 answer gs. handle sample_env (send_command 1)
        (init_slave (hearing_tty [wire sample_data_frame]) sample_dev) = Inr s1
    \<and> picture_status (unat (f_n_file (send_command 1))) s1 = Processed
    \<and> handle sample_env recv_command s1 = Inr s2
    \<and> tx_bytes (sl_tty s2) = tx_bytes (sl_tty s1) @ frame_bytes (frame_to_wire answer)
        @ concat (map wire gs)
    \<and> f_n_file answer = f_n_file (send_command 1) \<and> unat (f_n_frame answer) = length gs
    \<and> list_all sendable gs \<and> concat (map payload gs) = concat (map payload [sample_data_frame])"
proof (rule dry_run_returns_the_picture [where rest = "[]"
      and tty' = "hearing_tty [wire sample_data_frame]\<lparr> rx_ready := [] \<rparr>"])
  show "slave_inv (init_slave (hearing_tty [wire sample_data_frame]) sample_dev)"
    by (rule slave_inv_init)
  show "fi_addr (sl_infos (init_slave (hearing_tty [wire sample_data_frame]) sample_dev)
        ! unat (f_n_file (send_command 1))) = None
      \<or> picture_status (unat (f_n_file (send_command 1)))
          (init_slave (hearing_tty [wire sample_data_frame]) sample_dev) = Processed"
    by (simp add: init_slave_def send_command_def query_frame_def const_defs)
qed (simp_all add: sample_env_def send_command_def recv_command_def query_frame_def const_defs
    fits_def sample_data_frame_def [THEN arg_cong [where f = df_data_len]]
    sample_data_frame_def [THEN arg_cong [where f = df_data]] blank_data_frame_def)

section \<open>What goes wrong\<close>

text \<open>C40: a picture that is not processed keeps the array of its first SEND: when a later SEND
  for it announces more frames than the array has, the reception runs past its end.\<close>

theorem larger_resend_overflows:
  assumes "unat (f_n_file input) < PICTURES_NUMBER_MAX" and "f_frame_type input = TP_FRAME_TYPE_SEND"
    and "tx_idle (sl_tty s)" and "fst (epoll_rx (sl_tty s))"
    and "picture_status (unat (f_n_file input)) s \<noteq> Processed"
    and "fi_addr (sl_infos s ! unat (f_n_file input)) = Some slots"
    and "length slots < unat (f_n_frame input)"
  shows "handle env input s = Inl OutOfBounds"
proof -
  let ?out = "(sl_output s)\<lparr> f_frame_type := f_frame_type input, f_n_file := f_n_file input,
    f_n_frame := f_n_frame input \<rparr>"
  let ?s1 = "s\<lparr> sl_output := ?out, sl_tty := (sl_tty s)
    \<lparr> tx_bytes := tx_bytes (sl_tty s) @ frame_bytes (frame_to_wire ?out) \<rparr> \<rparr>"
  have r: "reply (s\<lparr> sl_output := ?out \<rparr>) = Inr (12, ?s1)"
    using reply_idle [of "s\<lparr> sl_output := ?out \<rparr>"] assms(3) by simp
  have "picture_status (unat (f_n_file input)) ?s1 \<noteq> Processed"
    using assms(5) by (simp add: picture_status_def split: if_splits)
  then have slots: "prepare_slots env input ?s1 = Inr slots"
    using get_status_processed [OF assms(1), of ?s1] assms(6) by (simp add: prepare_slots_def)
  have "fst (epoll_rx (sl_tty ?s1))"
    using assms(4) by (auto simp add: epoll_rx_def split: list.splits)
  then have "receive_data_frames slots input (sl_tty ?s1) = Inl OutOfBounds"
    using receive_overrun_fault [OF assms(7)] by blast
  then show ?thesis
    using assms(1,2) r slots
    by (simp add: handle_def handle_send_def Let_def receive_picture_def not_le const_defs)
qed

lemma larger_resend_overflows_witness:
  "handle sample_env (send_command 2) (init_slave (hearing_tty [[1]]) sample_dev
     \<lparr> sl_infos := replicate 8 \<lparr> fi_addr = Some [blank_data_frame], fi_len = 0, fi_total_len = 1 \<rparr> \<rparr>)
   = Inl OutOfBounds"
  by (rule larger_resend_overflows [where slots = "[blank_data_frame]"])
     (simp_all add: send_command_def query_frame_def const_defs picture_status_def init_slave_def)

text \<open>When no data follows a SEND, \<open>receive_data_frames\<close> says 65535 frames are missing
  and the picture's count becomes one more than the announced number: a master that queries the
  picture is told that more frames have arrived than there are. A picture that was processed
  still counts as processed and keeps its old stream, though its frames are gone.\<close>

theorem silent_send_counts_one_too_many:
  assumes "unat (f_n_file input) < PICTURES_NUMBER_MAX" and "f_frame_type input = TP_FRAME_TYPE_SEND"
    and "slave_inv s" and "tx_idle (sl_tty s)" and "\<not> fst (epoll_rx (sl_tty s))"
    and "\<And>n. e_malloc env n"
  shows "\<exists>s'. handle env input s = Inr s'
    \<and> fi_len (sl_infos s' ! unat (f_n_file input)) = f_n_frame input + 1
    \<and> fi_total_len (sl_infos s' ! unat (f_n_file input)) = f_n_frame input
    \<and> sl_bit_streams s' = sl_bit_streams s
    \<and> (picture_status (unat (f_n_file input)) s = Processed \<longrightarrow>
        picture_status (unat (f_n_file input)) s' = Processed
        \<and> fi_addr (sl_infos s' ! unat (f_n_file input)) =
            Some (replicate (unat (f_n_frame input)) blank_data_frame))"
proof -
  let ?i = "unat (f_n_file input)"
  let ?out = "(sl_output s)\<lparr> f_frame_type := f_frame_type input, f_n_file := f_n_file input,
    f_n_frame := f_n_frame input \<rparr>"
  let ?tty = "(sl_tty s)\<lparr> tx_bytes := tx_bytes (sl_tty s) @ frame_bytes (frame_to_wire ?out) \<rparr>"
  let ?s1 = "s\<lparr> sl_output := ?out, sl_tty := ?tty \<rparr>"
  have r: "reply (s\<lparr> sl_output := ?out \<rparr>) = Inr (12, ?s1)"
    using reply_idle [of "s\<lparr> sl_output := ?out \<rparr>"] assms(4) by simp
  have same: "picture_status ?i ?s1 = picture_status ?i s" by (simp add: picture_status_def)
  obtain slots where slots: "prepare_slots env input ?s1 = Inr slots"
    and fresh: "picture_status ?i s = Processed \<Longrightarrow>
      slots = replicate (unat (f_n_frame input)) blank_data_frame"
    using get_status_processed [OF assms(1), of ?s1] assms(6) same
    by (cases "fi_addr (sl_infos s ! ?i)"; cases "picture_status ?i s = Processed")
       (auto simp add: prepare_slots_def Let_def)
  have "\<not> fst (epoll_rx ?tty)"
    using assms(5) by (auto simp add: epoll_rx_def split: list.splits)
  then obtain tty2 where "epoll_rx ?tty = (False, tty2)" by (cases "epoll_rx ?tty") auto
  then have recv: "receive_data_frames slots input ?tty = Inr (- 1, slots, tty2)"
    by (rule receive_data_frames_timeout)
  have len: "length (sl_infos s) = PICTURES_NUMBER_MAX" using assms(3) by (simp add: slave_inv_def)
  define s2 where "s2 = ?s1\<lparr> sl_tty := tty2, sl_infos := (sl_infos s)[?i := \<lparr> fi_addr = Some slots,
    fi_len = f_n_frame input - - 1, fi_total_len = f_n_frame input \<rparr>] \<rparr>"
  have "handle env input s = Inr s2"
    using assms(1,2) r slots recv
    by (simp add: handle_def handle_send_def Let_def receive_picture_def not_le const_defs s2_def)
  then show ?thesis
    using assms(1) len fresh
    by (intro exI [of _ s2]) (auto simp add: s2_def picture_status_def split: if_splits)
qed

lemma silent_send_counts_one_too_many_witness:
  "\<exists>s'. handle sample_env (send_command 5) (init_slave idle_tty sample_dev) = Inr s'
    \<and> fi_len (sl_infos s' ! unat (f_n_file (send_command 5))) = f_n_frame (send_command 5) + 1
    \<and> fi_total_len (sl_infos s' ! unat (f_n_file (send_command 5))) = f_n_frame (send_command 5)
    \<and> sl_bit_streams s' = sl_bit_streams (init_slave idle_tty sample_dev)
    \<and> (picture_status (unat (f_n_file (send_command 5))) (init_slave idle_tty sample_dev) = Processed
        \<longrightarrow> picture_status (unat (f_n_file (send_command 5))) s' = Processed
        \<and> fi_addr (sl_infos s' ! unat (f_n_file (send_command 5))) =
            Some (replicate (unat (f_n_frame (send_command 5))) blank_data_frame))"
  by (rule silent_send_counts_one_too_many)
     (simp_all add: slave_inv_init send_command_def query_frame_def const_defs sample_env_def
       idle_tty_def epoll_rx_def tx_idle_def)

section \<open>The accelerator's side\<close>

lemma pl_io_ok:
  assumes "list_all id (pd_ok dev)" and "addr \<noteq> 0" and "addr \<noteq> MAP_FAILED"
  shows "pl_write stack addr pl_addr sz dev = (uint sz, addr,
    log_request (PSDDR_TO_PLDDR (init_trans stack addr pl_addr sz)) (block dev addr)
      (dev\<lparr> pd_ok := tl (pd_ok dev) \<rparr>))"
  using assms
  by (simp add: pl_write_def pl_io_def ioctl_write_def syscall_ok_all block_def init_trans_def)

lemma pl_run_ok:
  assumes "list_all id (pd_ok dev)"
  shows "pl_run reg dev = Inr (log_request NETWORK_ACC_START []
    (log_request (NETWORK_ACC_CONFIG reg) [] (dev\<lparr> pd_ok := tl (tl (pd_ok dev)) \<rparr>)))"
  using assms by (simp add: pl_run_def syscall_ok_all log_request_def)

text \<open>A read into fresh memory; the block holds what the device delivers.\<close>

lemma pl_read_ok:
  assumes "list_all id (pd_ok dev)" and "pd_mmaps dev = Some (a, bs) # ms"
    and "a \<noteq> 0" and "a \<noteq> MAP_FAILED" and "0 < unat sz"
    and "pd_data dev = d # ds" and "length d = unat sz"
  shows "pl_read stack 0 pl_addr sz dev = (uint sz, a,
    dev\<lparr> pd_mmaps := ms, pd_ok := tl (pd_ok dev), pd_data := ds,
      pd_blocks := (pd_blocks dev)(a \<mapsto> d),
      pd_log := pd_log dev @ [(PLDDR_TO_PSDDR (init_trans stack a pl_addr sz), [])] \<rparr>)"
  using assms
  by (cases dev) (simp add: pl_read_def pl_io_def ps_mmap_def ioctl_read_def syscall_ok_all
      log_request_def Let_def init_trans_def overlay_full)

lemma uint_not_minus_1: "uint (x :: u32) \<noteq> - 1"
  using uint_nonnegative [of x] by linarith

lemma pl_get_ok:
  assumes ok: "list_all id (pd_ok dev)"
    and regs: "pd_results dev = r # rs" "0 < unat (na_trans_size r)" "0 < unat (na_entropy_size r)"
    and mem: "pd_mmaps dev = Some (a1, b1) # Some (a2, b2) # ms"
      "a1 \<notin> {0, MAP_FAILED}" "a2 \<notin> {0, MAP_FAILED}" "a1 \<noteq> a2"
    and data: "pd_data dev = d1 # d2 # ds" "length d1 = unat (na_trans_size r)"
      "length d2 = unat (na_entropy_size r)"
  shows "\<exists>dev'. pl_get stack reg 0 0 dev = Inr (r, a1, a2, dev')
    \<and> block dev' a1 = d1 \<and> block dev' a2 = d2
    \<and> (\<forall>a. a \<notin> {a1, a2} \<longrightarrow> pd_blocks dev' a = pd_blocks dev a)
    \<and> pd_log dev' = pd_log dev @ [(NETWORK_ACC_GET, []),
        (PLDDR_TO_PSDDR (init_trans stack a1 (na_trans_addr r) (na_trans_size r)), []),
        (PLDDR_TO_PSDDR (init_trans stack a2 (na_entropy_addr r) (na_entropy_size r)), [])]
    \<and> pd_mmaps dev' = ms \<and> pd_results dev' = rs \<and> pd_data dev' = ds \<and> list_all id (pd_ok dev')"
proof -
  define dev1 where "dev1 = (log_request NETWORK_ACC_GET []
    (dev\<lparr> pd_ok := tl (pd_ok dev) \<rparr>))\<lparr> pd_results := rs \<rparr>"
  have get: "ioctl_get reg dev = (True, r, dev1)"
    using ok regs(1) by (simp add: ioctl_get_def syscall_ok_all dev1_def log_request_def Let_def)
  define dev2 where "dev2 = dev1\<lparr> pd_mmaps := Some (a2, b2) # ms, pd_ok := tl (pd_ok dev1),
    pd_data := d2 # ds, pd_blocks := (pd_blocks dev1)(a1 \<mapsto> d1), pd_log := pd_log dev1
      @ [(PLDDR_TO_PSDDR (init_trans stack a1 (na_trans_addr r) (na_trans_size r)), [])] \<rparr>"
  define dev3 where "dev3 = dev2\<lparr> pd_mmaps := ms, pd_ok := tl (pd_ok dev2), pd_data := ds,
    pd_blocks := (pd_blocks dev2)(a2 \<mapsto> d2), pd_log := pd_log dev2
      @ [(PLDDR_TO_PSDDR (init_trans stack a2 (na_entropy_addr r) (na_entropy_size r)), [])] \<rparr>"
  have "pl_read stack 0 (na_trans_addr r) (na_trans_size r) dev1 =
      (uint (na_trans_size r), a1, dev2)"
    using pl_read_ok [of dev1 a1 b1 "Some (a2, b2) # ms" "na_trans_size r" d1 "d2 # ds"] assms
    by (simp add: dev1_def dev2_def log_request_def)
  moreover have "pl_read stack 0 (na_entropy_addr r) (na_entropy_size r) dev2 =
      (uint (na_entropy_size r), a2, dev3)"
    using pl_read_ok [of dev2 a2 b2 ms "na_entropy_size r" d2 ds] assms
    by (simp add: dev1_def dev2_def dev3_def log_request_def)
  ultimately have "pl_get stack reg 0 0 dev = Inr (r, a1, a2, dev3)"
    using get by (simp add: pl_get_def uint_not_minus_1)
  then show ?thesis
    using mem(4) ok by (auto simp add: dev3_def dev2_def dev1_def block_def log_request_def)
qed

lemma status_bits: "(((st OR b) AND NOT b) OR b) AND NOT b = st AND NOT b" for st b :: u16
  by (rule bit_word_eqI) (auto simp add: bit_simps)

lemma encode_channel_ok:
  assumes ok: "list_all id (pd_ok dev)" and plane: "addr \<noteq> 0" "addr \<noteq> MAP_FAILED"
    and regs: "pd_results dev = r # rs" "0 < unat (na_trans_size r)" "0 < unat (na_entropy_size r)"
    and mem: "pd_mmaps dev = Some (a1, b1) # Some (a2, b2) # ms"
      "a1 \<notin> {0, MAP_FAILED}" "a2 \<notin> {0, MAP_FAILED}" "a1 \<noteq> a2"
    and data: "pd_data dev = d1 # d2 # ds" "length d1 = unat (na_trans_size r)"
      "length d2 = unat (na_entropy_size r)"
  shows "\<exists>dev'. encode_channel env (addr, len) (status, reg, dev) =
      Inr (a1, a2, status AND NOT TP_STATUS_NETWORK_ENCODING, r, dev')
    \<and> block dev' a1 = d1 \<and> block dev' a2 = d2 \<and> (addr \<notin> {a1, a2} \<longrightarrow> pd_blocks dev' addr = None)
    \<and> (\<forall>a. a \<notin> {a1, a2, addr} \<longrightarrow> pd_blocks dev' a = pd_blocks dev a)
    \<and> pd_mmaps dev' = ms \<and> pd_results dev' = rs \<and> pd_data dev' = ds \<and> list_all id (pd_ok dev')
    \<and> pd_log dev' = pd_log dev
      @ [(PSDDR_TO_PLDDR (init_trans (e_stack env) addr PICTURE_BASE_ADDR (of_nat (2 * len))),
          block dev addr),
        (NETWORK_ACC_CONFIG (reg\<lparr> na_picture_addr := PICTURE_BASE_ADDR,
          na_picture_size := of_nat (2 * len) \<rparr>), []),
        (NETWORK_ACC_START, []), (NETWORK_ACC_GET, []),
        (PLDDR_TO_PSDDR (init_trans (e_stack env) a1 (na_trans_addr r) (na_trans_size r)), []),
        (PLDDR_TO_PSDDR (init_trans (e_stack env) a2 (na_entropy_addr r) (na_entropy_size r)), [])]"
proof -
  let ?sz = "of_nat (2 * len) :: u32"
  let ?reg = "reg\<lparr> na_picture_addr := PICTURE_BASE_ADDR, na_picture_size := ?sz \<rparr>"
  define dev0 where "dev0 = dev\<lparr> pd_blocks := (pd_blocks dev)(addr := None),
    pd_ok := tl (tl (tl (tl (pd_ok dev)))), pd_log := pd_log dev
      @ [(PSDDR_TO_PLDDR (init_trans (e_stack env) addr PICTURE_BASE_ADDR ?sz), block dev addr),
        (NETWORK_ACC_CONFIG ?reg, []), (NETWORK_ACC_START, [])] \<rparr>"
  have "list_all id (pd_ok dev0)" "pd_results dev0 = r # rs"
    "pd_mmaps dev0 = Some (a1, b1) # Some (a2, b2) # ms" "pd_data dev0 = d1 # d2 # ds"
    using ok regs(1) mem(1) data(1) by (simp_all add: dev0_def)
  from pl_get_ok [OF this(1,2) regs(2,3) this(3) mem(2-4) this(4) data(2,3), of "e_stack env" ?reg]
  obtain dev' where get: "pl_get (e_stack env) ?reg 0 0 dev0 = Inr (r, a1, a2, dev')"
    and dev': "block dev' a1 = d1" "block dev' a2 = d2"
      "\<forall>a. a \<notin> {a1, a2} \<longrightarrow> pd_blocks dev' a = pd_blocks dev0 a"
      "pd_log dev' = pd_log dev0 @ [(NETWORK_ACC_GET, []),
        (PLDDR_TO_PSDDR (init_trans (e_stack env) a1 (na_trans_addr r) (na_trans_size r)), []),
        (PLDDR_TO_PSDDR (init_trans (e_stack env) a2 (na_entropy_addr r) (na_entropy_size r)), [])]"
      "pd_mmaps dev' = ms" "pd_results dev' = rs" "pd_data dev' = ds" "list_all id (pd_ok dev')"
    by blast
  have "encode_channel env (addr, len) (status, reg, dev) =
      Inr (a1, a2, status AND NOT TP_STATUS_NETWORK_ENCODING, r, dev')"
    using ok plane get
    by (simp add: encode_channel_def pl_io_ok uint_not_minus_1 munmap_def syscall_ok_all pl_run_ok
        log_request_def dev0_def status_bits Let_def)
  then show ?thesis using dev' by (auto simp add: dev0_def)
qed

text \<open>C28: a channel is encoded by exactly six requests in this order: the samples of its block
  to the picture area, the registers with the picture's address and size, start, get, and one
  read for each of the two results, at the addresses and sizes the device reported; the results
  are in the blocks that are returned, the input block is released, and the busy bit is off.\<close>

theorem channel_request_order:
  assumes ok: "list_all id (pd_ok dev)" and plane: "addr \<noteq> 0" "addr \<noteq> MAP_FAILED"
    and regs: "pd_results dev = r # rs" "0 < unat (na_trans_size r)" "0 < unat (na_entropy_size r)"
    and mem: "pd_mmaps dev = Some (a1, b1) # Some (a2, b2) # ms"
      "a1 \<notin> {0, MAP_FAILED}" "a2 \<notin> {0, MAP_FAILED}" "a1 \<noteq> a2"
    and data: "pd_data dev = d1 # d2 # ds" "length d1 = unat (na_trans_size r)"
      "length d2 = unat (na_entropy_size r)"
  shows "\<exists>dev'. encode_channel env (addr, len) (status, reg, dev) =
      Inr (a1, a2, status AND NOT TP_STATUS_NETWORK_ENCODING, r, dev')
    \<and> block dev' a1 = d1 \<and> block dev' a2 = d2 \<and> (addr \<notin> {a1, a2} \<longrightarrow> pd_blocks dev' addr = None)
    \<and> pd_log dev' = pd_log dev
      @ [(PSDDR_TO_PLDDR (init_trans (e_stack env) addr PICTURE_BASE_ADDR (of_nat (2 * len))),
          block dev addr),
        (NETWORK_ACC_CONFIG (reg\<lparr> na_picture_addr := PICTURE_BASE_ADDR,
          na_picture_size := of_nat (2 * len) \<rparr>), []),
        (NETWORK_ACC_START, []), (NETWORK_ACC_GET, []),
        (PLDDR_TO_PSDDR (init_trans (e_stack env) a1 (na_trans_addr r) (na_trans_size r)), []),
        (PLDDR_TO_PSDDR (init_trans (e_stack env) a2 (na_entropy_addr r) (na_entropy_size r)), [])]"
  using encode_channel_ok [OF assms, of env len status reg] by blast

definition result_reg :: network_acc_reg where
  "result_reg = blank_reg\<lparr> na_trans_addr := 0x30000000, na_trans_size := 2,
     na_entropy_addr := 0x40000000, na_entropy_size := 18 \<rparr>"

definition result_dev :: pl_dev where
  "result_dev = sample_dev\<lparr> pd_mmaps := [Some (0x2000, []), Some (0x3000, [])],
     pd_blocks := [0x1000 \<mapsto> [7, 0]], pd_results := [result_reg],
     pd_data := [[1, 0], replicate 18 3] \<rparr>"

lemma channel_request_order_witness:
  "\<exists>dev'. encode_channel sample_env (0x1000, 1) (0, blank_reg, result_dev) =
      Inr (0x2000, 0x3000, 0 AND NOT TP_STATUS_NETWORK_ENCODING, result_reg, dev')
    \<and> block dev' 0x2000 = [1, 0] \<and> block dev' 0x3000 = replicate 18 3
    \<and> (0x1000 \<notin> {0x2000, 0x3000 :: u64} \<longrightarrow> pd_blocks dev' 0x1000 = None)
    \<and> pd_log dev' = pd_log result_dev
      @ [(PSDDR_TO_PLDDR (init_trans (e_stack sample_env) 0x1000 PICTURE_BASE_ADDR (of_nat (2 * 1))),
          block result_dev 0x1000),
        (NETWORK_ACC_CONFIG (blank_reg\<lparr> na_picture_addr := PICTURE_BASE_ADDR,
          na_picture_size := of_nat (2 * 1) \<rparr>), []),
        (NETWORK_ACC_START, []), (NETWORK_ACC_GET, []),
        (PLDDR_TO_PSDDR (init_trans (e_stack sample_env) 0x2000 (na_trans_addr result_reg)
          (na_trans_size result_reg)), []),
        (PLDDR_TO_PSDDR (init_trans (e_stack sample_env) 0x3000 (na_entropy_addr result_reg)
          (na_entropy_size result_reg)), [])]"
  by (rule channel_request_order [where rs = "[]" and ms = "[]" and ds = "[]"])
     (simp_all add: result_dev_def sample_dev_def result_reg_def MAP_FAILED_def)

lemma length_widened: "length (concat (map (\<lambda>b. le16 (ucast (b :: u8))) bs)) = 2 * length bs"
  by (induction bs) simp_all

lemma write_plane_ok:
  assumes "samples \<noteq> []" and "a \<noteq> MAP_FAILED" and "pd_blocks dev a = Some bs"
    and "length bs = 2 * length samples"
  shows "write_plane a samples dev = Inr (dev\<lparr> pd_blocks := (pd_blocks dev)
    (a \<mapsto> concat (map (\<lambda>b. le16 (ucast b)) samples)) \<rparr>)"
  using assms by (simp add: write_plane_def overlay_full length_widened)

lemma make_yuv_ok:
  assumes "0 < u" and "length addr = 6 * u + r" and "r < 6"
    and "pd_mmaps dev = Some (a0, b0) # Some (a1, b1) # Some (a2, b2) # ms"
    and "a0 \<noteq> MAP_FAILED" and "a1 \<noteq> MAP_FAILED" and "a2 \<noteq> MAP_FAILED"
    and "distinct [a0, a1, a2]"
  shows "\<exists>dev'. make_yuv addr dev = Inr ([(a0, u * 4), (a1, u), (a2, u)], dev')
    \<and> block dev' a0 = concat (map (\<lambda>b. le16 (ucast b)) (take (4 * u) addr))
    \<and> block dev' a1 = concat (map (\<lambda>b. le16 (ucast b)) (take u (drop (4 * u) addr)))
    \<and> block dev' a2 = concat (map (\<lambda>b. le16 (ucast b)) (take u (drop (5 * u) addr)))
    \<and> pd_mmaps dev' = ms \<and> pd_ok dev' = pd_ok dev \<and> pd_results dev' = pd_results dev \<and> pd_data dev' = pd_data dev"
proof -
  let ?w = "\<lambda>bs. concat (map (\<lambda>b. le16 (ucast b)) bs)"
  have u: "length addr div 6 = u" using assms(2,3) by simp
  define dev0 where "dev0 = dev\<lparr> pd_mmaps := ms, pd_blocks := (pd_blocks dev)
    (a0 \<mapsto> resize (u * 4 * 2) b0, a1 \<mapsto> resize (u * 2) b1, a2 \<mapsto> resize (u * 2) b2) \<rparr>"
  define dev1 where "dev1 = dev0\<lparr> pd_blocks := (pd_blocks dev0)(a0 \<mapsto> ?w (take (4 * u) addr)) \<rparr>"
  define dev2 where "dev2 = dev1\<lparr> pd_blocks := (pd_blocks dev1)(a1 \<mapsto> ?w (take u (drop (4 * u) addr))) \<rparr>"
  have ne: "take (4 * u) addr \<noteq> []" "take u (drop (4 * u) addr) \<noteq> []"
    "take u (drop (5 * u) addr) \<noteq> []"
    using assms(1,2) by auto
  have d: "a1 \<noteq> a0" "a2 \<noteq> a0" "a2 \<noteq> a1" using assms(8) by auto
  have "write_plane a0 (take (4 * u) addr) dev0 = Inr dev1"
    unfolding dev1_def using assms(2,5,8) d ne
    by (intro write_plane_ok [where bs = "resize (u * 4 * 2) b0"]) (simp_all add: dev0_def)
  moreover have "write_plane a1 (take u (drop (4 * u) addr)) dev1 = Inr dev2"
    unfolding dev2_def using assms(2,6,8) d ne
    by (intro write_plane_ok [where bs = "resize (u * 2) b1"]) (simp_all add: dev1_def dev0_def)
  moreover have "write_plane a2 (take u (drop (5 * u) addr)) dev2 =
      Inr (dev2\<lparr> pd_blocks := (pd_blocks dev2)(a2 \<mapsto> ?w (take u (drop (5 * u) addr))) \<rparr>)"
    using assms(2,7,8) d ne
    by (intro write_plane_ok [where bs = "resize (u * 2) b2"])
       (simp_all add: dev2_def dev1_def dev0_def)
  ultimately have "make_yuv addr dev = Inr ([(a0, u * 4), (a1, u), (a2, u)],
      dev2\<lparr> pd_blocks := (pd_blocks dev2)(a2 \<mapsto> ?w (take u (drop (5 * u) addr))) \<rparr>)"
    using assms(1,4) u by (simp add: make_yuv_def Let_def ps_mmap_def dev0_def)
  then show ?thesis
    using assms(8) by (auto simp add: block_def dev2_def dev1_def dev0_def)
qed

text \<open>The bytes of a picture are split into a plane of four sixths and two of one sixth,
  in this order and without gaps, each widened to 16-bit little-endian samples in a block of
  its own that they fill exactly; up to five bytes at the end are dropped.\<close>

theorem planes_of_a_picture:
  assumes "0 < u" and "length addr = 6 * u + r" and "r < 6"
    and "pd_mmaps dev = Some (a0, b0) # Some (a1, b1) # Some (a2, b2) # ms"
    and "a0 \<noteq> MAP_FAILED" and "a1 \<noteq> MAP_FAILED" and "a2 \<noteq> MAP_FAILED"
    and "distinct [a0, a1, a2]"
  shows "\<exists>dev'. make_yuv addr dev = Inr ([(a0, u * 4), (a1, u), (a2, u)], dev')
    \<and> block dev' a0 = concat (map (\<lambda>b. le16 (ucast b)) (take (4 * u) addr))
    \<and> block dev' a1 = concat (map (\<lambda>b. le16 (ucast b)) (take u (drop (4 * u) addr)))
    \<and> block dev' a2 = concat (map (\<lambda>b. le16 (ucast b)) (take u (drop (5 * u) addr)))"
  using make_yuv_ok [OF assms] by blast

lemma planes_of_a_picture_witness:
  "\<exists>dev'. make_yuv [1, 2, 3, 4, 5, 6, 7] (sample_dev\<lparr> pd_mmaps :=
        [Some (0x1000, []), Some (0x2000, []), Some (0x3000, [])] \<rparr>) =
      Inr ([(0x1000, 1 * 4), (0x2000, 1), (0x3000, 1)], dev')
    \<and> block dev' 0x1000 = concat (map (\<lambda>b. le16 (ucast b)) (take (4 * 1) [1, 2, 3, 4, 5, 6, 7 :: u8]))
    \<and> block dev' 0x2000 =
        concat (map (\<lambda>b. le16 (ucast b)) (take 1 (drop (4 * 1) [1, 2, 3, 4, 5, 6, 7 :: u8])))
    \<and> block dev' 0x3000 =
        concat (map (\<lambda>b. le16 (ucast b)) (take 1 (drop (5 * 1) [1, 2, 3, 4, 5, 6, 7 :: u8])))"
  by (rule planes_of_a_picture [where r = 1 and ms = "[]"])
     (simp_all add: sample_dev_def MAP_FAILED_def)

end
