(* ===== verification/Utils.thy ===== *)
theory Utils
  imports Prelude "HOL-Library.Char_ord"
begin

text \<open>
  \<^verbatim>\<open>utils.c\<close>, what both programs share: the help text, the directory of an output file and the
  dump of a block of memory; and \<open>sprintf\<close> into a block of a given size.
\<close>

section \<open>Strings\<close>

text \<open>The block has to hold the characters and the terminating NUL.\<close>

definition sprintf_to :: "nat \<Rightarrow> string \<Rightarrow> string res" where
  "sprintf_to cap s = (if length s < cap then Inr s else Inl OutOfBounds)"

fun decimal :: "nat \<Rightarrow> string" where
  "decimal n = (if n < 10 then [char_of (48 + n)] else decimal (n div 10) @ [char_of (48 + n mod 10)])"

declare decimal.simps [simp del]

text \<open>\<open>%d\<close> of a 32-bit value.\<close>

definition percent_d :: "u32 \<Rightarrow> string" where
  "percent_d n = (if sint n < 0 then CHR ''-'' # decimal (nat (- sint n)) else decimal (nat (sint n)))"

lemma decimal_nonempty: "1 \<le> length (decimal n)"
  by (subst decimal.simps) simp

lemma percent_d_nonempty: "1 \<le> length (percent_d n)"
  using decimal_nonempty by (auto simp add: percent_d_def)

text \<open>
  The name of an output file, \<open>"%s/%d"\<close> and a suffix of four characters, which both programs print
  into a block of \<open>malloc\<close> that has six bytes besides those of the directory. \<open>malloc\<close> tells whether
  so many bytes can be allocated, \<open>usable\<close> how many a block allocated for so many has, which is
  \<open>malloc_usable_size\<close>: the block may be larger than it was asked for.
\<close>

definition file_name_size :: "string \<Rightarrow> nat" where
  "file_name_size out_dir = length out_dir + 6"

definition print_file_name :: "(nat \<Rightarrow> bool) \<Rightarrow> (nat \<Rightarrow> nat) \<Rightarrow> string \<Rightarrow> u32 \<Rightarrow> string \<Rightarrow> string res" where
  "print_file_name malloc usable out_dir k suffix =
     (if \<not> malloc (file_name_size out_dir) then Inl NullDeref
      else sprintf_to (usable (file_name_size out_dir)) (out_dir @ ''/'' @ percent_d k @ suffix))"

text \<open>The block that is asked for is always too small; the one that is returned may be large enough.\<close>

lemma file_name_needs_more:
  assumes "length suffix = 4" and "malloc (file_name_size out_dir)"
  shows "usable (file_name_size out_dir) \<le> file_name_size out_dir \<Longrightarrow>
      print_file_name malloc usable out_dir k suffix = Inl OutOfBounds"
    and "length out_dir + length (percent_d k) + 6 \<le> usable (file_name_size out_dir) \<Longrightarrow>
      print_file_name malloc usable out_dir k suffix = Inr (out_dir @ ''/'' @ percent_d k @ suffix)"
  using assms percent_d_nonempty [of k] by (simp_all add: print_file_name_def sprintf_to_def file_name_size_def)

lemma percent_d_digit:
  assumes "unat k < 10"
  shows "length (percent_d k) = 1"
proof -
  have one: "length (decimal m) = 1" if "m < 10" for m
    using that by (subst decimal.simps) simp
  have u: "uint k = int (unat k)" by (simp only: uint_nat)
  have self: "signed_take_bit 31 (int n) = int n" if "n < 10" for n
    using that by (intro signed_take_bit_int_eq_self) simp_all
  have s: "sint k = int (unat k)" using self [OF assms] by (simp add: sint_uint)
  have "length (decimal (nat (sint k))) = 1" using assms unfolding s nat_int by (rule one)
  moreover have "\<not> sint k < 0" unfolding s by simp
  ultimately show ?thesis unfolding percent_d_def by (simp only: if_False)
qed

section \<open>Help\<close>

datatype has_arg = no_argument | required_argument | optional_argument

text \<open>An entry of the option table; \<open>None\<close> as a name ends it.\<close>

record option_entry =
  oe_name :: "string option"
  oe_has_arg :: has_arg
  oe_val :: nat

definition toupper :: "char \<Rightarrow> char" where
  "toupper c = (if CHR ''a'' \<le> c \<and> c \<le> CHR ''z'' then char_of (of_char c - 32 :: nat) else c)"

text \<open>
  One round of the loop: the three blocks are filled (\<open>e_malloc\<close> tells whether so many bytes can
  be allocated) and the entry is printed.
\<close>

definition print_entry :: "(nat \<Rightarrow> bool) \<Rightarrow> string \<Rightarrow> option_entry \<Rightarrow> string option res" where
  "print_entry malloc n ent =
     (if \<not> malloc (length n + 4) \<or> \<not> malloc (length n + 3) \<or> \<not> malloc (length n) then Inr None
      else
        and_then (sprintf_to (length n + 4)
            (if oe_val ent < 128 then ''(--'' @ n @ ''|-'' @ [char_of (oe_val ent)] @ '')'' else ''--'' @ n))
          (\<lambda>name.
        and_then (sprintf_to (length n) n) (\<lambda>meta.
        let meta = map toupper meta in
        and_then (case oe_has_arg ent of
            required_argument \<Rightarrow> sprintf_to (length n + 3) ('' '' @ meta)
          | optional_argument \<Rightarrow> sprintf_to (length n + 3) (''( '' @ meta @ '')'')
          | no_argument \<Rightarrow> Inr []) (\<lambda>value.
        Inr (Some ('' ['' @ name @ value @ '']''))))))"

fun print_entries :: "(nat \<Rightarrow> bool) \<Rightarrow> option_entry list \<Rightarrow> string \<Rightarrow> (int \<times> string) res" where
  "print_entries malloc [] out = Inl OutOfBounds"
| "print_entries malloc (ent # ents) out = (case oe_name ent of
      None \<Rightarrow> Inr (0, out)
    | Some n \<Rightarrow> and_then (print_entry malloc n ent) (\<lambda>s. case s of
          None \<Rightarrow> Inr (1, out)
        | Some s \<Rightarrow> print_entries malloc ents (out @ s)))"

definition print_help :: "(nat \<Rightarrow> bool) \<Rightarrow> (string \<Rightarrow> string) \<Rightarrow> option_entry list \<Rightarrow> string \<Rightarrow>
    (int \<times> string) res" where
  "print_help malloc basename longopts arg0 = print_entries malloc longopts (basename arg0)"

section \<open>Output files\<close>

text \<open>
  What the system does with the path of an output file: whether its directory exists, what
  \<open>mkdir\<close> returns, whether the file can be opened and closed, what the next calls of \<open>write\<close>
  return (\<open>None\<close> for an error, all bytes when the list is used up), and the bytes written.
\<close>

record out_file =
  of_stat_ok :: bool
  of_mkdir :: int
  of_open_ok :: bool
  of_close_ok :: bool
  of_writes :: "nat option list"
  of_bytes :: bytes

definition mkdir_p :: "out_file \<Rightarrow> int" where
  "mkdir_p f = (if \<not> of_stat_ok f then of_mkdir f else 0)"

definition write_out :: "bytes \<Rightarrow> out_file \<Rightarrow> int \<times> out_file" where
  "write_out bs f = (case of_writes f of
       [] \<Rightarrow> (int (length bs), f\<lparr> of_bytes := of_bytes f @ bs \<rparr>)
     | None # ws \<Rightarrow> (- 1, f\<lparr> of_writes := ws \<rparr>)
     | Some k # ws \<Rightarrow> (int (min k (length bs)),
         f\<lparr> of_writes := ws, of_bytes := of_bytes f @ take k bs \<rparr>))"

text \<open>\<open>O_TRUNC\<close> empties the file.\<close>

definition open_out :: "out_file \<Rightarrow> out_file" where
  "open_out f = f\<lparr> of_bytes := [] \<rparr>"

definition dump_mem :: "bytes \<Rightarrow> nat \<Rightarrow> out_file \<Rightarrow> (int \<times> out_file) res" where
  "dump_mem addr len f =
     (if mkdir_p f = - 1 then Inr (- 2, f)
      else if \<not> of_open_ok f then Inr (- 3, f)
      else if length addr < len then Inl OutOfBounds
      else let (n, f) = write_out (take len addr) (open_out f) in
        if \<not> of_close_ok f then Inr (- 4, f) else Inr (n, f))"

text \<open>A path that nothing keeps from being written.\<close>

definition writable :: "out_file \<Rightarrow> bool" where
  "writable f \<longleftrightarrow> of_stat_ok f \<and> of_open_ok f \<and> of_close_ok f \<and> of_writes f = []"

definition good_file :: out_file where
  "good_file = \<lparr> of_stat_ok = True, of_mkdir = 0, of_open_ok = True, of_close_ok = True,
     of_writes = [], of_bytes = [] \<rparr>"

lemma dump_mem_ok:
  assumes "writable f"
  shows "dump_mem addr (length addr) f = Inr (int (length addr), f\<lparr> of_bytes := addr \<rparr>)"
  using assms by (simp add: dump_mem_def mkdir_p_def writable_def open_out_def write_out_def)

section \<open>Properties\<close>

lemma print_entry_overflows:
  assumes "\<And>n. malloc n" and "oe_val ent < 128"
  shows "print_entry malloc n ent = Inl OutOfBounds"
  using assms by (simp add: print_entry_def sprintf_to_def)

text \<open>
  The help of a program overruns its blocks. For every table with an option, whatever the
  name, the first entry is printed into a block four bytes longer than the name, but
  \<open>(--name|-c)\<close> and the NUL need eight bytes more.
\<close>

theorem print_help_overflows:
  assumes "longopts = ent # ents" and "oe_name ent = Some n" and "oe_val ent < 128" and "\<And>k. malloc k"
  shows "print_help malloc basename longopts arg0 = Inl OutOfBounds"
  using print_entry_overflows [OF assms(4,3)] assms(1,2) by (simp add: print_help_def)

definition help_option :: option_entry where
  "help_option = \<lparr> oe_name = Some ''help'', oe_has_arg = no_argument, oe_val = 104 \<rparr>"

definition end_option :: option_entry where
  "end_option = \<lparr> oe_name = None, oe_has_arg = no_argument, oe_val = 0 \<rparr>"

theorem print_help_overflows_witness:
  "print_help (\<lambda>_. True) (\<lambda>s. s) [help_option, end_option] ''master'' = Inl OutOfBounds"
  by (rule print_help_overflows [of _ help_option "[end_option]" "''help''"])
     (simp_all add: help_option_def)

end
