(* ===== verification/Master.thy ===== *)
theory Master
  imports Transport Utils
begin

text \<open>
  \<^verbatim>\<open>master.c\<close>, the program on the ground: it uploads pictures to the slave and downloads what
  they are encoded to. Its waiting loops end only when the slave answers, so they are partial
  functions, \<open>None\<close> when they do not return; the terminal is the record of \<open>Transport\<close>.
\<close>

section \<open>Options\<close>

record master_opt =
  mo_tty :: string
  mo_out_dir :: string
  mo_files :: "string list"
  mo_number :: u32
  mo_timeout :: int
  mo_safe_time :: u32
  mo_level :: "3 word"
  mo_binary :: bool
  mo_dump :: bool

text \<open>\<open>out_dir\<close> is what \<open>wordexp\<close> made of \<open>~/Downloads\<close>, \<open>None\<close> when it failed. \<open>LOG_NOTICE\<close> is 5.\<close>

definition master_init_opt :: "string option \<Rightarrow> master_opt" where
  "master_init_opt out_dir = \<lparr> mo_tty = ''/dev/ttyUSB1'',
     mo_out_dir = (case out_dir of None \<Rightarrow> ''.'' | Some d \<Rightarrow> d), mo_files = [], mo_number = 0,
     mo_timeout = - 1, mo_safe_time = 3, mo_level = 5, mo_binary = False, mo_dump = False \<rparr>"

fun master_parse_options ::
    "(string \<Rightarrow> int) \<Rightarrow> (char \<times> string) list \<Rightarrow> master_opt \<Rightarrow> int \<times> master_opt" where
  "master_parse_options strtol [] opt = (0, opt)"
| "master_parse_options strtol ((c, optarg) # cs) opt =
     (if c = CHR ''V'' then (2, opt)
      else if c = CHR ''h'' then (1, opt)
      else if c = CHR ''v'' then master_parse_options strtol cs (opt\<lparr> mo_level := mo_level opt + 1 \<rparr>)
      else if c = CHR ''q'' then master_parse_options strtol cs (opt\<lparr> mo_level := mo_level opt - 1 \<rparr>)
      else if c = CHR ''b'' then master_parse_options strtol cs (opt\<lparr> mo_binary := True \<rparr>)
      else if c = CHR ''d'' then master_parse_options strtol cs (opt\<lparr> mo_dump := True \<rparr>)
      else if c = CHR ''t'' then master_parse_options strtol cs (opt\<lparr> mo_tty := optarg \<rparr>)
      else if c = CHR ''T'' then master_parse_options strtol cs (opt\<lparr> mo_timeout := strtol optarg \<rparr>)
      else if c = CHR ''S'' then
        master_parse_options strtol cs (opt\<lparr> mo_safe_time := word_of_int (strtol optarg) \<rparr>)
      else if c = CHR ''o'' then master_parse_options strtol cs (opt\<lparr> mo_out_dir := optarg \<rparr>)
      else (- 1, opt))"

definition master_parse ::
    "(string \<Rightarrow> int) \<Rightarrow> string option \<Rightarrow> (char \<times> string) list \<Rightarrow> string list \<Rightarrow> int \<times> master_opt" where
  "master_parse strtol out_dir options operands =
     (case master_parse_options strtol options (master_init_opt out_dir) of
        (r, opt) \<Rightarrow> if r = 0
          then (0, opt\<lparr> mo_number := of_nat (length operands), mo_files := operands \<rparr>)
          else (r, opt))"

section \<open>Output files\<close>

text \<open>Writing more bytes than a frame's data has would go on behind it.\<close>

definition dump_data_frames :: "data_frame_t list \<Rightarrow> u16 \<Rightarrow> out_file \<Rightarrow> (int \<times> out_file) res" where
  "dump_data_frames input_data_frames n_frame f =
     (if mkdir_p f = - 1 then Inr (- 1, f)
      else if \<not> of_open_ok f then Inr (- 1, f)
      else and_then (for_each [0..<unat n_frame] (\<lambda>i (sz, f).
          and_then (get_at input_data_frames i) (\<lambda>df.
            if length (df_data df) < unat (df_data_len df) then Inl OutOfBounds
            else let (n, f) = write_out (take (unat (df_data_len df)) (df_data df)) f
              in Inr (sz + n, f)))
          (0, open_out f))
        (\<lambda>(sz, f). Inr (if of_close_ok f then sz else - 1, f)))"

section \<open>Commands\<close>

text \<open>
  A command is repeated until an answer to it comes. The clock, which only decides how long the
  program sleeps between two attempts, is left out.
\<close>

partial_function (option) send_and_receive_frame ::
    "frame_t \<Rightarrow> tty_t \<Rightarrow> (int \<times> frame_t \<times> tty_t) res option" where
  "send_and_receive_frame output tty =
     (case send_frame output tty of
        Inl f \<Rightarrow> Some (Inl f)
      | Inr (r, tty) \<Rightarrow>
          if 0 < r then
            (case receive_frame zero_frame tty of
               Inl f \<Rightarrow> Some (Inl f)
             | Inr (n, input, tty) \<Rightarrow>
                 if n \<le> 0 \<or> f_address input \<noteq> TP_ADDRESS_SLAVE
                   \<or> f_frame_type input \<noteq> f_frame_type output \<or> f_n_file input \<noteq> f_n_file output
                 then send_and_receive_frame output tty
                 else Some (Inr (n, input, tty)))
          else send_and_receive_frame output tty)"

text \<open>The frame that is sent, the answer, and the terminal.\<close>

definition query_status :: "frame_t \<Rightarrow> tty_t \<Rightarrow> (frame_t \<times> frame_t \<times> tty_t) res option" where
  "query_status output tty =
     (let output = output\<lparr> f_frame_type := TP_FRAME_TYPE_QUERY, f_status := 0 \<rparr> in
      bind_opt (send_and_receive_frame output tty) (\<lambda>(_, input, tty). Some (Inr (output, input, tty))))"

section \<open>Uploading\<close>

text \<open>
  The frames of a picture, one after the other; the results of the senders are not looked at.
  \<open>page_size\<close> is the one of \<open>sysconf\<close>; the program sleeps once for as many frames as fit into
  a page.
\<close>

definition send_data_frames :: "nat \<Rightarrow> bool \<Rightarrow> u16 \<Rightarrow> data_frame_t list \<times> tty_t \<Rightarrow>
    (data_frame_t list \<times> tty_t) res" where
  "send_data_frames page_size binary n_frame st =
     for_each [0..<unat n_frame] (\<lambda>i (fs, tty).
       if page_size div sizeof_data_frame_t = 0 then Inl DivByZero
       else and_then (get_at fs i) (\<lambda>f.
         if binary then
           (let (_, tty) = send_data_frame_directly f tty in Inr (fs, tty))
         else and_then (send_data_frame f tty) (\<lambda>(_, f, tty). Inr (fs[i := f], tty))))
       st"

partial_function (option) upload_loop :: "nat \<Rightarrow> bool \<Rightarrow> frame_t \<Rightarrow> data_frame_t list \<Rightarrow> tty_t \<Rightarrow>
    (frame_t \<times> frame_t \<times> tty_t) res option" where
  "upload_loop page_size binary output fs tty =
     (let output = output\<lparr> f_frame_type := TP_FRAME_TYPE_SEND \<rparr> in
      case send_and_receive_frame output tty of
        None \<Rightarrow> None
      | Some (Inl f) \<Rightarrow> Some (Inl f)
      | Some (Inr (_, input, tty)) \<Rightarrow>
          (case send_data_frames page_size binary (f_n_frame output) (fs, tty) of
             Inl f \<Rightarrow> Some (Inl f)
           | Inr (fs, tty) \<Rightarrow>
               (case query_status output tty of
                  None \<Rightarrow> None
                | Some (Inl f) \<Rightarrow> Some (Inl f)
                | Some (Inr (output, input, tty)) \<Rightarrow>
                    if f_status input = TP_STATUS_UNRECEIVED
                    then upload_loop page_size binary output fs tty
                    else Some (Inr (output, input, tty)))))"

text \<open>
  What surrounds the program. For the \<open>k\<close>-th operand: the file, the fresh blocks its frames go
  into, and the file of the dump and of the download. \<open>me_tcflush\<close> is what \<open>tcflush\<close> does to
  the terminal, \<open>None\<close> when it fails; \<open>me_usable\<close> is the usable size of a block of so many bytes,
  \<open>me_junk\<close> what an uninitialised output argument holds.
\<close>

record master_env =
  me_file :: "nat \<Rightarrow> file_env"
  me_bytes :: "nat \<Rightarrow> bytes option"
  me_frames :: "nat \<Rightarrow> data_frame_t list option"
  me_dat :: "nat \<Rightarrow> tty_t option"
  me_dat_close_ok :: bool
  me_bin :: "nat \<Rightarrow> out_file"
  me_malloc :: "nat \<Rightarrow> bool"
  me_usable :: "nat \<Rightarrow> nat"
  me_tcflush :: "tty_t \<Rightarrow> tty_t option"
  me_page_size :: nat
  me_junk :: "u16 \<times> data_frame_t list option"

record master_t =
  ms_output :: frame_t
  ms_tty :: tty_t
  ms_n_files :: "u32 option list"

definition output_filename :: "master_env \<Rightarrow> string \<Rightarrow> u32 \<Rightarrow> string \<Rightarrow> string res" where
  "output_filename env out_dir k suffix = print_file_name (me_malloc env) (me_usable env) out_dir k suffix"

text \<open>With \<open>--dump\<close> the frames are written to a file the way they are sent.\<close>

definition dump_upload :: "master_env \<Rightarrow> master_opt \<Rightarrow> nat \<Rightarrow> u16 \<Rightarrow> data_frame_t list \<Rightarrow> unit res" where
  "dump_upload env opt k n_frame fs =
     (if \<not> mo_dump opt then Inr ()
      else and_then (output_filename env (mo_out_dir opt) (of_nat k) ''.dat'') (\<lambda>_.
        case me_dat env k of
          None \<Rightarrow> Inl ErrExit
        | Some dat \<Rightarrow> and_then (for_each [0..<unat n_frame] (\<lambda>i dat.
              and_then (get_at fs i) (\<lambda>f. and_then (write_data_frame f dat) (\<lambda>(_, dat). Inr dat))) dat)
            (\<lambda>_. if me_dat_close_ok env then Inr () else Inl ErrExit)))"

text \<open>
  The body of the first loop of \<open>main\<close>. A file that cannot be opened is skipped before its
  number is stored.
\<close>

definition upload_file :: "master_env \<Rightarrow> master_opt \<Rightarrow> nat \<Rightarrow> master_t \<Rightarrow> master_t res option" where
  "upload_file env opt k st =
     (let output = (ms_output st)\<lparr> f_frame_type := TP_FRAME_TYPE_SEND \<rparr> in
      bind_opt (Some (get_at (mo_files opt) k)) (\<lambda>_.
      bind_opt (Some (get_data_frames (me_file env k) (me_bytes env k) (me_frames env k)
        (of_nat k, fst (me_junk env), snd (me_junk env)) (mo_binary opt)))
        (\<lambda>(ret_status, n_file, n_frame, frames).
      let output = output\<lparr> f_n_file := n_file, f_n_frame := n_frame \<rparr>; st = st\<lparr> ms_output := output \<rparr> in
      if ret_status = 1 then Some (Inr st)
      else if ret_status = 3 then Some (Inl ErrExit)
      else
        bind_opt (Some (put_at (ms_n_files st) k (Some n_file))) (\<lambda>n_files.
        let st = st\<lparr> ms_n_files := n_files \<rparr>; fs = (case frames of None \<Rightarrow> [] | Some fs \<Rightarrow> fs) in
        bind_opt (Some (dump_upload env opt k n_frame fs)) (\<lambda>_.
        bind_opt (query_status output (ms_tty st)) (\<lambda>(output, input, tty).
        if f_status input \<noteq> TP_STATUS_UNRECEIVED
        then Some (Inr (st\<lparr> ms_output := output, ms_tty := tty \<rparr>))
        else bind_opt (upload_loop (me_page_size env) (mo_binary opt) output fs tty)
          (\<lambda>(output, input, tty). Some (Inr (st\<lparr> ms_output := output, ms_tty := tty \<rparr>)))))))))"

section \<open>Downloading\<close>

partial_function (option) wait_processed ::
    "frame_t \<Rightarrow> tty_t \<Rightarrow> (frame_t \<times> frame_t \<times> tty_t) res option" where
  "wait_processed output tty =
     (case query_status output tty of
        None \<Rightarrow> None
      | Some (Inl f) \<Rightarrow> Some (Inl f)
      | Some (Inr (output, input, tty)) \<Rightarrow>
          if f_status input \<noteq> TP_STATUS_PROCESSED then wait_processed output tty
          else Some (Inr (output, input, tty)))"

partial_function (option) download_loop :: "(tty_t \<Rightarrow> tty_t option) \<Rightarrow> frame_t \<Rightarrow> data_frame_t list \<Rightarrow>
    tty_t \<Rightarrow> (frame_t \<times> frame_t \<times> data_frame_t list \<times> tty_t) res option" where
  "download_loop tcflush output fs tty =
     (let output = output\<lparr> f_frame_type := TP_FRAME_TYPE_RECV \<rparr> in
      case send_and_receive_frame output tty of
        None \<Rightarrow> None
      | Some (Inl f) \<Rightarrow> Some (Inl f)
      | Some (Inr (_, input, tty)) \<Rightarrow>
          (case receive_data_frames fs input tty of
             Inl f \<Rightarrow> Some (Inl f)
           | Inr (missing, fs, tty) \<Rightarrow>
               (case tcflush tty of
                  None \<Rightarrow> Some (Inl ErrExit)
                | Some tty \<Rightarrow> if 0 < missing then download_loop tcflush output fs tty
                    else Some (Inr (output, input, fs, tty)))))"

text \<open>The body of the second loop of \<open>main\<close>, with the file it writes.\<close>

definition download_file :: "master_env \<Rightarrow> master_opt \<Rightarrow> nat \<Rightarrow> master_t \<Rightarrow>
    (master_t \<times> out_file) res option" where
  "download_file env opt k st =
     bind_opt (Some (get_at (ms_n_files st) k)) (\<lambda>entry. case entry of
       None \<Rightarrow> Some (Inl Uninit)
     | Some n_file \<Rightarrow>
         bind_opt (wait_processed ((ms_output st)\<lparr> f_n_file := n_file \<rparr>) (ms_tty st))
           (\<lambda>(output, input, tty).
         if \<not> me_malloc env (unat (f_n_frame input) * sizeof_data_frame_t) then Some (Inl ErrExit)
         else bind_opt (download_loop (me_tcflush env) output
             (replicate (unat (f_n_frame input)) blank_data_frame) tty)
           (\<lambda>(output, input, fs, tty).
         bind_opt (Some (output_filename env (mo_out_dir opt) n_file ''.bin'')) (\<lambda>_.
         bind_opt (Some (dump_data_frames fs (f_n_frame input) (me_bin env k))) (\<lambda>(_, f).
         Some (Inr (st\<lparr> ms_output := output, ms_tty := tty \<rparr>, f)))))))"

text \<open>\<open>main\<close> after the terminal is set up.\<close>

definition master_main :: "master_env \<Rightarrow> master_opt \<Rightarrow> tty_t \<Rightarrow> (master_t \<times> out_file list) res option" where
  "master_main env opt tty =
     (case me_tcflush env tty of
        None \<Rightarrow> Some (Inl ErrExit)
      | Some tty \<Rightarrow>
          let n = unat (mo_number opt);
              st = \<lparr> ms_output = zero_frame\<lparr> f_address := TP_ADDRESS_MASTER \<rparr>, ms_tty = tty,
                ms_n_files = replicate n None \<rparr>
          in bind_opt (for_each_opt [0..<n] (upload_file env opt) st) (\<lambda>st.
               for_each_opt [0..<n] (\<lambda>k (st, files). bind_opt (download_file env opt k st)
                 (\<lambda>(st, f). Some (Inr (st, files @ [f])))) (st, [])))"

section \<open>Commands and answers\<close>

definition frame_image :: "frame_t \<Rightarrow> bytes" where
  "frame_image f = frame_bytes (frame_to_wire f)"

text \<open>An answer to a command, and an attempt that brings none: a timeout, or twelve bytes that
  are not a frame or not an answer.\<close>

definition answers :: "frame_t \<Rightarrow> frame_t \<Rightarrow> bool" where
  "answers output input \<longleftrightarrow> f_address input = TP_ADDRESS_SLAVE \<and>
     f_frame_type input = f_frame_type output \<and> f_n_file input = f_n_file output"

definition bad_attempt :: "frame_t \<Rightarrow> bytes option \<Rightarrow> bool" where
  "bad_attempt output a = (case a of None \<Rightarrow> True | Some img \<Rightarrow> length img = 12 \<and>
     (frame_accepted img \<longrightarrow> \<not> answers output (frame_from_wire (bytes_frame img))))"

fun heard :: "bytes option list \<Rightarrow> bytes option list" where
  "heard [] = []"
| "heard (None # as) = heard as"
| "heard (Some img # as) = Some img # heard as"

lemma send_and_receive_frame_answers:
  assumes "send_and_receive_frame output tty = Some (Inr (n, input, tty'))"
  shows "0 < n" and "answers output input"
proof -
  have "\<forall>n input tty'. r = Inr (n, input, tty') \<longrightarrow> 0 < n \<and> answers output input"
    if "send_and_receive_frame output tty = Some r" for r
  proof (rule send_and_receive_frame.raw_induct [OF _ that])
    fix rec "output" tty r
    assume IH: "\<And>output tty r. rec output tty = Some r \<Longrightarrow>
        \<forall>n input tty'. r = Inr (n, input, tty') \<longrightarrow> 0 < n \<and> answers output input"
      and step: "(case send_frame output tty of
        Inl f \<Rightarrow> Some (Inl f)
      | Inr (r, tty) \<Rightarrow>
          if 0 < r then
            (case receive_frame zero_frame tty of
               Inl f \<Rightarrow> Some (Inl f)
             | Inr (n, input, tty) \<Rightarrow>
                 if n \<le> 0 \<or> f_address input \<noteq> TP_ADDRESS_SLAVE
                   \<or> f_frame_type input \<noteq> f_frame_type output \<or> f_n_file input \<noteq> f_n_file output
                 then rec output tty else Some (Inr (n, input, tty)))
          else rec output tty) = Some r"
    show "\<forall>n input tty'. r = Inr (n, input, tty') \<longrightarrow> 0 < n \<and> answers output input"
      using step IH by (auto simp add: answers_def split: sum.splits prod.splits if_splits)
  qed
  then show "0 < n" "answers output input" using assms by blast+
qed

lemma send_idle:
  assumes "tx_idle tty"
  shows "send_frame f tty = Inr (12, tty\<lparr> tx_bytes := tx_bytes tty @ frame_image f \<rparr>)"
  using send_frame_idle [OF assms] by (simp add: frame_image_def)

lemma attempt_ok:
  assumes "tx_idle tty" and "rx_ready tty = True # bl" and "rx_reads tty = Some (frame_image a) # rs"
    and "answers output a"
  shows "send_and_receive_frame output tty = Some (Inr (12, frame_received a,
    tty\<lparr> rx_ready := bl, rx_reads := rs, tx_bytes := tx_bytes tty @ frame_image output \<rparr>))"
proof -
  let ?tty = "tty\<lparr> tx_bytes := tx_bytes tty @ frame_image output \<rparr>"
  have "length (frame_image a) = 12" by (simp add: frame_image_def)
  moreover have "epoll_rx ?tty = (True, ?tty\<lparr> rx_ready := bl \<rparr>)" using assms(2) by (simp add: epoll_rx_def)
  ultimately have "receive_frame zero_frame ?tty =
      Inr (12, frame_received a, ?tty\<lparr> rx_ready := bl, rx_reads := rs \<rparr>)"
    using receive_frame_image [of ?tty "?tty\<lparr> rx_ready := bl \<rparr>" "frame_image a" rs zero_frame] assms(3)
      fr.good_enc [of a] fr.dec_enc [of a] by (simp add: frame_image_def)
  moreover have "answers output (frame_received a)" using assms(4) by (simp add: answers_def frame_received_def)
  ultimately show ?thesis
    using send_idle [OF assms(1), of "output"]
    by (subst send_and_receive_frame.simps) (simp add: answers_def)
qed

lemma attempt_bad:
  assumes "tx_idle tty" and "rx_ready tty = (a \<noteq> None) # bl" and "bad_attempt output a"
    and "rx_reads tty = heard [a] @ rs"
  shows "send_and_receive_frame output tty = send_and_receive_frame output
    (tty\<lparr> rx_ready := bl, rx_reads := rs, tx_bytes := tx_bytes tty @ frame_image output \<rparr>)"
proof -
  let ?tty = "tty\<lparr> tx_bytes := tx_bytes tty @ frame_image output \<rparr>"
  let ?next = "tty\<lparr> rx_ready := bl, rx_reads := rs, tx_bytes := tx_bytes tty @ frame_image output \<rparr>"
  have ready: "epoll_rx ?tty = (a \<noteq> None, ?tty\<lparr> rx_ready := bl \<rparr>)"
    using assms(2) by (simp add: epoll_rx_def)
  have "\<exists>n input. receive_frame zero_frame ?tty = Inr (n, input, ?next) \<and> (n \<le> 0 \<or> \<not> answers output input)"
  proof (cases a)
    case None
    then show ?thesis using ready assms(4) by (simp add: receive_frame_def)
  next
    case (Some img)
    then show ?thesis
      using receive_frame_image [of ?tty "?tty\<lparr> rx_ready := bl \<rparr>" img rs zero_frame] ready assms(3,4)
      by (auto simp add: bad_attempt_def)
  qed
  then show ?thesis
    using send_idle [OF assms(1), of "output"]
    by (subst send_and_receive_frame.simps) (auto simp add: answers_def)
qed

lemma heard_append: "heard (as @ bs) = heard as @ heard bs"
  by (induction "as" rule: heard.induct) simp_all

text \<open>
  C10: a command is repeated until it is answered. Whatever the first attempts bring, timeouts,
  damaged frames or frames that are not answers, when an answer comes at last the function
  returns it, having sent the command once for each attempt; and what it returns is always an
  answer of the slave to this command.
\<close>

theorem command_repeated_until_answered:
  assumes "tx_idle tty" and "list_all (bad_attempt output) as" and "answers output a"
    and "rx_ready tty = map (\<lambda>a. a \<noteq> None) as @ True # bl"
    and "rx_reads tty = heard as @ Some (frame_image a) # rs"
  shows "send_and_receive_frame output tty = Some (Inr (12, frame_received a,
      tty\<lparr> rx_ready := bl, rx_reads := rs,
        tx_bytes := tx_bytes tty @ concat (replicate (length as + 1) (frame_image output)) \<rparr>)) \<and>
    answers output (frame_received a)"
proof -
  have "send_and_receive_frame output tty = Some (Inr (12, frame_received a,
      tty\<lparr> rx_ready := bl, rx_reads := rs,
        tx_bytes := tx_bytes tty @ concat (replicate (length as + 1) (frame_image output)) \<rparr>))"
    using assms
  proof (induction "as" arbitrary: tty)
    case Nil
    then show ?case using attempt_ok [of tty bl a rs "output"] by simp
  next
    case (Cons b bs)
    let ?tty = "tty\<lparr> rx_ready := map (\<lambda>a. a \<noteq> None) bs @ True # bl,
      rx_reads := heard bs @ Some (frame_image a) # rs, tx_bytes := tx_bytes tty @ frame_image output \<rparr>"
    have "send_and_receive_frame output tty = send_and_receive_frame output ?tty"
      using Cons.prems heard_append [of "[b]" bs] by (intro attempt_bad [where a = b]) simp_all
    then show ?case using Cons.IH [of ?tty] Cons.prems by simp
  qed
  then show ?thesis using send_and_receive_frame_answers by blast
qed

definition slave_answer :: frame_t where
  "slave_answer = query_frame\<lparr> f_address := TP_ADDRESS_SLAVE, f_status := TP_STATUS_PROCESSED \<rparr>"

text \<open>After a timeout and twelve zeros.\<close>

theorem command_repeated_until_answered_witness:
  "send_and_receive_frame query_frame (idle_tty\<lparr> rx_ready := [False, True, True],
      rx_reads := [Some (replicate 12 0), Some (frame_image slave_answer)] \<rparr>) =
    Some (Inr (12, frame_received slave_answer, idle_tty\<lparr> rx_ready := [], rx_reads := [],
      tx_bytes := [] @ concat (replicate 3 (frame_image query_frame)) \<rparr>)) \<and>
   answers query_frame (frame_received slave_answer)"
proof -
  let ?tty = "idle_tty\<lparr> rx_ready := [False, True, True],
    rx_reads := [Some (replicate 12 0), Some (frame_image slave_answer)] \<rparr>"
  have "bad_attempt query_frame (Some (replicate 12 0))"
    by (simp add: bad_attempt_def answers_def query_frame_def frame_from_wire_def bytes_frame_def
        const_defs numeral_eq_Suc)
  then have "list_all (bad_attempt query_frame) [None, Some (replicate 12 0)]"
    by (simp add: bad_attempt_def)
  moreover have "answers query_frame slave_answer"
    by (simp add: answers_def slave_answer_def query_frame_def)
  moreover have "tx_idle ?tty" by (simp add: tx_idle_def idle_tty_def)
  ultimately show ?thesis
    using command_repeated_until_answered [of ?tty query_frame "[None, Some (replicate 12 0)]"
        slave_answer "[]" "[]"]
    by (simp add: idle_tty_def numeral_3_eq_3)
qed

section \<open>The upload\<close>

lemma number_frames_snoc:
  "number_frames c (fs @ [f]) = number_frames c fs @ [f\<lparr> df_n_total_frame := c + of_nat (length fs) \<rparr>]"
  by (induction c fs rule: number_frames.induct) simp_all

lemma number_frames_again: "number_frames c (number_frames d fs) = number_frames c fs"
  by (induction c fs arbitrary: d rule: number_frames.induct) simp_all

lemma send_data_frames_idle:
  assumes "tx_idle tty" and "list_all sendable fs" and "unat n_frame = length fs"
    and "sizeof_data_frame_t \<le> page_size"
  defines "c \<equiv> n_total_frame tty"
  shows "send_data_frames page_size False n_frame (fs, tty) = Inr (number_frames c fs,
    tty\<lparr> n_total_frame := c + of_nat (length fs),
      tx_bytes := tx_bytes tty @ concat (map wire (number_frames c fs)) \<rparr>)"
proof -
  let ?I = "\<lambda>i (gs, t). gs = number_frames c (take i fs) @ drop i fs \<and>
    t = tty\<lparr> n_total_frame := c + of_nat i,
      tx_bytes := tx_bytes tty @ concat (map wire (number_frames c (take i fs))) \<rparr>"
  have "0 < page_size div sizeof_data_frame_t"
    using assms(4) by (simp add: div_greater_zero_iff sizeof_data_frame_t_def)
  then have page: "page_size div sizeof_data_frame_t \<noteq> 0" by simp
  have "\<exists>st. send_data_frames page_size False n_frame (fs, tty) = Inr st \<and> ?I (unat n_frame) st"
    unfolding send_data_frames_def
  proof (rule for_each_invariant [where I = ?I])
    fix i st
    assume i: "i < unat n_frame" and I: "?I i st"
    let ?tty = "tty\<lparr> n_total_frame := c + of_nat i,
      tx_bytes := tx_bytes tty @ concat (map wire (number_frames c (take i fs))) \<rparr>"
    have n: "i < length fs" using i assms(3) by simp
    moreover have "st = (number_frames c (take i fs) @ drop i fs, ?tty)" using I by auto
    moreover have "(number_frames c (take i fs) @ drop i fs) ! i = fs ! i"
      using n by (simp add: nth_append)
    moreover have "sendable (fs ! i)" using assms(2) n by (simp add: list_all_length)
    moreover have "tx_idle ?tty" using assms(1) by simp
    moreover have "(number_frames c (take i fs) @ drop i fs)[i := f] =
        number_frames c (take i fs) @ f # drop (Suc i) fs" for f
      using n by (simp add: list_update_append flip: Cons_nth_drop_Suc)
    ultimately show "\<exists>s'. (case st of (fs, tty) \<Rightarrow>
        if page_size div sizeof_data_frame_t = 0 then Inl DivByZero
        else and_then (get_at fs i) (\<lambda>f.
          if False then (let (_, tty) = send_data_frame_directly f tty in Inr (fs, tty))
          else and_then (send_data_frame f tty) (\<lambda>(_, f, tty). Inr (fs[i := f], tty)))) = Inr s' \<and>
        ?I (Suc i) s'"
      using page send_data_frame_idle [of ?tty "fs ! i"]
      by (simp add: take_Suc_conv_app_nth number_frames_snoc)
  qed (use assms(1) in \<open>simp_all add: c_def\<close>)
  then show ?thesis using assms(3) by auto
qed

text \<open>What an upload puts on the line, one round after the other, \<open>c\<close> frames having been sent.\<close>

definition send_request :: "frame_t \<Rightarrow> frame_t" where
  "send_request output = output\<lparr> f_frame_type := TP_FRAME_TYPE_SEND \<rparr>"

definition query_request :: "frame_t \<Rightarrow> frame_t" where
  "query_request output = output\<lparr> f_frame_type := TP_FRAME_TYPE_QUERY, f_status := 0 \<rparr>"

primrec upload_bytes :: "frame_t \<Rightarrow> data_frame_t list \<Rightarrow> nat \<Rightarrow> u24 \<Rightarrow> bytes" where
  "upload_bytes output fs 0 c = []"
| "upload_bytes output fs (Suc m) c = frame_image (send_request output)
     @ concat (map wire (number_frames c fs)) @ frame_image (query_request output)
     @ upload_bytes output fs m (c + of_nat (length fs))"

lemma upload_bytes_numbered [simp]: "upload_bytes output (number_frames d fs) m c = upload_bytes output fs m c"
  by (induction m arbitrary: c) (simp_all add: number_frames_again)

lemma upload_round:
  assumes "tx_idle tty" and "list_all sendable fs" and "unat (f_n_frame output) = length fs"
    and "sizeof_data_frame_t \<le> page_size" and "f_status output = 0"
    and "answers (send_request output) a" and "answers (query_request output) q"
    and "rx_ready tty = True # True # bl"
    and "rx_reads tty = Some (frame_image a) # Some (frame_image q) # rs"
  defines "tty' \<equiv> tty\<lparr> rx_ready := bl, rx_reads := rs,
    n_total_frame := n_total_frame tty + of_nat (length fs),
    tx_bytes := tx_bytes tty @ upload_bytes output fs 1 (n_total_frame tty) \<rparr>"
  shows "upload_loop page_size False output fs tty =
    (if f_status q = TP_STATUS_UNRECEIVED
     then upload_loop page_size False (query_request output) (number_frames (n_total_frame tty) fs) tty'
     else Some (Inr (query_request output, frame_received q, tty')))"
proof -
  let ?t1 = "tty\<lparr> rx_ready := True # bl, rx_reads := Some (frame_image q) # rs,
    tx_bytes := tx_bytes tty @ frame_image (send_request output) \<rparr>"
  let ?t2 = "?t1\<lparr> n_total_frame := n_total_frame tty + of_nat (length fs),
    tx_bytes := tx_bytes ?t1 @ concat (map wire (number_frames (n_total_frame tty) fs)) \<rparr>"
  have s: "send_and_receive_frame (send_request output) tty = Some (Inr (12, frame_received a, ?t1))"
    using attempt_ok [OF assms(1,8,9,6)] .
  have d: "send_data_frames page_size False (f_n_frame output) (fs, ?t1) =
      Inr (number_frames (n_total_frame tty) fs, ?t2)"
    using send_data_frames_idle [of ?t1 fs "f_n_frame output" page_size] assms(1-4) by simp
  have q: "send_and_receive_frame (query_request output) ?t2 = Some (Inr (12, frame_received q, tty'))"
    using attempt_ok [of ?t2 bl q rs "query_request output"] assms(1,7) by (simp add: tty'_def)
  have "query_status (send_request output) ?t2 = Some (Inr (query_request output, frame_received q, tty'))"
    using q by (simp add: query_status_def query_request_def send_request_def Let_def)
  moreover have "f_status (frame_received q) = f_status q" by (simp add: frame_received_def)
  ultimately show ?thesis
    using s d unfolding send_request_def
    by (subst upload_loop.simps) (simp add: Let_def)
qed

text \<open>The answers to a round: to the SEND and to the QUERY behind the frames.\<close>

definition round_answers :: "frame_t \<Rightarrow> frame_t \<times> frame_t \<Rightarrow> bool" where
  "round_answers output r \<longleftrightarrow> answers (send_request output) (fst r) \<and> answers (query_request output) (snd r)"

definition round_reads :: "(frame_t \<times> frame_t) list \<Rightarrow> bytes option list" where
  "round_reads rounds = concat (map (\<lambda>(a, q). [Some (frame_image a), Some (frame_image q)]) rounds)"

text \<open>
  C11: an upload goes on until the slave has everything. In every round the whole picture is
  sent, each frame with a number of its own, between a SEND and a QUERY; the rounds end with the
  first QUERY that is not answered with "unreceived".
\<close>

theorem upload_until_received:
  assumes "tx_idle tty" and "list_all sendable fs" and "unat (f_n_frame output) = length fs"
    and "sizeof_data_frame_t \<le> page_size" and "f_status output = 0"
    and "list_all (round_answers output) (rounds @ [last_round])"
    and "list_all (\<lambda>r. f_status (snd r) = TP_STATUS_UNRECEIVED) rounds"
    and "f_status (snd last_round) \<noteq> TP_STATUS_UNRECEIVED"
    and "rx_ready tty = replicate (2 * length rounds) True @ True # True # bl"
    and "rx_reads tty = round_reads (rounds @ [last_round]) @ rs"
  shows "upload_loop page_size False output fs tty =
    Some (Inr (query_request output, frame_received (snd last_round),
      tty\<lparr> rx_ready := bl, rx_reads := rs,
        n_total_frame := n_total_frame tty + of_nat (length rounds + 1) * of_nat (length fs),
        tx_bytes := tx_bytes tty @ upload_bytes output fs (length rounds + 1) (n_total_frame tty) \<rparr>))"
  using assms
proof (induction rounds arbitrary: tty fs "output")
  case Nil
  obtain a q where l: "last_round = (a, q)" by (metis surj_pair)
  then show ?case
    using upload_round [of tty fs "output" page_size a q bl rs] Nil.prems
    by (simp add: round_answers_def round_reads_def)
next
  case (Cons r rounds)
  obtain a q where r: "r = (a, q)" by (metis surj_pair)
  define c where "c = n_total_frame tty"
  let ?tty = "tty\<lparr> rx_ready := replicate (2 * length rounds) True @ True # True # bl,
    rx_reads := round_reads (rounds @ [last_round]) @ rs, n_total_frame := c + of_nat (length fs),
    tx_bytes := tx_bytes tty @ upload_bytes output fs 1 c \<rparr>"
  have same: "send_request (query_request f) = send_request f\<lparr> f_status := 0 \<rparr>"
    "query_request (query_request f) = query_request f" for f
    by (simp_all add: send_request_def query_request_def)
  have ss: "send_request output\<lparr> f_status := 0 \<rparr> = send_request output"
    using Cons.prems(5) by (simp add: send_request_def)
  have ub: "upload_bytes (query_request output) fs m k = upload_bytes output fs m k" for m k
    by (induction m arbitrary: k) (simp_all add: same ss)
  have ra: "round_answers (query_request output) = round_answers output"
    by (simp add: fun_eq_iff round_answers_def same ss)
  have "upload_loop page_size False output fs tty =
      upload_loop page_size False (query_request output) (number_frames c fs) ?tty"
    using upload_round [of tty fs "output" page_size a q] Cons.prems r
    by (simp add: round_answers_def round_reads_def c_def)
  also have "\<dots> = Some (Inr (query_request (query_request output), frame_received (snd last_round),
      ?tty\<lparr> rx_ready := bl, rx_reads := rs,
        n_total_frame := n_total_frame ?tty + of_nat (length rounds + 1) * of_nat (length (number_frames c fs)),
        tx_bytes := tx_bytes ?tty @ upload_bytes (query_request output) (number_frames c fs)
          (length rounds + 1) (n_total_frame ?tty) \<rparr>))"
    using Cons.prems ra
    by (intro Cons.IH) (simp_all add: sendable_number_frames, simp_all add: query_request_def)
  finally show ?case by (simp add: same ss ub number_frames_again c_def algebra_simps)
qed

definition upload_request :: frame_t where
  "upload_request = query_frame\<lparr> f_n_frame := 1 \<rparr>"

definition answer_to :: "frame_t \<Rightarrow> u16 \<Rightarrow> frame_t" where
  "answer_to f status = f\<lparr> f_address := TP_ADDRESS_SLAVE, f_status := status \<rparr>"

text \<open>Two rounds.\<close>

theorem upload_until_received_witness:
  "let r = (\<lambda>st. (answer_to (send_request upload_request) 0, answer_to (query_request upload_request) st));
     tty = idle_tty\<lparr> rx_ready := [True, True, True, True],
       rx_reads := round_reads [r TP_STATUS_UNRECEIVED, r TP_STATUS_PROCESSED] \<rparr>
   in upload_loop 4096 False upload_request [sample_data_frame] tty =
     Some (Inr (query_request upload_request, frame_received (answer_to (query_request upload_request)
         TP_STATUS_PROCESSED),
       tty\<lparr> rx_ready := [], rx_reads := [], n_total_frame := 2,
         tx_bytes := upload_bytes upload_request [sample_data_frame] 2 0 \<rparr>))"
proof -
  let ?r = "\<lambda>st. (answer_to (send_request upload_request) 0, answer_to (query_request upload_request) st)"
  let ?tty = "idle_tty\<lparr> rx_ready := [True, True, True, True],
    rx_reads := round_reads [?r TP_STATUS_UNRECEIVED, ?r TP_STATUS_PROCESSED] \<rparr>"
  have "tx_idle ?tty" by (simp add: tx_idle_def idle_tty_def)
  moreover have "round_answers upload_request (?r st)" for st
    by (simp add: round_answers_def answers_def answer_to_def)
  moreover have "f_status (snd (?r st)) = st" for st by (simp add: answer_to_def)
  moreover have "TP_STATUS_PROCESSED \<noteq> TP_STATUS_UNRECEIVED" by (simp add: const_defs)
  ultimately show ?thesis
    using upload_until_received [of ?tty "[sample_data_frame]" upload_request 4096
        "[?r TP_STATUS_UNRECEIVED]" "?r TP_STATUS_PROCESSED" "[]" "[]"]
    by (simp add: upload_request_def query_frame_def sizeof_data_frame_t_def idle_tty_def numeral_2_eq_2)
qed

section \<open>The download\<close>

lemma receive_more_slots:
  assumes "receive_data_frames slots frame tty = Inr (m, slots', tty')"
    and "unat (f_n_frame frame) = length slots"
  shows "receive_data_frames (slots @ extra) frame tty = Inr (m, slots' @ extra, tty')"
proof (cases "epoll_rx tty")
  case (Pair ready tty1)
  let ?n = "length slots"
  have n: "?n < 65536" unfolding assms(2) [symmetric] by (rule unat_u16_less)
  have "accept_frames temp ?n (slots @ extra) =
      and_then (accept_frames temp ?n slots) (\<lambda>(m, fs). Inr (m, fs @ extra))" for temp
  proof -
    have "filter (missed temp (slots @ extra)) [0..<?n] = filter (missed temp slots) [0..<?n]"
      by (intro filter_cong refl) (simp add: missed_def nth_append)
    moreover have "map (\<lambda>i. accept_slot temp i ((slots @ extra) ! i)) [0..<?n] =
        map (\<lambda>i. accept_slot temp i (slots ! i)) [0..<?n]"
      by (simp add: nth_append)
    ultimately show ?thesis
      using accept_frames_ok [OF n, of "slots @ extra" temp] accept_frames_ok [OF n, of slots temp] by simp
  qed
  then show ?thesis
    using assms Pair
    by (auto simp add: receive_data_frames_def Let_def and_then_eq_Inr split: bool.splits prod.splits)
qed

lemma receive_into_blank:
  assumes "epoll_rx tty = (True, tty')" and "steady 0 (rx_reads tty')"
    and "stream (rx_reads tty') = concat (map wire gs) @ rest" and "list_all sendable gs"
    and "unat (f_n_frame frame) = length gs" and "length gs \<le> n"
  shows "\<exists>rs. receive_data_frames (replicate n blank_data_frame) frame tty =
    Inr (0, map data_frame_received gs @ replicate (n - length gs) blank_data_frame,
      tty'\<lparr> rx_reads := rs \<rparr>)"
proof -
  let ?slots = "replicate (length gs) blank_data_frame"
  have "map2 fill_slot ?slots gs = map data_frame_received gs"
    by (intro nth_equalityI) (simp_all add: fill_slot_def blank_data_frame_def)
  then obtain rs where "receive_data_frames ?slots frame tty =
      Inr (0, map data_frame_received gs, tty'\<lparr> rx_reads := rs \<rparr>)"
    using receive_clean_stream [OF assms(1-5), of ?slots] by auto
  from receive_more_slots [OF this, of "replicate (n - length gs) blank_data_frame"] show ?thesis
    using assms(5,6) by (auto simp flip: replicate_add)
qed

lemma dump_data_frames_ok:
  assumes "writable f" and "list_all fits gs" and "unat n_frame = length gs"
  shows "dump_data_frames (gs @ extra) n_frame f =
    Inr (int (payloads_len gs), f\<lparr> of_bytes := concat (map payload gs) \<rparr>)"
proof -
  let ?body = "\<lambda>i (sz, f). and_then (get_at (gs @ extra) i) (\<lambda>df.
    if length (df_data df) < unat (df_data_len df) then Inl OutOfBounds
    else let (n, f) = write_out (take (unat (df_data_len df)) (df_data df)) f in Inr (sz + n, f))"
  let ?I = "\<lambda>i (sz, f'). sz = int (payloads_len (take i gs)) \<and>
    f' = f\<lparr> of_bytes := concat (map payload (take i gs)) \<rparr>"
  have "\<exists>r. for_each [0..<length gs] ?body (0, open_out f) = Inr r \<and> ?I (length gs) r"
  proof (rule for_each_invariant [where I = ?I])
    fix i r
    assume i: "i < length gs" and I: "?I i r"
    have "unat (df_data_len (gs ! i)) \<le> length (df_data (gs ! i))"
      using assms(2) i by (simp add: list_all_length fits_def)
    then show "\<exists>s'. ?body i r = Inr s' \<and> ?I (Suc i) s'"
      using I i assms(1)
      by (auto simp add: nth_append write_out_def writable_def take_Suc_conv_app_nth payload_def)
  qed (simp_all add: open_out_def)
  then show ?thesis
    using assms(1,3) by (auto simp add: dump_data_frames_def mkdir_p_def writable_def)
qed

definition recv_request :: "frame_t \<Rightarrow> frame_t" where
  "recv_request output = output\<lparr> f_frame_type := TP_FRAME_TYPE_RECV \<rparr>"

lemma query_ok:
  assumes "tx_idle tty" and "rx_ready tty = True # bl" and "rx_reads tty = Some (frame_image q) # rs"
    and "answers (query_request output) q"
  shows "query_status output tty = Some (Inr (query_request output, frame_received q,
    tty\<lparr> rx_ready := bl, rx_reads := rs,
      tx_bytes := tx_bytes tty @ frame_image (query_request output) \<rparr>))"
  using attempt_ok [OF assms] by (simp add: query_status_def query_request_def Let_def)

lemma wait_processed_ok:
  assumes "tx_idle tty" and "list_all (answers (query_request output)) (ws @ [q])"
    and "list_all (\<lambda>w. f_status w \<noteq> TP_STATUS_PROCESSED) ws" and "f_status q = TP_STATUS_PROCESSED"
    and "rx_ready tty = replicate (length ws) True @ True # bl"
    and "rx_reads tty = map (\<lambda>w. Some (frame_image w)) (ws @ [q]) @ rs"
  shows "wait_processed output tty = Some (Inr (query_request output, frame_received q,
    tty\<lparr> rx_ready := bl, rx_reads := rs,
      tx_bytes := tx_bytes tty @ concat (replicate (length ws + 1) (frame_image (query_request output))) \<rparr>))"
  using assms
proof (induction ws arbitrary: tty "output")
  case Nil
  then show ?case
    using query_ok [of tty bl q rs "output"]
    by (subst wait_processed.simps) (simp add: frame_received_def)
next
  case (Cons w ws)
  let ?tty = "tty\<lparr> rx_ready := replicate (length ws) True @ True # bl,
    rx_reads := map (\<lambda>w. Some (frame_image w)) (ws @ [q]) @ rs,
    tx_bytes := tx_bytes tty @ frame_image (query_request output) \<rparr>"
  have same: "query_request (query_request output) = query_request output"
    by (simp add: query_request_def)
  have "wait_processed output tty = wait_processed (query_request output) ?tty"
    using query_ok [of tty "replicate (length ws) True @ True # bl" w _ "output"] Cons.prems
    by (subst wait_processed.simps) (simp add: frame_received_def)
  then show ?case using Cons.IH [of ?tty "query_request output"] Cons.prems same by simp
qed

text \<open>One round of the download over a clean line, where \<open>tcflush\<close> does not fail.\<close>

lemma download_ok:
  assumes "tx_idle tty" and "answers (recv_request output) a" and "unat (f_n_frame a) = length gs"
    and "list_all sendable gs" and "length gs \<le> n"
    and "rx_ready tty = True # True # bl" and "rx_reads tty = Some (frame_image a) # data"
    and "steady 0 data" and "stream data = concat (map wire gs) @ rest"
    and "\<And>tty. tcflush tty = Some (flushed tty)"
  shows "\<exists>rs. download_loop tcflush output (replicate n blank_data_frame) tty =
    Some (Inr (recv_request output, frame_received a,
      map data_frame_received gs @ replicate (n - length gs) blank_data_frame,
      flushed (tty\<lparr> tx_bytes := tx_bytes tty @ frame_image (recv_request output),
        rx_ready := bl, rx_reads := rs \<rparr>)))"
proof -
  let ?t1 = "tty\<lparr> rx_ready := True # bl, rx_reads := data,
    tx_bytes := tx_bytes tty @ frame_image (recv_request output) \<rparr>"
  have s: "send_and_receive_frame (recv_request output) tty = Some (Inr (12, frame_received a, ?t1))"
    using attempt_ok [OF assms(1,6,7,2)] .
  have "epoll_rx ?t1 = (True, ?t1\<lparr> rx_ready := bl \<rparr>)" by (simp add: epoll_rx_def)
  moreover have "unat (f_n_frame (frame_received a)) = length gs"
    using assms(3) by (simp add: frame_received_def)
  ultimately obtain rs where "receive_data_frames (replicate n blank_data_frame) (frame_received a) ?t1 =
      Inr (0, map data_frame_received gs @ replicate (n - length gs) blank_data_frame,
        ?t1\<lparr> rx_ready := bl, rx_reads := rs \<rparr>)"
    using receive_into_blank [of ?t1 "?t1\<lparr> rx_ready := bl \<rparr>" gs rest "frame_received a" n] assms(4,5,8,9)
    by auto
  then show ?thesis
    using s assms(10) unfolding recv_request_def by (subst download_loop.simps) (simp add: Let_def, blast)
qed

text \<open>
  C12: a download brings the encoded picture. After any number of QUERYs that are not answered
  with "processed", one that is, and a RECV whose answer announces the frames that follow, in
  whatever pieces they come, the waiting loops return, and writing the frames they have collected
  leaves exactly the bytes of the picture in the file.
\<close>

theorem download_saves_the_picture:
  assumes "tx_idle tty" and "list_all (answers (query_request output)) (ws @ [q])"
    and "list_all (\<lambda>w. f_status w \<noteq> TP_STATUS_PROCESSED) ws" and "f_status q = TP_STATUS_PROCESSED"
    and "answers (recv_request output) a" and "unat (f_n_frame a) = length gs"
    and "length gs \<le> unat (f_n_frame q)" and "list_all sendable gs" and "list_all fits gs"
    and "rx_ready tty = replicate (length ws) True @ True # True # True # bl"
    and "rx_reads tty = map (\<lambda>w. Some (frame_image w)) (ws @ [q, a]) @ data"
    and "steady 0 data" and "stream data = concat (map wire gs) @ rest"
    and "\<And>tty. tcflush tty = Some (flushed tty)" and "writable f"
  shows "\<exists>out1 q' tty1 out2 a' fs tty2. wait_processed output tty = Some (Inr (out1, q', tty1)) \<and>
    download_loop tcflush out1 (replicate (unat (f_n_frame q')) blank_data_frame) tty1 =
      Some (Inr (out2, a', fs, tty2)) \<and>
    dump_data_frames fs (f_n_frame a') f =
      Inr (int (payloads_len gs), f\<lparr> of_bytes := concat (map payload gs) \<rparr>)"
proof -
  let ?q = "query_request output"
  obtain t1 where w: "wait_processed output tty = Some (Inr (?q, frame_received q, t1))"
      and t1: "tx_idle t1" "rx_ready t1 = True # True # bl" "rx_reads t1 = Some (frame_image a) # data"
    using wait_processed_ok [OF assms(1-4,10), of "Some (frame_image a) # data"] assms(1,11) by auto
  let ?n = "unat (f_n_frame (frame_received q))"
  have n: "length gs \<le> ?n" using assms(7) by (simp add: frame_received_def)
  have ans: "answers (recv_request ?q) a"
    using assms(5) by (simp add: answers_def recv_request_def query_request_def)
  obtain t2 where d: "download_loop tcflush ?q (replicate ?n blank_data_frame) t1 =
      Some (Inr (recv_request ?q, frame_received a,
        map data_frame_received gs @ replicate (?n - length gs) blank_data_frame, t2))"
    using download_ok [OF t1(1) ans assms(6,8) n t1(2,3) assms(12,13), of tcflush] assms(14) by blast
  have "list_all fits (map data_frame_received gs)" using assms(9) by (simp add: list_all_iff)
  then have "dump_data_frames (map data_frame_received gs @ replicate (?n - length gs) blank_data_frame)
      (f_n_frame (frame_received a)) f =
      Inr (int (payloads_len gs), f\<lparr> of_bytes := concat (map payload gs) \<rparr>)"
    using dump_data_frames_ok [OF assms(15), of "map data_frame_received gs"] assms(6)
    by (simp add: frame_received_def payloads_len_received comp_def)
  with w d show ?thesis by blast
qed

theorem download_saves_the_picture_witness:
  "let ans = (\<lambda>f st. (answer_to f st)\<lparr> f_n_frame := 1 \<rparr>); q = ans (query_request query_frame);
     tty = idle_tty\<lparr> rx_ready := [True, True, True, True], rx_reads := map (\<lambda>w. Some (frame_image w))
       [q TP_STATUS_PROCESSING, q TP_STATUS_PROCESSED, ans (recv_request query_frame) 0]
       @ [Some [], Some (wire sample_data_frame)] \<rparr>
   in \<exists>out1 q' tty1 out2 a' fs tty2. wait_processed query_frame tty = Some (Inr (out1, q', tty1)) \<and>
    download_loop Some out1 (replicate (unat (f_n_frame q')) blank_data_frame) tty1 =
      Some (Inr (out2, a', fs, tty2)) \<and>
    dump_data_frames fs (f_n_frame a') good_file = Inr (int (payloads_len [sample_data_frame]),
      good_file\<lparr> of_bytes := concat (map payload [sample_data_frame]) \<rparr>)"
proof -
  let ?ans = "\<lambda>f st. (answer_to f st)\<lparr> f_n_frame := 1 \<rparr>"
  let ?q = "?ans (query_request query_frame)" and ?a = "?ans (recv_request query_frame) 0"
  let ?data = "[Some [], Some (wire sample_data_frame)]"
  let ?tty = "idle_tty\<lparr> rx_ready := [True, True, True, True], rx_reads := map (\<lambda>w. Some (frame_image w))
       [?q TP_STATUS_PROCESSING, ?q TP_STATUS_PROCESSED, ?a] @ ?data \<rparr>"
  have "list_all fits [sample_data_frame]" by (simp add: fits_def sample_data_frame_def blank_data_frame_def TP_FRAME_DATA_LEN_MAX_def)
  moreover have "tx_idle ?tty" by (simp add: tx_idle_def idle_tty_def)
  moreover have "answers f (?ans f st)" for f st by (simp add: answers_def answer_to_def)
  moreover have "f_status (?q st) = st" for st by (simp add: answer_to_def)
  moreover have "TP_STATUS_PROCESSING \<noteq> TP_STATUS_PROCESSED" by (simp add: const_defs)
  moreover have "steady 0 ?data" by (simp add: COUNT_def)
  ultimately show ?thesis
    unfolding Let_def
    by (intro download_saves_the_picture [where ws = "[?q TP_STATUS_PROCESSING]"
          and q = "?q TP_STATUS_PROCESSED" and a = ?a and gs = "[sample_data_frame]" and bl = "[]"
          and data = ?data and rest = "[]" and flushed = "\<lambda>t. t"])
       (simp_all add: idle_tty_def answer_to_def good_file_def writable_def)
qed

section \<open>What goes wrong\<close>

lemma bind_opt_Inr: "bind_opt m f = Some (Inr y) \<longleftrightarrow> (\<exists>x. m = Some (Inr x) \<and> f x = Some (Inr y))"
  by (cases m; cases "the m") auto

text \<open>
  No download is saved within the block that was asked for. The name of the output file is printed
  into a block with six bytes more than the directory's name, but a slash, at least one digit,
  the suffix and the NUL need seven: where a block has no more bytes than were asked for, the body of
  the second loop never gets past it, whatever the slave answers and whatever the file and its number.
\<close>

theorem download_overruns_the_name:
  assumes "\<And>n. me_usable env n = n"
  shows "download_file env opt k st \<noteq> Some (Inr r)"
proof
  assume "download_file env opt k st = Some (Inr r)"
  moreover have "output_filename env (mo_out_dir opt) n ''.bin'' \<noteq> Inr s" for n s
    using file_name_needs_more(1) [of "''.bin''" "me_malloc env" "mo_out_dir opt" "me_usable env" n] assms
    by (cases "me_malloc env (file_name_size (mo_out_dir opt))")
       (simp_all add: output_filename_def print_file_name_def)
  ultimately show False
    by (auto simp add: download_file_def bind_opt_Inr split: option.splits if_splits)
qed

text \<open>
  A file that cannot be opened is skipped in the upload but not in the download: the number
  under which it is asked for was never written.
\<close>

theorem unopened_file_is_asked_for:
  assumes "fe_open (me_file env 0) = None" and "mo_files opt = [file_name]" and "mo_number opt = 1"
    and "me_tcflush env tty = Some tty'"
  shows "master_main env opt tty = Some (Inl Uninit)"
  using assms
  by (simp add: master_main_def upload_file_def get_data_frames_def download_file_def Let_def
      split: prod.splits)

definition no_file_env :: master_env where
  "no_file_env = \<lparr> me_file = (\<lambda>_. \<lparr> fe_open = None, fe_fstat_ok = True, fe_close_ok = True \<rparr>),
     me_bytes = (\<lambda>_. None), me_frames = (\<lambda>_. None), me_dat = (\<lambda>_. None), me_dat_close_ok = True,
     me_bin = (\<lambda>_. good_file), me_malloc = (\<lambda>_. True), me_usable = (\<lambda>n. n + 8), me_tcflush = Some, me_page_size = 4096,
     me_junk = (0, None) \<rparr>"

theorem unopened_file_is_asked_for_witness:
  "master_main no_file_env ((master_init_opt None)\<lparr> mo_files := [''a.yuv''], mo_number := 1 \<rparr>) idle_tty =
    Some (Inl Uninit)"
  by (rule unopened_file_is_asked_for [of _ _ "''a.yuv''" _ idle_tty]) (simp_all add: no_file_env_def)

end
