(* ===== verification/Link.thy ===== *)
theory Link
  imports Slave Master
begin

text \<open>
  The two programs at the two ends of a line: what the one puts on it is what the other reads. The
  master's side is its \<open>main\<close>, from the file it is given to the file it writes; the slave's side is a
  sequence of steps of its command loop.
\<close>

section \<open>The line\<close>

text \<open>
  A line delivers what is put on it, in pieces of its own choice. A command is one piece; so is
  the reply in front of the frames that a RECV brings.
\<close>

definition faithful :: "(bytes \<Rightarrow> bytes option list) \<Rightarrow> bool" where
  "faithful line \<longleftrightarrow> (\<forall>bs. steady 0 (line bs) \<and> stream (line bs) = bs)"

definition slave_hears :: "bytes \<Rightarrow> bytes option list \<Rightarrow> slave_t \<Rightarrow> slave_t" where
  "slave_hears cmd rs s = s\<lparr> sl_tty := (sl_tty s)\<lparr> rx_ready := [True, True], rx_reads := Some cmd # rs \<rparr> \<rparr>"

definition master_hears :: "bytes list \<Rightarrow> bytes option list \<Rightarrow> tty_t \<Rightarrow> tty_t" where
  "master_hears replies rs tty = tty\<lparr> rx_ready := replicate (length replies + 1) True,
    rx_reads := map Some replies @ rs \<rparr>"

text \<open>What a slave has put on the line between two states.\<close>

definition said :: "slave_t \<Rightarrow> slave_t \<Rightarrow> bytes" where
  "said s s' = drop (length (tx_bytes (sl_tty s))) (tx_bytes (sl_tty s'))"

lemma hears_simps [simp]:
  "tx_bytes (sl_tty (slave_hears cmd rs s)) = tx_bytes (sl_tty s)"
  "rx_ready (master_hears replies rs tty) = replicate (length replies + 1) True"
  "rx_reads (master_hears replies rs tty) = map Some replies @ rs"
  "tx_bytes (master_hears replies rs tty) = tx_bytes tty"
  "n_total_frame (master_hears replies rs tty) = n_total_frame tty"
  "tx_idle (master_hears replies rs tty) \<longleftrightarrow> tx_idle tty"
  by (simp_all add: slave_hears_def master_hears_def)

lemma said_append: "tx_bytes (sl_tty s') = tx_bytes (sl_tty s) @ bs \<Longrightarrow> said s s' = bs"
  by (simp add: said_def)

lemma request_received [simp]:
  "f_frame_type (frame_received f) = f_frame_type f" "f_n_file (frame_received f) = f_n_file f"
  "f_n_frame (frame_received f) = f_n_frame f" "f_address (frame_received f) = f_address f"
  "f_status (frame_received f) = f_status f"
  by (simp_all add: frame_received_def)

lemma requests_simps [simp]:
  "f_frame_type (send_request f) = TP_FRAME_TYPE_SEND" "f_frame_type (query_request f) = TP_FRAME_TYPE_QUERY"
  "f_frame_type (recv_request f) = TP_FRAME_TYPE_RECV" "f_n_file (send_request f) = f_n_file f"
  "f_n_file (query_request f) = f_n_file f" "f_n_file (recv_request f) = f_n_file f"
  "f_n_frame (send_request f) = f_n_frame f"
  by (simp_all add: send_request_def query_request_def recv_request_def)

section \<open>The slave's side\<close>

lemma payloads_room:
  assumes "list_all sendable fs" and "list_all fits fs"
  shows "payloads_len fs \<le> length fs * TP_FRAME_DATA_LEN_MAX"
  using assms by (intro payloads_bound) (simp_all add: list_all_iff sendable_def)

lemma ceil_div_le:
  assumes "n \<le> k * m" and "0 < m"
  shows "ceil_div n m \<le> k"
proof (cases "n = 0")
  case False
  then have "(ceil_div n m - 1) * m < k * m"
    using assms by (intro less_le_trans [OF ceil_div_bounds(2)]) simp_all
  then have "ceil_div n m - 1 < k" by simp
  then show ?thesis by linarith
qed simp

text \<open>A command that is heard is handled.\<close>

lemma slave_step_hears:
  assumes "f_address cmd = TP_ADDRESS_MASTER"
  shows "slave_step env (slave_hears (frame_image cmd) rs s) = handle env (frame_received cmd)
    (s\<lparr> sl_tty := (sl_tty s)\<lparr> rx_ready := [True], rx_reads := rs \<rparr> \<rparr>)"
proof -
  let ?tty = "sl_tty (slave_hears (frame_image cmd) rs s)"
  have "epoll_rx ?tty = (True, ?tty\<lparr> rx_ready := [True] \<rparr>)" by (simp add: slave_hears_def epoll_rx_def)
  moreover have "rx_reads (?tty\<lparr> rx_ready := [True] \<rparr>) = Some (frame_image cmd) # rs"
    by (simp add: slave_hears_def)
  ultimately have "receive_frame zero_frame ?tty = Inr (12, frame_received cmd,
      (sl_tty s)\<lparr> rx_ready := [True], rx_reads := rs \<rparr>)"
    using receive_frame_image [of ?tty "?tty\<lparr> rx_ready := [True] \<rparr>" "frame_image cmd" rs zero_frame]
      fr.good_enc [of cmd] fr.dec_enc [of cmd] by (simp add: frame_image_def slave_hears_def)
  then show ?thesis using assms by (simp add: slave_step_def slave_hears_def)
qed

text \<open>A state in which the slave has nothing of picture \<open>i\<close>.\<close>

definition unused :: "nat \<Rightarrow> slave_t \<Rightarrow> bool" where
  "unused i s \<longleftrightarrow> slave_inv s \<and> tx_idle (sl_tty s) \<and> fi_addr (sl_infos s ! i) = None \<and>
     d8_addr (sl_bit_streams s ! i) = None"

text \<open>A state in which picture \<open>i\<close> has been received and processed to \<open>data\<close>.\<close>

definition processed :: "nat \<Rightarrow> nat \<Rightarrow> bytes \<Rightarrow> slave_t \<Rightarrow> bool" where
  "processed i n data s \<longleftrightarrow> sl_bit_streams s ! i = \<lparr> d8_addr = Some data, d8_len = length data \<rparr> \<and>
     unat (fi_len (sl_infos s ! i)) = n \<and> tx_idle (sl_tty s) \<and>
     f_address (sl_output s) = TP_ADDRESS_SLAVE"

lemma slave_send:
  assumes "f_address out = TP_ADDRESS_MASTER" and "unat (f_n_file out) < PICTURES_NUMBER_MAX"
    and "slave_inv s" and "tx_idle (sl_tty s)"
    and "fi_addr (sl_infos s ! unat (f_n_file out)) = None \<or> picture_status (unat (f_n_file out)) s = Processed"
    and "\<And>n. e_malloc env n" and "list_all sendable fs" and "unat (f_n_frame out) = length fs"
    and "process_data_frames_dry_run env (map data_frame_received fs) (f_n_frame out)
      (d8_addr (sl_bit_streams s ! unat (f_n_file out))) (sl_status s) (sl_dev s) =
      Inr (length data, Some data, status', dev')"
    and "steady 0 rs" and "stream rs = concat (map wire fs)"
  shows "\<exists>s' a. slave_step env (slave_hears (frame_image (send_request out)) rs s) = Inr s' \<and>
    said s s' = frame_image a \<and> answers (send_request out) a \<and>
    processed (unat (f_n_file out)) (length fs) data s'"
proof -
  let ?i = "unat (f_n_file out)"
  let ?up = "frame_received (send_request out)"
  let ?s = "s\<lparr> sl_tty := (sl_tty s)\<lparr> rx_ready := [True], rx_reads := rs \<rparr> \<rparr>"
  let ?a = "(sl_output s)\<lparr> f_frame_type := TP_FRAME_TYPE_SEND, f_n_file := f_n_file out,
    f_n_frame := f_n_frame out \<rparr>"
  have i: "unat (f_n_file ?up) < PICTURES_NUMBER_MAX" using assms(2) by simp
  have "picture_status ?i ?s = picture_status ?i s" by (simp add: picture_status_def)
  then have "fi_addr (sl_infos ?s ! ?i) = None \<or> picture_status ?i ?s = Processed"
    using assms(5) by simp
  then obtain s1 where s1: "handle_send env ?up ?s = Inr s1"
      "sl_bit_streams s1 = (sl_bit_streams s)[?i := \<lparr> d8_addr = Some data, d8_len = length data \<rparr>]"
      "sl_infos s1 = (sl_infos s)[?i := \<lparr> fi_addr = Some (map data_frame_received fs),
        fi_len = f_n_frame out, fi_total_len = f_n_frame out \<rparr>]"
      "tx_idle (sl_tty s1)" "f_address (sl_output s1) = f_address (sl_output s)"
      "tx_bytes (sl_tty s1) = tx_bytes (sl_tty s) @ frame_image ?a"
    using handle_send_processed [OF i, of ?s env fs data status' dev' "(sl_tty ?s)\<lparr> rx_ready := [] \<rparr>" "[]"] assms
    by (auto simp add: epoll_rx_def frame_image_def)
  have inv: "f_address (sl_output s) = TP_ADDRESS_SLAVE" "length (sl_bit_streams s) = PICTURES_NUMBER_MAX"
    "length (sl_infos s) = PICTURES_NUMBER_MAX"
    using assms(3) by (simp_all add: slave_inv_def)
  have "slave_step env (slave_hears (frame_image (send_request out)) rs s) = Inr s1"
    using s1(1) slave_step_hears [of "send_request out"] assms(1)
    by (simp add: handle_def const_defs send_request_def)
  moreover have "answers (send_request out) ?a" using inv(1) by (simp add: answers_def)
  moreover have "processed ?i (length fs) data s1"
    using s1(2-5) inv assms(2,8) by (simp add: processed_def)
  ultimately show ?thesis using said_append [OF s1(6)] by blast
qed

lemma slave_send_fault:
  assumes "f_address out = TP_ADDRESS_MASTER" and "unat (f_n_file out) < PICTURES_NUMBER_MAX"
    and "unused (unat (f_n_file out)) s" and "\<And>n. e_malloc env n" and "list_all sendable fs"
    and "unat (f_n_frame out) = length fs"
    and "process_data_frames_dry_run env (map data_frame_received fs) (f_n_frame out) None (sl_status s) (sl_dev s) = Inl e"
    and "steady 0 rs" and "stream rs = concat (map wire fs)"
  shows "slave_step env (slave_hears (frame_image (send_request out)) rs s) = Inl e"
proof -
  let ?up = "frame_received (send_request out)"
  let ?s = "s\<lparr> sl_tty := (sl_tty s)\<lparr> rx_ready := [True], rx_reads := rs \<rparr> \<rparr>"
  have "handle_send env ?up ?s = Inl e"
    using handle_send_received [of ?up ?s env fs "(sl_tty ?s)\<lparr> rx_ready := [] \<rparr>" "[]"] assms
    by (auto simp add: epoll_rx_def unused_def)
  then show ?thesis
    using slave_step_hears [of "send_request out"] assms(1)
    by (simp add: handle_def const_defs send_request_def)
qed

lemma slave_query:
  assumes "processed (unat (f_n_file out)) n data s" and "data \<noteq> []"
    and "f_address out = TP_ADDRESS_MASTER" and "unat (f_n_file out) < PICTURES_NUMBER_MAX"
  shows "\<exists>s' q. slave_step env (slave_hears (frame_image (query_request out)) rs s) = Inr s' \<and>
    said s s' = frame_image q \<and> answers (query_request out) q \<and>
    f_status q = TP_STATUS_PROCESSED \<and> unat (f_n_frame q) = n \<and>
    processed (unat (f_n_file out)) n data s'"
proof -
  let ?s = "s\<lparr> sl_tty := (sl_tty s)\<lparr> rx_ready := [True], rx_reads := rs \<rparr> \<rparr>"
  have "picture_status (unat (f_n_file out)) ?s = Processed"
    using assms(1,2) by (simp add: picture_status_def processed_def)
  moreover have "tx_idle (sl_tty ?s)" "f_address (sl_output ?s) = TP_ADDRESS_SLAVE"
    using assms(1) by (simp_all add: processed_def)
  ultimately obtain s' q where h: "handle env (frame_received (query_request out)) ?s = Inr s'"
      "tx_bytes (sl_tty s') = tx_bytes (sl_tty s) @ frame_image q" "f_address q = TP_ADDRESS_SLAVE"
      "f_frame_type q = TP_FRAME_TYPE_QUERY" "f_n_file q = f_n_file out"
      "f_status q = TP_STATUS_PROCESSED" "f_n_frame q = fi_len (sl_infos s ! unat (f_n_file out))"
      "sl_bit_streams s' = sl_bit_streams s" "sl_infos s' = sl_infos s"
      "tx_idle (sl_tty s')" "f_address (sl_output s') = TP_ADDRESS_SLAVE"
    using handle_query_ok [of "frame_received (query_request out)" ?s env] assms(4)
    by (auto simp add: frame_image_def status_code_def)
  moreover have "slave_step env (slave_hears (frame_image (query_request out)) rs s) = Inr s'"
    using h(1) slave_step_hears [of "query_request out"] assms(3) by (simp add: query_request_def)
  ultimately show ?thesis
    using said_append [OF h(2)] assms(1)
    by (intro exI [of _ s'] exI [of _ q]) (simp add: answers_def processed_def)
qed

lemma slave_recv:
  assumes "processed (unat (f_n_file out)) n data s" and "data \<noteq> []"
    and "length data \<le> 65535 * TP_FRAME_DATA_LEN_MAX"
    and "f_address out = TP_ADDRESS_MASTER" and "unat (f_n_file out) < PICTURES_NUMBER_MAX"
    and "\<And>n. e_malloc env n" and "\<And>n. length (e_frames env n) = n"
  shows "\<exists>s' r gs. slave_step env (slave_hears (frame_image (recv_request out)) rs s) = Inr s' \<and>
    said s s' = frame_image r @ concat (map wire gs) \<and> answers (recv_request out) r \<and>
    unat (f_n_frame r) = length gs \<and> length gs = ceil_div (length data) TP_FRAME_DATA_LEN_MAX \<and>
    list_all sendable gs \<and> list_all fits gs \<and> concat (map payload gs) = data"
proof -
  let ?s = "s\<lparr> sl_tty := (sl_tty s)\<lparr> rx_ready := [True], rx_reads := rs \<rparr> \<rparr>"
  have i: "unat (f_n_file (frame_received (recv_request out))) < PICTURES_NUMBER_MAX"
    using assms(5) by simp
  have "tx_idle (sl_tty ?s)" "sl_bit_streams ?s ! unat (f_n_file (frame_received (recv_request out))) =
      \<lparr> d8_addr = Some data, d8_len = length data \<rparr>" "f_address (sl_output ?s) = TP_ADDRESS_SLAVE"
    using assms(1) by (simp_all add: processed_def)
  then obtain s' r gs where h: "handle_recv env (frame_received (recv_request out)) ?s = Inr s'"
      "tx_bytes (sl_tty s') = tx_bytes (sl_tty s) @ frame_image r @ concat (map wire gs)"
      "answers (recv_request out) r"
      "unat (f_n_frame r) = length gs" "length gs = ceil_div (length data) TP_FRAME_DATA_LEN_MAX"
      "list_all sendable gs" "list_all fits gs" "concat (map payload gs) = data"
    using handle_recv_ok [OF i _ _ assms(2,3,6,7), of ?s] by (auto simp add: frame_image_def answers_def)
  moreover have "slave_step env (slave_hears (frame_image (recv_request out)) rs s) = Inr s'"
    using h(1) slave_step_hears [of "recv_request out"] assms(4)
    by (simp add: handle_def const_defs recv_request_def)
  ultimately show ?thesis using said_append [OF h(2)] by blast
qed

text \<open>Such a slave answers "unreceived", and keeps everything.\<close>

lemma unused_status:
  assumes "unused i s" and "i < PICTURES_NUMBER_MAX"
  shows "picture_status i s = Unreceived"
proof -
  have "stream_ok (sl_bit_streams s ! i)" "info_ok (sl_infos s ! i)"
    using assms by (simp_all add: unused_def slave_inv_def list_all_length)
  then show ?thesis using assms(1) by (simp add: unused_def stream_ok_def info_ok_def picture_status_def)
qed

lemma unused_query:
  assumes "unused (unat (f_n_file out)) s" and "f_address out = TP_ADDRESS_MASTER"
    and "unat (f_n_file out) < PICTURES_NUMBER_MAX"
  shows "\<exists>s' q. slave_step env (slave_hears (frame_image (query_request out)) rs s) = Inr s' \<and>
    said s s' = frame_image q \<and> answers (query_request out) q \<and> f_status q = TP_STATUS_UNRECEIVED \<and>
    keeps s s' \<and> unused (unat (f_n_file out)) s'"
proof -
  let ?s = "s\<lparr> sl_tty := (sl_tty s)\<lparr> rx_ready := [True], rx_reads := rs \<rparr> \<rparr>"
  let ?q = "frame_received (query_request out)"
  have "picture_status (unat (f_n_file out)) ?s = picture_status (unat (f_n_file out)) s"
    by (simp add: picture_status_def)
  then have "picture_status (unat (f_n_file out)) ?s = Unreceived"
    using unused_status [OF assms(1,3)] by simp
  moreover have "tx_idle (sl_tty ?s)" "f_address (sl_output ?s) = TP_ADDRESS_SLAVE"
    using assms(1) by (simp_all add: unused_def slave_inv_def)
  ultimately obtain s' q where h: "handle env ?q ?s = Inr s'"
      "tx_bytes (sl_tty s') = tx_bytes (sl_tty s) @ frame_image q" "f_address q = TP_ADDRESS_SLAVE"
      "f_frame_type q = TP_FRAME_TYPE_QUERY" "f_n_file q = f_n_file out" "f_status q = TP_STATUS_UNRECEIVED"
      "tx_idle (sl_tty s')"
    using handle_query_ok [of ?q ?s env] assms(3) by (auto simp add: frame_image_def status_code_def)
  moreover have "slave_step env (slave_hears (frame_image (query_request out)) rs s) = Inr s'"
    using h(1) slave_step_hears [of "query_request out"] assms(2) by (simp add: query_request_def)
  moreover have "handle_query ?q ?s = Inr s'" using h(1) by (simp add: handle_def)
  then have k: "keeps s s'" using handle_query_keeps by fastforce
  moreover have "unused (unat (f_n_file out)) s'"
    using assms(1) h(7) k slave_inv_keeps [OF k] by (simp add: unused_def keeps_def)
  ultimately show ?thesis
    using said_append [OF h(2)] by (intro exI [of _ s'] exI [of _ q]) (simp add: answers_def)
qed

text \<open>The slave's side of a picture it did not have.\<close>

lemma slave_answers:
  assumes "f_address out = TP_ADDRESS_MASTER" and "unat (f_n_file out) < PICTURES_NUMBER_MAX"
    and "unused (unat (f_n_file out)) s"
    and "\<And>n. e_malloc env n" and "list_all sendable fs" and "unat (f_n_frame out) = length fs"
    and "process_data_frames_dry_run env (map data_frame_received fs) (f_n_frame out) None (sl_status s) (sl_dev s) =
      Inr (length data, Some data, status', dev')"
    and "\<And>n. length (e_frames env n) = n" and "data \<noteq> []" and "length data \<le> 65535 * TP_FRAME_DATA_LEN_MAX"
    and "steady 0 rs" and "stream rs = concat (map wire fs)"
  obtains s0 s1 s2 s3 s4 b a q p r gs
  where "slave_step env (slave_hears (frame_image (query_request out)) [] s) = Inr s0"
    and "said s s0 = frame_image b" and "answers (query_request out) b" and "f_status b = TP_STATUS_UNRECEIVED"
    and "slave_step env (slave_hears (frame_image (send_request out)) rs s0) = Inr s1"
    and "said s0 s1 = frame_image a" and "answers (send_request out) a"
    and "slave_step env (slave_hears (frame_image (query_request out)) [] s1) = Inr s2"
    and "said s1 s2 = frame_image q" and "answers (query_request out) q" and "f_status q = TP_STATUS_PROCESSED"
    and "slave_step env (slave_hears (frame_image (query_request out)) [] s2) = Inr s3"
    and "said s2 s3 = frame_image p" and "answers (query_request out) p" and "f_status p = TP_STATUS_PROCESSED"
    and "unat (f_n_frame p) = length fs"
    and "slave_step env (slave_hears (frame_image (recv_request out)) [] s3) = Inr s4"
    and "said s3 s4 = frame_image r @ concat (map wire gs)" and "answers (recv_request out) r"
    and "unat (f_n_frame r) = length gs" and "length gs = ceil_div (length data) TP_FRAME_DATA_LEN_MAX"
    and "list_all sendable gs" and "list_all fits gs" and "concat (map payload gs) = data"
proof -
  let ?i = "unat (f_n_file out)" and ?q = "query_request out"
  obtain s0 b where s0: "slave_step env (slave_hears (frame_image ?q) [] s) = Inr s0"
      "said s s0 = frame_image b" "answers ?q b" "f_status b = TP_STATUS_UNRECEIVED" "keeps s s0" "unused ?i s0"
    using unused_query [OF assms(3,1,2), of env "[]"] by blast
  have "process_data_frames_dry_run env (map data_frame_received fs) (f_n_frame out)
      (d8_addr (sl_bit_streams s0 ! ?i)) (sl_status s0) (sl_dev s0) = Inr (length data, Some data, status', dev')"
    using assms(7) s0(5,6) by (simp add: keeps_def unused_def)
  then obtain s1 a where s1: "slave_step env (slave_hears (frame_image (send_request out)) rs s0) = Inr s1"
      "said s0 s1 = frame_image a" "answers (send_request out) a" "processed ?i (length fs) data s1"
    using slave_send [OF assms(1,2) _ _ _ assms(4-6) _ assms(11,12), of s0] s0(6)
    unfolding unused_def by blast
  obtain s2 q where s2: "slave_step env (slave_hears (frame_image ?q) [] s1) = Inr s2"
      "said s1 s2 = frame_image q" "answers ?q q" "f_status q = TP_STATUS_PROCESSED"
      "processed ?i (length fs) data s2"
    using slave_query [OF s1(4) assms(9) assms(1,2), of env "[]"] by blast
  obtain s3 p where s3: "slave_step env (slave_hears (frame_image ?q) [] s2) = Inr s3"
      "said s2 s3 = frame_image p" "answers ?q p" "f_status p = TP_STATUS_PROCESSED"
      "unat (f_n_frame p) = length fs" "processed ?i (length fs) data s3"
    using slave_query [OF s2(5) assms(9) assms(1,2), of env "[]"] by blast
  obtain s4 r gs where s4: "slave_step env (slave_hears (frame_image (recv_request out)) [] s3) = Inr s4"
      "said s3 s4 = frame_image r @ concat (map wire gs)" "answers (recv_request out) r"
      "unat (f_n_frame r) = length gs" "length gs = ceil_div (length data) TP_FRAME_DATA_LEN_MAX"
      "list_all sendable gs" "list_all fits gs" "concat (map payload gs) = data"
    using slave_recv [OF s3(6) assms(9,10,1,2,4,8), of "[]"] by blast
  show thesis
    by (rule that [OF s0(1-4) s1(1-3) s2(1-4) s3(1-5) s4])
qed

section \<open>The master's side\<close>

text \<open>
  A run of the master with one operand, not in the frames' own format and not dumped, where memory
  can be allocated, the output file can be written, its name fits the usable size of its block, and
  \<open>tcflush\<close> finds nothing to discard. \<open>operand\<close> says that the file holds \<open>xs\<close>, at least a byte and
  no more than the largest number of frames.
\<close>

definition one_operand :: "master_env \<Rightarrow> master_opt \<Rightarrow> bool" where
  "one_operand env opt \<longleftrightarrow> mo_number opt = 1 \<and> length (mo_files opt) = 1 \<and> \<not> mo_binary opt \<and> \<not> mo_dump opt \<and>
     (\<forall>n. me_malloc env n) \<and> (\<forall>tty. me_tcflush env tty = Some tty) \<and> sizeof_data_frame_t \<le> me_page_size env \<and>
     length (mo_out_dir opt) + 7 \<le> me_usable env (file_name_size (mo_out_dir opt)) \<and> writable (me_bin env 0)"

definition operand :: "master_env \<Rightarrow> bytes \<Rightarrow> bool" where
  "operand env xs \<longleftrightarrow> readable_file (me_file env 0) (me_frames env 0) xs"

text \<open>The frames of the operand, and the command frame with its number of frames.\<close>

definition operand_frames :: "master_env \<Rightarrow> data_frame_t list \<Rightarrow> bool" where
  "operand_frames env fs \<longleftrightarrow> (\<exists>r. r \<in> {0, 2} \<and> get_data_frames (me_file env 0) (me_bytes env 0) (me_frames env 0)
     (0, fst (me_junk env), snd (me_junk env)) False = Inr (r, 0, of_nat (length fs), Some fs)) \<and> length fs < 65536"

definition picture_command :: "data_frame_t list \<Rightarrow> frame_t" where
  "picture_command fs = zero_frame\<lparr> f_address := TP_ADDRESS_MASTER, f_n_frame := of_nat (length fs) \<rparr>"

lemma operand_loads:
  assumes "operand env xs"
  obtains fs where "operand_frames env fs" and "list_all sendable fs" and "list_all fits fs"
    and "concat (map payload fs) = loaded xs"
  using get_data_frames_loads [OF assms [unfolded operand_def], of "me_bytes env 0" 0
      "(fst (me_junk env), snd (me_junk env))"] that
  by (auto simp add: operand_frames_def)

text \<open>The two loops of \<open>main\<close>, with the answers that come in between.\<close>

lemma master_exchange:
  fixes env opt fs mt
  defines "out \<equiv> picture_command fs"
  assumes "one_operand env opt" and "operand_frames env fs" and "list_all sendable fs" and "tx_idle mt"
    and "rx_ready mt = [True, True, True, True, True, True]"
    and "rx_reads mt = map (\<lambda>f. Some (frame_image f)) [b, a, q, p, r] @ rs"
    and "answers (query_request out) b" and "f_status b = TP_STATUS_UNRECEIVED" and "answers (send_request out) a"
    and "answers (query_request out) q" and "f_status q = TP_STATUS_PROCESSED"
    and "answers (query_request out) p" and "f_status p = TP_STATUS_PROCESSED"
    and "unat (f_n_frame p) = length fs" and "answers (recv_request out) r"
    and "unat (f_n_frame r) = length gs" and "list_all sendable gs" and "list_all fits gs"
    and "length gs \<le> length fs" and "steady 0 rs" and "stream rs = concat (map wire gs)"
  shows "\<exists>st. master_main env opt mt =
      Some (Inr (st, [(me_bin env 0)\<lparr> of_bytes := concat (map payload gs) \<rparr>])) \<and>
    tx_bytes (ms_tty st) = tx_bytes mt @ frame_image (query_request out) @ frame_image (send_request out)
      @ concat (map wire (number_frames (n_total_frame mt) fs)) @ frame_image (query_request out)
      @ frame_image (query_request out) @ frame_image (recv_request out)"
proof -
  let ?q = "query_request out"
  obtain ret where g: "ret \<in> {0, 2}" "get_data_frames (me_file env 0) (me_bytes env 0) (me_frames env 0)
      (0, fst (me_junk env), snd (me_junk env)) False = Inr (ret, 0, of_nat (length fs), Some fs)" "length fs < 65536"
    using assms(3) by (auto simp add: operand_frames_def)
  have n: "unat (f_n_frame out) = length fs" "f_status out = 0" "f_n_file out = 0"
    using g(3) by (simp_all add: out_def picture_command_def zero_frame_def unat_of_nat_u16)
  have nq: "unat (f_n_frame ?q) = length fs" "f_status ?q = 0" using n by (simp_all add: query_request_def)
  have same: "query_request ?q = ?q" "recv_request ?q = recv_request out" "send_request ?q = send_request out"
    "?q\<lparr> f_n_file := 0 \<rparr> = ?q" "zero_frame\<lparr> f_address := TP_ADDRESS_MASTER, f_frame_type := TP_FRAME_TYPE_SEND,
      f_n_file := 0, f_n_frame := of_nat (length fs) \<rparr> = send_request out"
    "query_request (send_request out) = ?q"
    using n by (simp_all add: query_request_def recv_request_def send_request_def out_def picture_command_def zero_frame_def)
  let ?t0 = "mt\<lparr> rx_ready := [True, True, True, True, True], rx_reads := map (\<lambda>f. Some (frame_image f)) [a, q, p, r] @ rs,
    tx_bytes := tx_bytes mt @ frame_image ?q \<rparr>"
  have q0: "query_status (send_request out) mt = Some (Inr (?q, frame_received b, ?t0))"
    using query_ok [of mt "[True, True, True, True, True]" b _ "send_request out"] assms(5-8) same
    by simp
  let ?t1 = "?t0\<lparr> rx_ready := [True, True, True], rx_reads := map (\<lambda>f. Some (frame_image f)) [p, r] @ rs,
    n_total_frame := n_total_frame mt + of_nat (length fs),
    tx_bytes := tx_bytes ?t0 @ upload_bytes ?q fs 1 (n_total_frame mt) \<rparr>"
  have up: "upload_loop (me_page_size env) False ?q fs ?t0 = Some (Inr (?q, frame_received q, ?t1))"
    using upload_round [of ?t0 fs ?q "me_page_size env" a q "[True, True, True]"] assms(2,4,5,10-12) nq same
    by (simp add: one_operand_def const_defs)
  let ?st = "\<lparr> ms_output = ?q, ms_tty = ?t1, ms_n_files = [Some 0] \<rparr>"
  have first: "upload_file env opt 0 \<lparr> ms_output = zero_frame\<lparr> f_address := TP_ADDRESS_MASTER \<rparr>, ms_tty = mt,
      ms_n_files = [None] \<rparr> = Some (Inr ?st)"
    using assms(2,9) g(1,2) q0 up same
    by (auto simp add: upload_file_def one_operand_def Let_def dump_upload_def frame_received_def const_defs)
  let ?t2 = "?t1\<lparr> rx_ready := [True, True], rx_reads := Some (frame_image r) # rs, tx_bytes := tx_bytes ?t1 @ frame_image ?q \<rparr>"
  have wait: "wait_processed ?q ?t1 = Some (Inr (?q, frame_received p, ?t2))"
    using wait_processed_ok [of ?t1 ?q "[]" p "[True, True]" "Some (frame_image r) # rs"] assms(5,13,14) same
    by simp
  obtain rs' where down: "download_loop (me_tcflush env) ?q (replicate (length fs) blank_data_frame) ?t2 =
      Some (Inr (recv_request out, frame_received r,
        map data_frame_received gs @ replicate (length fs - length gs) blank_data_frame,
        ?t2\<lparr> tx_bytes := tx_bytes ?t2 @ frame_image (recv_request out), rx_ready := [], rx_reads := rs' \<rparr>))"
    using download_ok [of ?t2 ?q r gs "length fs" "[]" rs "[]" "me_tcflush env" "\<lambda>t. t"] assms(2,5,16-22) same
    by (auto simp add: one_operand_def)
  have name: "\<exists>s. output_filename env (mo_out_dir opt) 0 ''.bin'' = Inr s"
    using file_name_needs_more(2) [of "''.bin''" "me_malloc env" "mo_out_dir opt" 0 "me_usable env"]
      percent_d_digit [of 0] assms(2) by (simp add: output_filename_def one_operand_def)
  have "list_all fits (map data_frame_received gs)" using assms(19) by (simp add: list_all_iff)
  then have "dump_data_frames (map data_frame_received gs @ replicate (length fs - length gs) blank_data_frame)
      (f_n_frame (frame_received r)) (me_bin env 0) =
      Inr (int (payloads_len gs), (me_bin env 0)\<lparr> of_bytes := concat (map payload gs) \<rparr>)"
    using dump_data_frames_ok [of "me_bin env 0" "map data_frame_received gs"] assms(2,17)
    by (simp add: payloads_len_received comp_def one_operand_def)
  then have second: "download_file env opt 0 ?st = Some (Inr (?st\<lparr> ms_output := recv_request out,
      ms_tty := ?t2\<lparr> tx_bytes := tx_bytes ?t2 @ frame_image (recv_request out), rx_ready := [], rx_reads := rs' \<rparr> \<rparr>,
      (me_bin env 0)\<lparr> of_bytes := concat (map payload gs) \<rparr>))"
    using assms(2,15) wait down name same by (auto simp add: download_file_def one_operand_def)
  show ?thesis
    using first second assms(2) same
    by (simp add: master_main_def one_operand_def)
qed

section \<open>Both sides\<close>

text \<open>
  A whole run of the master's \<open>main\<close> with one operand against a slave: a QUERY, a SEND with the
  frames behind it, two more QUERYs and a RECV. Each side hears what the other has put on the line, the
  frames in pieces of any size; the slave's steps and the master's program return, the slave has heard
  exactly what the master has sent, and \<open>bytes\<close> are in the master's file.
\<close>

definition exchange :: "env_t \<Rightarrow> (bytes \<Rightarrow> bytes option list) \<Rightarrow> master_env \<Rightarrow> master_opt \<Rightarrow>
    slave_t \<Rightarrow> tty_t \<Rightarrow> bytes \<Rightarrow> bool" where
  "exchange env line menv opt s mt bytes \<longleftrightarrow> (\<exists>fs s0 s1 s2 s3 s4 st. operand_frames menv fs \<and>
     (let out = picture_command fs; data = concat (map wire (number_frames (n_total_frame mt) fs)) in
      slave_step env (slave_hears (frame_image (query_request out)) [] s) = Inr s0
    \<and> slave_step env (slave_hears (frame_image (send_request out)) (line data) s0) = Inr s1
    \<and> slave_step env (slave_hears (frame_image (query_request out)) [] s1) = Inr s2
    \<and> slave_step env (slave_hears (frame_image (query_request out)) [] s2) = Inr s3
    \<and> slave_step env (slave_hears (frame_image (recv_request out)) [] s3) = Inr s4
    \<and> master_main menv opt (master_hears [said s s0, said s0 s1, said s1 s2, said s2 s3, take 12 (said s3 s4)]
        (line (drop 12 (said s3 s4))) mt) = Some (Inr (st, [(me_bin menv 0)\<lparr> of_bytes := bytes \<rparr>]))
    \<and> tx_bytes (ms_tty st) = tx_bytes mt @ frame_image (query_request out) @ frame_image (send_request out) @ data
        @ frame_image (query_request out) @ frame_image (query_request out) @ frame_image (recv_request out)))"

text \<open>It succeeds whatever the slave makes of the picture, when that fits the master's array.\<close>

lemma stream_survives:
  assumes line: "faithful line"
    and master: "one_operand menv opt" "operand_frames menv fs" "list_all sendable fs" "tx_idle mt"
    and slave: "unused 0 s"
    and env: "\<And>n. e_malloc env n" "\<And>n. length (e_frames env n) = n"
    and process: "process_data_frames_dry_run env (map data_frame_received (number_frames (n_total_frame mt) fs))
      (of_nat (length fs)) None (sl_status s) (sl_dev s) = Inr (length bytes, Some bytes, status', dev')"
    and result: "bytes \<noteq> []" "length bytes \<le> length fs * TP_FRAME_DATA_LEN_MAX"
  shows "exchange env line menv opt s mt bytes"
proof -
  let ?fs = "number_frames (n_total_frame mt) fs" and ?out = "picture_command fs"
  let ?data = "concat (map wire ?fs)"
  have n: "length fs < 65536" using master(2) by (simp add: operand_frames_def)
  have out: "f_address ?out = TP_ADDRESS_MASTER" "unat (f_n_file ?out) = 0" "unat (f_n_frame ?out) = length ?fs"
    "f_n_frame ?out = of_nat (length fs)"
    using n by (simp_all add: picture_command_def zero_frame_def unat_of_nat_u16)
  have fits: "list_all sendable ?fs" using master(3) by (simp add: sendable_number_frames)
  have size: "length bytes \<le> 65535 * TP_FRAME_DATA_LEN_MAX"
    using result(2) n mult_le_mono1 [of "length fs" 65535 TP_FRAME_DATA_LEN_MAX] by linarith
  have heard: "steady 0 (line bs)" "stream (line bs) = bs" for bs using line by (simp_all add: faithful_def)
  have first: "unat (f_n_file ?out) < PICTURES_NUMBER_MAX" "unused (unat (f_n_file ?out)) s"
    using slave out(2) by (simp_all add: PICTURES_NUMBER_MAX_def)
  obtain s0 s1 s2 s3 s4 b a q p r gs
  where s0: "slave_step env (slave_hears (frame_image (query_request ?out)) [] s) = Inr s0"
      "said s s0 = frame_image b" "answers (query_request ?out) b" "f_status b = TP_STATUS_UNRECEIVED"
    and s1: "slave_step env (slave_hears (frame_image (send_request ?out)) (line ?data) s0) = Inr s1"
      "said s0 s1 = frame_image a" "answers (send_request ?out) a"
    and s2: "slave_step env (slave_hears (frame_image (query_request ?out)) [] s1) = Inr s2"
      "said s1 s2 = frame_image q" "answers (query_request ?out) q" "f_status q = TP_STATUS_PROCESSED"
    and s3: "slave_step env (slave_hears (frame_image (query_request ?out)) [] s2) = Inr s3" "said s2 s3 = frame_image p"
      "answers (query_request ?out) p" "f_status p = TP_STATUS_PROCESSED" "unat (f_n_frame p) = length ?fs"
    and s4: "slave_step env (slave_hears (frame_image (recv_request ?out)) [] s3) = Inr s4"
      "said s3 s4 = frame_image r @ concat (map wire gs)" "answers (recv_request ?out) r"
      "unat (f_n_frame r) = length gs" "length gs = ceil_div (length bytes) TP_FRAME_DATA_LEN_MAX"
      "list_all sendable gs" "list_all fits gs" "concat (map payload gs) = bytes"
    by (rule slave_answers [OF out(1) first env(1) fits out(3) _ env(2) result(1) size heard,
          where status' = status' and dev' = dev', unfolded out(4)]) (use process in simp_all)
  have few: "length gs \<le> length fs" using ceil_div_le [OF result(2)] s4(5) by (simp add: TP_FRAME_DATA_LEN_MAX_def)
  have "length (frame_image r) = 12" by (simp add: frame_image_def)
  then have said: "said s s0 = frame_image b" "said s0 s1 = frame_image a" "said s1 s2 = frame_image q"
      "said s2 s3 = frame_image p" "take 12 (said s3 s4) = frame_image r" "drop 12 (said s3 s4) = concat (map wire gs)"
    using s0(2) s1(2) s2(2) s3(2) s4(2) by simp_all
  let ?mt = "master_hears [frame_image b, frame_image a, frame_image q, frame_image p, frame_image r]
    (line (concat (map wire gs))) mt"
  have "tx_idle ?mt" "rx_ready ?mt = [True, True, True, True, True, True]"
    "rx_reads ?mt = map (\<lambda>f. Some (frame_image f)) [b, a, q, p, r] @ line (concat (map wire gs))"
    using master(4) by simp_all
  from master_exchange [OF master(1-3) this s0(3,4) s1(3) s2(3,4) s3(3,4) _ s4(3,4,6,7) few heard] s3(5)
  obtain st where "master_main menv opt ?mt = Some (Inr (st, [(me_bin menv 0)\<lparr> of_bytes := bytes \<rparr>]))"
    "tx_bytes (ms_tty st) = tx_bytes mt @ frame_image (query_request ?out) @ frame_image (send_request ?out)
      @ ?data @ frame_image (query_request ?out) @ frame_image (query_request ?out) @ frame_image (recv_request ?out)"
    using s4(8) by auto
  then show ?thesis
    unfolding exchange_def Let_def
    using master(2) s0(1) s1(1) s2(1) s3(1) s4(1) said
    by (intro exI [of _ fs] exI [of _ s0] exI [of _ s1] exI [of _ s2] exI [of _ s3] exI [of _ s4] exI [of _ st]) simp
qed

lemma dry_run_exchange:
  assumes "faithful line" and "one_operand menv opt" and "operand menv xs" and "tx_idle mt" and "unused 0 s"
    and "e_dry_run env" and "\<And>n. e_malloc env n" and "\<And>n. length (e_frames env n) = n"
  shows "exchange env line menv opt s mt (loaded xs)"
proof -
  obtain fs where fs: "operand_frames menv fs" "list_all sendable fs" "list_all fits fs"
      "concat (map payload fs) = loaded xs"
    using operand_loads [OF assms(3)] .
  have xs: "xs \<noteq> []" "length xs \<le> 65535 * TP_FRAME_DATA_LEN_MAX"
    using assms(3) by (simp_all add: operand_def readable_file_def)
  have len: "length (loaded xs) = payloads_len fs" using length_payloads [OF fs(3)] fs(4) by simp
  have "length fs < 65536" using fs(1) by (simp add: operand_frames_def)
  then have "unat (of_nat (length fs) :: u16) = length (number_frames (n_total_frame mt) fs)"
    by (simp add: unat_of_nat_u16)
  moreover have "list_all fits (number_frames (n_total_frame mt) fs)" using fs(3) by (simp add: fits_number_frames)
  ultimately have "process_data_frames_dry_run env (map data_frame_received (number_frames (n_total_frame mt) fs))
      (of_nat (length fs)) None (sl_status s) (sl_dev s) = Inr (length (loaded xs), Some (loaded xs), sl_status s, sl_dev s)"
    using process_announced [OF assms(6,7)] by (simp add: payload_number_frames fs(4))
  then show ?thesis
    using stream_survives [OF assms(1,2) fs(1,2) assms(4,5,7,8)] len payloads_room [OF fs(2,3)] xs
    by (simp add: loaded_nonempty)
qed

text \<open>
  C2: in a dry run a picture survives the two programs and the line between them. The master's
  \<open>main\<close>, run with one file, and a slave in a dry run that has nothing of picture 0 exchange a QUERY, a
  SEND with the frames of the file behind it, two QUERYs and a RECV; each hears what the other has put on
  the line, the frames in pieces of any size. Both sides return, the slave has heard exactly what the
  master has sent, and in the master's output file is what the frames of the file hold: the file itself
  when its last frame is full or it has one frame only.
\<close>

theorem picture_survives_the_link:
  assumes "faithful line" and "one_operand menv opt" and "operand menv xs" and "tx_idle mt" and "unused 0 s"
    and "e_dry_run env" and "\<And>n. e_malloc env n" and "\<And>n. length (e_frames env n) = n"
  shows "exchange env line menv opt s mt (loaded xs) \<and>
    (TP_FRAME_DATA_LEN_MAX dvd length xs \<or> length xs \<le> TP_FRAME_DATA_LEN_MAX \<longrightarrow> loaded xs = xs)"
  using dry_run_exchange [OF assms] loaded_id by blast

definition whole_line :: "bytes \<Rightarrow> bytes option list" where
  "whole_line bs = [None, Some bs]"

text \<open>For instance a file of six bytes.\<close>

definition six_file_env :: master_env where
  "six_file_env = no_file_env\<lparr> me_file := (\<lambda>_. \<lparr> fe_open = Some \<lparr> fl_rest = [1, 2, 3, 4, 5, 6], fl_read_fails = [] \<rparr>,
       fe_fstat_ok = True, fe_close_ok = True \<rparr>), me_frames := (\<lambda>_. Some [blank_data_frame]) \<rparr>"

definition one_file_opt :: master_opt where
  "one_file_opt = (master_init_opt None)\<lparr> mo_files := [''a.yuv''], mo_number := 1 \<rparr>"

lemma six_file: "one_operand six_file_env one_file_opt" "operand six_file_env [1, 2, 3, 4, 5, 6]"
  by (simp_all add: one_operand_def operand_def readable_file_def six_file_env_def no_file_env_def one_file_opt_def master_init_opt_def
      good_file_def writable_def file_name_size_def ceil_div_def const_defs sizeof_data_frame_t_def
      TP_FRAME_DATA_LEN_MAX_def wf_data_frame_def blank_data_frame_def)

lemma faithful_whole_line: "faithful whole_line"
  by (simp add: faithful_def whole_line_def COUNT_def stream_def)

lemma unused_init: "tx_idle tty \<Longrightarrow> unused 0 (init_slave tty dev)"
  using slave_inv_init by (simp add: unused_def init_slave_def PICTURES_NUMBER_MAX_def)

theorem picture_survives_the_link_witness:
  "exchange sample_env whole_line six_file_env one_file_opt (init_slave idle_tty sample_dev) idle_tty [1, 2, 3, 4, 5, 6]"
proof -
  let ?xs = "[1, 2, 3, 4, 5, 6] :: bytes"
  have env: "e_dry_run sample_env" "e_malloc sample_env n" "length (e_frames sample_env n) = n" for n
    by (simp_all add: sample_env_def)
  have "length ?xs \<le> TP_FRAME_DATA_LEN_MAX" by (simp add: TP_FRAME_DATA_LEN_MAX_def)
  then show ?thesis
    using picture_survives_the_link [OF faithful_whole_line six_file tx_idle_sample(1)
        unused_init [OF tx_idle_sample(1), of sample_dev] env] by metis
qed

section \<open>The master's array\<close>

lemma round_keeps:
  assumes "receive_data_frames slots frame tty = Inr (m, slots', tty')"
  shows "length slots' = length slots" and "list_all wf_data_frame slots \<Longrightarrow> list_all wf_data_frame slots'"
    and "\<forall>i < length slots. 0 < df_data_len (slots ! i) \<longrightarrow> slots' ! i = slots ! i"
proof -
  show "length slots' = length slots" "list_all wf_data_frame slots \<Longrightarrow> list_all wf_data_frame slots'"
    using receive_data_frames_Inr [OF assms] by simp_all
  obtain ready tty1 where e: "epoll_rx tty = (ready, tty1)" by fastforce
  show "\<forall>i < length slots. 0 < df_data_len (slots ! i) \<longrightarrow> slots' ! i = slots ! i"
  proof (cases "ready")
    case True
    then have "unat (f_n_frame frame) \<le> length slots"
      using receive_overrun_fault [of slots frame tty] assms e by (cases "length slots < unat (f_n_frame frame)") auto
    then show ?thesis
      using receive_data_frames_ok [of tty tty1 "unat (f_n_frame frame)" frame slots] assms e True
      by (auto simp add: nth_append accept_slot_def Let_def)
  next
    case False
    then show ?thesis using receive_data_frames_timeout [of tty tty1 slots frame] assms e by auto
  qed
qed

text \<open>
  C21: the array of a download keeps its type. However often the loop goes round and whatever the
  slave and the line deliver, when it ends the array has the length it began with, every frame
  in it has arrays of the declared sizes, and a frame that had been received is unchanged.
\<close>

theorem download_keeps_the_array:
  assumes "download_loop tcflush out fs tty = Some (Inr (out', a, fs', tty'))" and "list_all wf_data_frame fs"
  shows "length fs' = length fs \<and> list_all wf_data_frame fs' \<and>
    (\<forall>i < length fs. 0 < df_data_len (fs ! i) \<longrightarrow> fs' ! i = fs ! i)"
proof -
  let ?P = "\<lambda>_ _ fs _ (r :: (frame_t \<times> frame_t \<times> data_frame_t list \<times> tty_t) res).
    list_all wf_data_frame fs \<longrightarrow> (\<forall>out' a fs' tty'. r = Inr (out', a, fs', tty') \<longrightarrow>
      length fs' = length fs \<and> list_all wf_data_frame fs' \<and>
      (\<forall>i < length fs. 0 < df_data_len (fs ! i) \<longrightarrow> fs' ! i = fs ! i))"
  have "?P tcflush out fs tty (Inr (out', a, fs', tty'))"
  proof (rule download_loop.raw_induct [where P = ?P, OF _ assms(1)], goal_cases)
    case (1 rec tcflush out fs tty r)
    show ?case
    proof (intro impI allI)
      fix out' a fs' tty'
      assume wf: "list_all wf_data_frame fs" and r: "r = Inr (out', a, fs', tty')"
      obtain n input t1 where s: "send_and_receive_frame (out\<lparr> f_frame_type := TP_FRAME_TYPE_RECV \<rparr>) tty =
          Some (Inr (n, input, t1))"
        using 1(2) r by (auto simp add: Let_def split: option.split_asm sum.split_asm)
      obtain m gs t2 where d: "receive_data_frames fs input t1 = Inr (m, gs, t2)"
        using 1(2) r s by (auto simp add: Let_def split: sum.split_asm)
      note k = round_keeps [OF d]
      obtain t3 where "tcflush t2 = Some t3" using 1(2) r s d by (auto simp add: Let_def split: option.split_asm)
      then consider "fs' = gs" | "rec tcflush (out\<lparr> f_frame_type := TP_FRAME_TYPE_RECV \<rparr>) gs t3 = Some r"
        using 1(2) r s d by (auto simp add: Let_def split: if_split_asm)
      then show "length fs' = length fs \<and> list_all wf_data_frame fs' \<and>
          (\<forall>i < length fs. 0 < df_data_len (fs ! i) \<longrightarrow> fs' ! i = fs ! i)"
        using k wf r by cases (simp, fastforce dest: 1(1))
    qed
  qed
  then show ?thesis using assms(2) by simp
qed

theorem download_keeps_the_array_witness:
  "let a = (answer_to (recv_request query_frame) 0)\<lparr> f_n_frame := 1 \<rparr>;
     tty = idle_tty\<lparr> rx_ready := [True, True],
       rx_reads := [Some (frame_image a), Some (wire sample_data_frame)] \<rparr>
   in \<exists>out' a' fs' tty'. download_loop Some query_frame [blank_data_frame] tty = Some (Inr (out', a', fs', tty')) \<and>
     length fs' = 1 \<and> list_all wf_data_frame fs'"
proof -
  let ?a = "(answer_to (recv_request query_frame) 0)\<lparr> f_n_frame := 1 \<rparr>"
  let ?tty = "idle_tty\<lparr> rx_ready := [True, True],
    rx_reads := [Some (frame_image ?a), Some (wire sample_data_frame)] \<rparr>"
  have "tx_idle ?tty" "answers (recv_request query_frame) ?a" "steady 0 [Some (wire sample_data_frame)]"
    by (simp_all add: answers_def answer_to_def COUNT_def)
  then obtain out' a' fs' tty' where
      "download_loop Some query_frame (replicate 1 blank_data_frame) ?tty = Some (Inr (out', a', fs', tty'))"
    using download_ok [of ?tty query_frame ?a "[sample_data_frame]" 1 "[]" "[Some (wire sample_data_frame)]" "[]"
        Some "\<lambda>t. t"] by auto
  with download_keeps_the_array [of Some query_frame "[blank_data_frame]" ?tty out' a' fs' tty'] show ?thesis
    by (simp add: Let_def)
qed

end
