(* ===== verification/Coder.thy ===== *)
theory Coder
  imports Prelude "HOL-Library.Signed_Division"
begin

text \<open>
  The encoder of \<^verbatim>\<open>arithmetic_coding.cpp\<close>: the bit stream and the two classes of the
  arithmetic coder. The second half of the theory shows that it implements interval coding in
  unbounded precision: whatever is written, the bits that come out name a number in the
  interval of every step.
\<close>

section \<open>BitOutputStream\<close>

text \<open>\<open>bo_data\<close> is the block from \<open>data_addr\<close> to its end, \<open>bo_size\<close> the bytes written so far.\<close>

record bit_out =
  bo_current :: int
  bo_filled :: nat
  bo_data :: bytes
  bo_size :: nat

definition BitOutputStream :: "bytes \<Rightarrow> bit_out" where
  "BitOutputStream addr = \<lparr> bo_current = 0, bo_filled = 0, bo_data = addr, bo_size = 0 \<rparr>"

text \<open>
  \<open>char_signed\<close> is \<open>numeric_limits<char>::is_signed\<close>, which differs between the platforms the
  program is built for.
\<close>

definition bit_write :: "bool \<Rightarrow> int \<Rightarrow> bit_out \<Rightarrow> bit_out res" where
  "bit_write char_signed b bo =
     (if b \<noteq> 0 \<and> b \<noteq> 1 then Inl Throw
      else let cur = push_bit 1 (bo_current bo) OR b; filled = bo_filled bo + 1 in
        if filled = 8 then
          let cur = (if char_signed then cur - push_bit 8 (drop_bit 7 cur) else cur) in
          and_then (put_at (bo_data bo) (bo_size bo) (word_of_int cur))
            (\<lambda>data. Inr (bo\<lparr> bo_current := 0, bo_filled := 0, bo_data := data,
               bo_size := bo_size bo + 1 \<rparr>))
        else Inr (bo\<lparr> bo_current := cur, bo_filled := filled \<rparr>))"

partial_function (option) bit_finish :: "bool \<Rightarrow> bit_out \<Rightarrow> bit_out res option" where
  "bit_finish char_signed bo =
     (if bo_filled bo = 0 then Some (Inr bo)
      else case bit_write char_signed 0 bo of
          Inl f \<Rightarrow> Some (Inl f)
        | Inr bo \<Rightarrow> bit_finish char_signed bo)"

section \<open>The arithmetic coder\<close>

text \<open>\<open>ArithmeticEncoder\<close> with the members it inherits; the stream is the one it refers to.\<close>

record coder =
  ac_numStateBits :: nat
  ac_fullRange :: u64
  ac_halfRange :: u64
  ac_quarterRange :: u64
  ac_minimumRange :: u64
  ac_maximumTotal :: u64
  ac_stateMask :: u64
  ac_low :: u64
  ac_high :: u64
  ac_numUnderflow :: u64
  ac_out :: bit_out

definition ArithmeticEncoder :: "int \<Rightarrow> bit_out \<Rightarrow> coder res" where
  "ArithmeticEncoder numBits out =
     (if \<not> (1 \<le> numBits \<and> numBits \<le> 63) then Inl Throw
      else let full = push_bit (nat numBits) 1 :: u64; half = drop_bit 1 full;
               quarter = drop_bit 1 half; minimum = quarter + 2; mask = full - 1
        in Inr \<lparr> ac_numStateBits = nat numBits, ac_fullRange = full, ac_halfRange = half,
             ac_quarterRange = quarter, ac_minimumRange = minimum,
             ac_maximumTotal = min (- 1 div full) minimum, ac_stateMask = mask, ac_low = 0,
             ac_high = mask, ac_numUnderflow = 0, ac_out = out \<rparr>)"

definition ac_shift :: "bool \<Rightarrow> coder \<Rightarrow> coder res" where
  "ac_shift cs c =
     (let b = uint (drop_bit (ac_numStateBits c - 1) (ac_low c)) in
      and_then (bit_write cs b (ac_out c)) (\<lambda>out.
      and_then (for_each [0..<unat (ac_numUnderflow c)] (\<lambda>_. bit_write cs (b XOR 1)) out) (\<lambda>out.
        Inr (c\<lparr> ac_out := out, ac_numUnderflow := 0 \<rparr>))))"

definition ac_underflow :: "coder \<Rightarrow> coder" where
  "ac_underflow c = c\<lparr> ac_numUnderflow := ac_numUnderflow c + 1 \<rparr>"

partial_function (option) shift_loop :: "bool \<Rightarrow> coder \<Rightarrow> coder res option" where
  "shift_loop cs c =
     (if (ac_low c XOR ac_high c) AND ac_halfRange c = 0
      then case ac_shift cs c of
          Inl f \<Rightarrow> Some (Inl f)
        | Inr c \<Rightarrow> shift_loop cs (c\<lparr> ac_low := push_bit 1 (ac_low c) AND ac_stateMask c,
            ac_high := (push_bit 1 (ac_high c) AND ac_stateMask c) OR 1 \<rparr>)
      else Some (Inr c))"

partial_function (option) underflow_loop :: "coder \<Rightarrow> coder option" where
  "underflow_loop c =
     (if ac_low c AND NOT (ac_high c) AND ac_quarterRange c \<noteq> 0
      then underflow_loop ((ac_underflow c)\<lparr>
          ac_low := push_bit 1 (ac_low c) XOR ac_halfRange c,
          ac_high := push_bit 1 (ac_high c XOR ac_halfRange c) OR ac_halfRange c OR 1 \<rparr>)
      else Some c)"

definition ac_update :: "bool \<Rightarrow> u32 \<Rightarrow> u32 \<Rightarrow> u32 \<Rightarrow> coder \<Rightarrow> coder res option" where
  "ac_update cs tot symLow symHigh c =
     (if tot = 0 then Some (Inl DivByZero)
      else let range = ac_high c - ac_low c + 1;
               newLow = ac_low c + ucast symLow * range div ucast tot;
               newHigh = ac_low c + ucast symHigh * range div ucast tot - 1
        in case shift_loop cs (c\<lparr> ac_low := newLow, ac_high := newHigh \<rparr>) of
             None \<Rightarrow> None
           | Some (Inl f) \<Rightarrow> Some (Inl f)
           | Some (Inr c) \<Rightarrow> map_option Inr (underflow_loop c))"

definition ac_write :: "bool \<Rightarrow> u32 \<Rightarrow> u32 \<Rightarrow> u32 \<Rightarrow> coder \<Rightarrow> coder res option" where
  "ac_write = ac_update"

definition ac_finish :: "bool \<Rightarrow> coder \<Rightarrow> coder res" where
  "ac_finish cs c = and_then (bit_write cs 1 (ac_out c)) (\<lambda>out. Inr (c\<lparr> ac_out := out \<rparr>))"

section \<open>The stream as a number\<close>

text \<open>The bits written so far, most significant first, as a number; and how many they are.\<close>

definition bytes_val :: "bytes \<Rightarrow> nat" where
  "bytes_val bs = foldl (\<lambda>v b. v * 256 + unat b) 0 bs"

definition stream_val :: "bit_out \<Rightarrow> nat" where
  "stream_val bo = bytes_val (take (bo_size bo) (bo_data bo)) * 2 ^ bo_filled bo
     + nat (bo_current bo)"

definition stream_bits :: "bit_out \<Rightarrow> nat" where
  "stream_bits bo = 8 * bo_size bo + bo_filled bo"

definition bo_ok :: "bit_out \<Rightarrow> bool" where
  "bo_ok bo \<longleftrightarrow> bo_filled bo < 8 \<and> 0 \<le> bo_current bo \<and> bo_current bo < 2 ^ bo_filled bo"

lemma bytes_val_Nil [simp]: "bytes_val [] = 0"
  by (simp add: bytes_val_def)

lemma bytes_val_snoc [simp]: "bytes_val (bs @ [b]) = bytes_val bs * 256 + unat b"
  by (simp add: bytes_val_def)

text \<open>Either signedness of \<open>char\<close> stores the same byte.\<close>

lemma stored_byte:
  "(word_of_int (if cs then cur - push_bit 8 (drop_bit 7 cur) else cur) :: u8) = word_of_int cur"
proof -
  have "(word_of_int (push_bit 8 x) :: u8) = 0" for x :: int
    by (rule bit_word_eqI) (simp add: bit_simps)
  then show ?thesis by (simp add: of_int_diff)
qed

lemma unat_word_of_int_u8: "0 \<le> x \<Longrightarrow> x < 256 \<Longrightarrow> unat (word_of_int x :: u8) = nat x"
  by (simp add: unsigned_of_int take_bit_int_eq_self)

lemma push_or_bit: "b = 0 \<or> b = 1 \<Longrightarrow> push_bit 1 (x :: int) OR b = 2 * x + b"
  by (auto simp add: push_bit_eq_mult or_one_eq mult.commute)

lemma bit_write_eq:
  assumes "b = 0 \<or> b = 1"
  shows "bit_write cs b bo =
    (if bo_filled bo + 1 = 8 then
       and_then (put_at (bo_data bo) (bo_size bo) (word_of_int (2 * bo_current bo + b)))
         (\<lambda>data. Inr (bo\<lparr> bo_current := 0, bo_filled := 0, bo_data := data,
            bo_size := bo_size bo + 1 \<rparr>))
     else Inr (bo\<lparr> bo_current := 2 * bo_current bo + b, bo_filled := bo_filled bo + 1 \<rparr>))"
  unfolding bit_write_def push_or_bit [OF assms] Let_def stored_byte using assms by auto

lemma bit_write_ok:
  assumes "bo_ok bo" and "b = 0 \<or> b = 1" and "stream_bits bo < 8 * length (bo_data bo)"
  shows "\<exists>bo'. bit_write cs b bo = Inr bo' \<and> bo_ok bo' \<and> stream_bits bo' = stream_bits bo + 1 \<and>
    stream_val bo' = 2 * stream_val bo + nat b \<and> length (bo_data bo') = length (bo_data bo)"
proof -
  let ?cur = "2 * bo_current bo + b"
  have cur: "0 \<le> ?cur" "?cur < 2 ^ (bo_filled bo + 1)"
    using assms(1,2) by (auto simp add: bo_ok_def)
  show ?thesis
  proof (cases "bo_filled bo + 1 = 8")
    case True
    then have f: "bo_filled bo = 7" by simp
    with assms(3) have i: "bo_size bo < length (bo_data bo)" by (simp add: stream_bits_def)
    have c: "?cur < 256" using cur(2) f by simp
    have u: "unat (word_of_int ?cur :: u8) = nat ?cur"
      using cur(1) c by (rule unat_word_of_int_u8)
    define bo' where "bo' = bo\<lparr> bo_current := 0, bo_filled := 0,
      bo_data := (bo_data bo)[bo_size bo := word_of_int ?cur], bo_size := bo_size bo + 1 \<rparr>"
    have "bit_write cs b bo = Inr bo'"
      unfolding bit_write_eq [OF assms(2)] bo'_def using f i by simp
    moreover have "stream_val bo' = 2 * stream_val bo + nat b"
      using i u f assms(1,2) cur
      by (auto simp add: stream_val_def bo'_def take_Suc_conv_app_nth bo_ok_def nat_add_distrib nat_mult_distrib)
    ultimately show ?thesis
      using f by (simp add: bo'_def bo_ok_def stream_bits_def)
  next
    case False
    then have "bit_write cs b bo = Inr (bo\<lparr> bo_current := ?cur, bo_filled := bo_filled bo + 1 \<rparr>)"
      unfolding bit_write_eq [OF assms(2)] by simp
    then show ?thesis
      using False cur assms(1,2)
      by (auto simp add: bo_ok_def stream_bits_def stream_val_def nat_add_distrib nat_mult_distrib)
  qed
qed

text \<open>Writing one bit several times, as the pending bits of \<open>shift\<close> are.\<close>

lemma bit_write_repeated:
  assumes "bo_ok bo" and "b = 0 \<or> b = 1" and "stream_bits bo + k \<le> 8 * length (bo_data bo)"
  shows "\<exists>bo'. for_each [0..<k] (\<lambda>_. bit_write cs b) bo = Inr bo' \<and> bo_ok bo' \<and>
    stream_bits bo' = stream_bits bo + k \<and>
    stream_val bo' = stream_val bo * 2 ^ k + nat b * (2 ^ k - 1) \<and>
    length (bo_data bo') = length (bo_data bo)"
  using assms(3)
proof (induction k)
  case (Suc k)
  then obtain b1 where b1: "for_each [0..<k] (\<lambda>_. bit_write cs b) bo = Inr b1" "bo_ok b1"
      "stream_bits b1 = stream_bits bo + k"
      "stream_val b1 = stream_val bo * 2 ^ k + nat b * (2 ^ k - 1)"
      "length (bo_data b1) = length (bo_data bo)"
    by auto
  moreover have "stream_bits b1 < 8 * length (bo_data b1)" using Suc.prems b1 by simp
  ultimately obtain b2 where "bit_write cs b b1 = Inr b2" "bo_ok b2"
      "stream_bits b2 = stream_bits b1 + 1" "stream_val b2 = 2 * stream_val b1 + nat b"
      "length (bo_data b2) = length (bo_data b1)"
    using bit_write_ok [OF _ assms(2), of b1 cs] by blast
  moreover have "2 * (stream_val bo * 2 ^ k + nat b * (2 ^ k - 1)) + nat b =
      stream_val bo * 2 ^ Suc k + nat b * (2 ^ Suc k - 1)"
  proof -
    have "1 \<le> (2 :: nat) ^ k" by simp
    then obtain p where "(2 :: nat) ^ k = p + 1" by (metis le_add_diff_inverse2)
    then show ?thesis using assms(2) by (auto simp add: algebra_simps)
  qed
  ultimately show ?case using b1 by (simp add: for_each_append)
qed (use assms(1) in simp)

section \<open>Interval coding in unbounded precision\<close>

text \<open>
  The reference: an interval \<open>[A + l, A + h]\<close> of numbers with \<open>32 + e\<close> binary digits after the
  point. A step narrows it to the part of a symbol; then it is rescaled, doubling it as long
  as the 32 digits of \<open>l\<close> and \<open>h\<close> stay on the same side of a half, or straddle it closely.
\<close>

abbreviation full :: nat where "full \<equiv> 4294967296"
abbreviation half :: nat where "half \<equiv> 2147483648"
abbreviation quarter :: nat where "quarter \<equiv> 1073741824"

type_synonym interval = "nat \<times> nat \<times> nat \<times> nat"

function shifts :: "nat \<Rightarrow> nat \<Rightarrow> nat \<Rightarrow> nat \<Rightarrow> interval" where
  "shifts A e l h =
     (if l \<le> h \<and> h < full \<and> (h < half \<or> half \<le> l) then
        let b = l div half in
        shifts (2 * A + b * full) (e + 1) (2 * l - b * full) (2 * h + 1 - b * full)
      else (A, e, l, h))"
  by auto

lemma shift_doubles:
  assumes "l \<le> h" and "h < full" and "h < half \<or> half \<le> l"
  shows "2 * l = l div half * full + (2 * l - l div half * full)"
    and "2 * h + 1 = l div half * full + (2 * h + 1 - l div half * full)"
    and "2 * l - l div half * full \<le> 2 * h + 1 - l div half * full"
    and "2 * h + 1 - l div half * full < full"
    and "2 * h + 1 - l div half * full - (2 * l - l div half * full) = 2 * (h - l) + 1"
proof -
  have "l div half = (if h < half then 0 else 1)"
  proof (cases "h < half")
    case True
    then show ?thesis using assms(1) by simp
  next
    case False
    then show ?thesis using assms by (intro div_nat_eqI) auto
  qed
  then show "2 * l = l div half * full + (2 * l - l div half * full)"
    and "2 * h + 1 = l div half * full + (2 * h + 1 - l div half * full)"
    and "2 * l - l div half * full \<le> 2 * h + 1 - l div half * full"
    and "2 * h + 1 - l div half * full < full"
    and "2 * h + 1 - l div half * full - (2 * l - l div half * full) = 2 * (h - l) + 1"
    using assms by auto
qed

termination shifts
proof (relation "measure (\<lambda>(A, e, l, h). full - (h - l))")
  fix A e l h b :: nat
  assume "l \<le> h \<and> h < full \<and> (h < half \<or> half \<le> l)" and b: "b = l div half"
  then have a: "l \<le> h" "h < full" "h < half \<or> half \<le> l" by auto
  have "2 * h + 1 - b * full - (2 * l - b * full) = 2 * (h - l) + 1"
    using shift_doubles(5) [OF a] unfolding b .
  then show "((2 * A + b * full, e + 1, 2 * l - b * full, 2 * h + 1 - b * full), A, e, l, h)
      \<in> measure (\<lambda>(A, e, l, h). full - (h - l))"
    using a(1,2) by simp
qed simp

declare shifts.simps [simp del]

function underflows :: "nat \<Rightarrow> nat \<Rightarrow> nat \<Rightarrow> nat \<Rightarrow> interval" where
  "underflows A e l h =
     (if quarter \<le> l \<and> l < half \<and> half \<le> h \<and> h < half + quarter then
        underflows (2 * A + half) (e + 1) (2 * l - half) (2 * h + 1 - half)
      else (A, e, l, h))"
  by pat_completeness (elim Pair_inject, hypsubst, rule refl)
termination underflows
proof (relation "measure (\<lambda>(A, e, l, h). full - (h - l))")
  fix A e l h :: nat
  assume a: "quarter \<le> l \<and> l < half \<and> half \<le> h \<and> h < half + quarter"
  then have "full - (2 * h + 1 - half - (2 * l - half)) < full - (h - l)" by linarith
  then show "((2 * A + half, e + 1, 2 * l - half, 2 * h + 1 - half), A, e, l, h)
      \<in> measure (\<lambda>(A, e, l, h). full - (h - l))"
    by (simp only: in_measure prod.case)
qed simp

declare underflows.simps [simp del]

definition rescale :: "nat \<Rightarrow> nat \<Rightarrow> nat \<Rightarrow> nat \<Rightarrow> interval" where
  "rescale A e l h = (case shifts A e l h of (A, e, l, h) \<Rightarrow> underflows A e l h)"

definition narrow :: "nat \<times> nat \<times> nat \<Rightarrow> interval \<Rightarrow> interval" where
  "narrow step iv = (case (step, iv) of ((t, a, b), (A, e, l, h)) \<Rightarrow>
     (A, e, l + a * (h - l + 1) div t, l + b * (h - l + 1) div t - 1))"

definition code_step :: "nat \<times> nat \<times> nat \<Rightarrow> interval \<Rightarrow> interval" where
  "code_step step iv = (case narrow step iv of (A, e, l, h) \<Rightarrow> rescale A e l h)"

text \<open>Rescaling by \<open>k\<close> digits: the same interval, written more finely.\<close>

definition rescaled :: "nat \<Rightarrow> interval \<Rightarrow> interval \<Rightarrow> bool" where
  "rescaled k iv iv' = (case (iv, iv') of ((A, e, l, h), (A', e', l', h')) \<Rightarrow>
     e' = e + k \<and> A' + l' = 2 ^ k * (A + l) \<and> A' + h' + 1 = 2 ^ k * (A + h + 1))"

lemma rescaled_refl: "rescaled 0 iv iv"
  by (simp add: rescaled_def split: prod.split)

lemma rescaled_step:
  assumes "2 * l = d + l'" and "2 * h + 1 = d + h'" and "rescaled k (2 * A + d, e + 1, l', h') iv"
  shows "rescaled (Suc k) (A, e, l, h) iv"
proof -
  obtain A2 e2 l2 h2 where iv: "iv = (A2, e2, l2, h2)" by (cases iv)
  have "2 * A + d + l' = 2 * (A + l)" "2 * A + d + h' + 1 = 2 * (A + h + 1)"
    using assms(1,2) by simp_all
  with assms(3) show ?thesis
    unfolding rescaled_def iv prod.case power_Suc by (metis add.assoc add_Suc_right add_Suc
        mult.assoc mult.commute Suc_eq_plus1)
qed

lemma rescaled_comp:
  assumes "rescaled j iv1 iv2" and "rescaled k iv2 iv3"
  shows "rescaled (j + k) iv1 iv3"
proof -
  have p: "2 ^ (j + k) * x = 2 ^ k * (2 ^ j * x)" for x :: nat
    by (simp add: power_add mult.assoc mult.left_commute)
  obtain A1 e1 l1 h1 A2 e2 l2 h2 A3 e3 l3 h3
    where iv: "iv1 = (A1, e1, l1, h1)" "iv2 = (A2, e2, l2, h2)" "iv3 = (A3, e3, l3, h3)"
    by (metis prod_cases4)
  from assms have "e2 = e1 + j" "e3 = e2 + k"
    and "A3 + l3 = 2 ^ k * (A2 + l2)" "A2 + l2 = 2 ^ j * (A1 + l1)"
    and "A3 + h3 + 1 = 2 ^ k * (A2 + h2 + 1)" "A2 + h2 + 1 = 2 ^ j * (A1 + h1 + 1)"
    unfolding rescaled_def iv prod.case by blast+
  then show ?thesis unfolding rescaled_def iv prod.case p by (simp only: add.assoc)
qed

definition straddles :: "nat \<Rightarrow> nat \<Rightarrow> bool" where
  "straddles l h \<longleftrightarrow> l < half \<and> half \<le> h \<and> h < full"

lemma shifts_spec:
  assumes "l \<le> h" and "h < full"
  shows "\<exists>k A' e' l' h'. shifts A e l h = (A', e', l', h') \<and>
    rescaled k (A, e, l, h) (A', e', l', h') \<and> straddles l' h'"
  using assms
proof (induction A e l h rule: shifts.induct)
  case (1 A e l h)
  show ?case
  proof (cases "h < half \<or> half \<le> l")
    case True
    note d = shift_doubles [OF "1.prems" True]
    let ?d = "l div half * full"
    from d "1.IH" [OF _ refl, of] True "1.prems" obtain k iv
      where "shifts (2 * A + ?d) (e + 1) (2 * l - ?d) (2 * h + 1 - ?d) = iv"
        and "rescaled k (2 * A + ?d, e + 1, 2 * l - ?d, 2 * h + 1 - ?d) iv"
        and "\<exists>A' e' l' h'. iv = (A', e', l', h') \<and> straddles l' h'"
      by blast
    moreover have "shifts A e l h = shifts (2 * A + ?d) (e + 1) (2 * l - ?d) (2 * h + 1 - ?d)"
      using True "1.prems" by (subst shifts.simps) (simp add: Let_def)
    ultimately show ?thesis using rescaled_step [OF d(1,2)] by metis
  next
    case False
    then have "shifts A e l h = (A, e, l, h)" by (subst shifts.simps) simp
    then show ?thesis
      using False "1.prems" rescaled_refl [of "(A, e, l, h)"]
      by (auto simp add: straddles_def not_less not_le)
  qed
qed

text \<open>After rescaling, the interval is more than a quarter wide.\<close>

definition normal :: "nat \<Rightarrow> nat \<Rightarrow> bool" where
  "normal l h \<longleftrightarrow> straddles l h \<and> (l < quarter \<or> half + quarter \<le> h)"

lemma normal_range: "normal l h \<Longrightarrow> quarter < h - l + 1 \<and> h - l + 1 \<le> full"
  by (auto simp add: normal_def straddles_def)

lemma underflows_spec:
  assumes "straddles l h"
  shows "\<exists>k A' e' l' h'. underflows A e l h = (A', e', l', h') \<and>
    rescaled k (A, e, l, h) (A', e', l', h') \<and> normal l' h'"
  using assms
proof (induction A e l h rule: underflows.induct)
  case (1 A e l h)
  show ?case
  proof (cases "quarter \<le> l \<and> h < half + quarter")
    case True
    then have c: "quarter \<le> l \<and> l < half \<and> half \<le> h \<and> h < half + quarter"
      using "1.prems" by (simp add: straddles_def)
    then have d: "2 * l = half + (2 * l - half)" "2 * h + 1 = half + (2 * h + 1 - half)" by simp_all
    from c have "straddles (2 * l - half) (2 * h + 1 - half)" by (auto simp add: straddles_def)
    from "1.IH" [OF c this] obtain k iv
      where "underflows (2 * A + half) (e + 1) (2 * l - half) (2 * h + 1 - half) = iv"
        and "rescaled k (2 * A + half, e + 1, 2 * l - half, 2 * h + 1 - half) iv"
        and "\<exists>A' e' l' h'. iv = (A', e', l', h') \<and> normal l' h'"
      by blast
    moreover have "underflows A e l h =
        underflows (2 * A + half) (e + 1) (2 * l - half) (2 * h + 1 - half)"
      by (subst underflows.simps) (simp only: c simp_thms if_True)
    ultimately show ?thesis using rescaled_step [OF d] by metis
  next
    case False
    then have "underflows A e l h = (A, e, l, h)" by (subst underflows.simps) auto
    then show ?thesis
      using False "1.prems" rescaled_refl [of "(A, e, l, h)"] by (auto simp add: normal_def)
  qed
qed

lemma rescale_spec:
  assumes "l \<le> h" and "h < full"
  shows "\<exists>k A' e' l' h'. rescale A e l h = (A', e', l', h') \<and>
    rescaled k (A, e, l, h) (A', e', l', h') \<and> normal l' h'"
proof -
  from shifts_spec [OF assms] obtain j A1 e1 l1 h1 where "shifts A e l h = (A1, e1, l1, h1)"
    and "rescaled j (A, e, l, h) (A1, e1, l1, h1)" and "straddles l1 h1" by blast
  moreover from underflows_spec [OF this(3)] obtain k A' e' l' h'
    where "underflows A1 e1 l1 h1 = (A', e', l', h')"
      and "rescaled k (A1, e1, l1, h1) (A', e', l', h')" and "normal l' h'" by blast
  ultimately show ?thesis by (auto simp add: rescale_def intro: rescaled_comp)
qed

text \<open>A step is a total and the bounds of the symbol's part of it.\<close>

definition valid_step :: "nat \<times> nat \<times> nat \<Rightarrow> bool" where
  "valid_step step \<longleftrightarrow> (case step of (t, a, b) \<Rightarrow> a < b \<and> b \<le> t \<and> t \<le> quarter)"

definition iv_normal :: "interval \<Rightarrow> bool" where
  "iv_normal iv \<longleftrightarrow> (case iv of (A, e, l, h) \<Rightarrow> normal l h)"

definition start_interval :: interval where
  "start_interval = (0, 0, 0, full - 1)"

lemma start_normal: "iv_normal start_interval"
  by (simp add: iv_normal_def start_interval_def normal_def straddles_def)

lemma narrow_room:
  assumes "valid_step (t, a, b)" and "normal l h"
  shows "a * (h - l + 1) div t + 1 \<le> b * (h - l + 1) div t" and "b * (h - l + 1) div t \<le> h - l + 1"
proof -
  define r where "r = h - l + 1"
  have v: "a < b" "b \<le> t" "t \<le> quarter" using assms(1) by (simp_all add: valid_step_def)
  have r: "quarter < r" using normal_range [OF assms(2)] by (simp add: r_def)
  have t: "0 < t" using v by simp
  have "(a * r + t) div t \<le> (b * r) div t"
  proof (rule div_le_mono)
    have "(a + 1) * r \<le> b * r" using v(1) by (intro mult_right_mono) simp_all
    then show "a * r + t \<le> b * r" using v(3) r by (simp add: add_mult_distrib)
  qed
  moreover have "(a * r + t) div t = a * r div t + 1" using div_add_self2 [of t "a * r"] t by simp
  ultimately show "a * (h - l + 1) div t + 1 \<le> b * (h - l + 1) div t" unfolding r_def by linarith
  have "b * r div t \<le> t * r div t" using v(2) by (intro div_le_mono mult_right_mono) simp_all
  moreover have "t * r div t = r" using t by (rule nonzero_mult_div_cancel_left [OF less_imp_neq [THEN not_sym]])
  ultimately show "b * (h - l + 1) div t \<le> h - l + 1" unfolding r_def by linarith
qed

lemma narrow_spec:
  assumes "valid_step (t, a, b)" and "normal l h"
  shows "\<exists>l' h'. narrow (t, a, b) (A, e, l, h) = (A, e, l', h') \<and> l \<le> l' \<and> l' \<le> h' \<and> h' \<le> h"
proof -
  define r where "r = h - l + 1"
  have "h + 1 = l + r" using assms(2) by (simp add: r_def normal_def straddles_def)
  with narrow_room [OF assms] have "l + a * r div t \<le> l + b * r div t - 1" "l + b * r div t - 1 \<le> h"
    unfolding r_def [symmetric] by linarith+
  then show ?thesis unfolding narrow_def prod.case r_def [symmetric] by simp
qed

text \<open>One interval inside another whose digits are \<open>k\<close> fewer.\<close>

definition inside :: "nat \<Rightarrow> interval \<Rightarrow> interval \<Rightarrow> bool" where
  "inside k iv iv' = (case (iv, iv') of ((A, e, l, h), (A', e', l', h')) \<Rightarrow>
     e' = e + k \<and> 2 ^ k * (A + l) \<le> A' + l' \<and> A' + h' + 1 \<le> 2 ^ k * (A + h + 1))"

lemma inside_refl: "inside 0 iv iv"
  by (simp add: inside_def split: prod.split)

lemma inside_comp:
  assumes "inside j iv1 iv2" and "inside k iv2 iv3"
  shows "inside (j + k) iv1 iv3"
proof -
  obtain A1 e1 l1 h1 A2 e2 l2 h2 A3 e3 l3 h3
    where iv: "iv1 = (A1, e1, l1, h1)" "iv2 = (A2, e2, l2, h2)" "iv3 = (A3, e3, l3, h3)"
    by (metis prod_cases4)
  have p: "2 ^ (j + k) * x = 2 ^ k * (2 ^ j * x)" for x :: nat
    by (simp add: power_add mult.assoc mult.left_commute)
  have "2 ^ k * (2 ^ j * (A1 + l1)) \<le> 2 ^ k * (A2 + l2)"
    and "2 ^ k * (A2 + h2 + 1) \<le> 2 ^ k * (2 ^ j * (A1 + h1 + 1))"
    using assms(1) unfolding inside_def iv by (simp_all only: prod.case mult_le_mono2)
  moreover from assms have "e2 = e1 + j" "e3 = e2 + k"
    and "2 ^ k * (A2 + l2) \<le> A3 + l3" "A3 + h3 + 1 \<le> 2 ^ k * (A2 + h2 + 1)"
    unfolding inside_def iv prod.case by blast+
  ultimately show ?thesis unfolding inside_def iv prod.case p by linarith
qed

lemma code_step_spec:
  assumes "valid_step step" and "iv_normal iv"
  shows "\<exists>k. k \<le> 32 \<and> inside k (narrow step iv) (code_step step iv) \<and> inside 0 iv (narrow step iv) \<and>
    iv_normal (code_step step iv)"
proof -
  obtain t a b where s: "step = (t, a, b)" by (metis prod_cases3)
  obtain A e l h where iv: "iv = (A, e, l, h)" by (metis prod_cases4)
  have n: "normal l h" using assms(2) by (simp add: iv iv_normal_def)
  from narrow_spec [OF assms(1) [unfolded s] n, of A e] obtain l' h'
    where nr: "narrow step iv = (A, e, l', h')" and lh: "l \<le> l'" "l' \<le> h'" "h' \<le> h"
    unfolding s iv by blast
  have "h' < full" using lh(3) n by (simp add: normal_def straddles_def)
  from rescale_spec [OF lh(2) this, of A e] obtain k A2 e2 l2 h2
    where rs: "rescale A e l' h' = (A2, e2, l2, h2)"
      and sc: "rescaled k (A, e, l', h') (A2, e2, l2, h2)" and n2: "normal l2 h2" by blast
  have cs: "code_step step iv = (A2, e2, l2, h2)" by (simp add: code_step_def nr rs)
  have "k \<le> 32"
  proof -
    have sc': "A2 + l2 = 2 ^ k * (A + l')" "A2 + h2 + 1 = 2 ^ k * (A + h' + 1)"
      using sc unfolding rescaled_def prod.case by blast+
    have "A + l' + 1 \<le> A + h' + 1" using lh(2) by simp
    then have "2 ^ k * (A + l' + 1) \<le> 2 ^ k * (A + h' + 1)" by (rule mult_le_mono2)
    then have "2 ^ k + (A2 + l2) \<le> A2 + h2 + 1" using sc' by (simp only: distrib_left mult_1_right)
    then have "2 ^ k \<le> h2 - l2 + 1" using n2 by (auto simp add: normal_def straddles_def)
    also have "\<dots> \<le> 2 ^ 32" using normal_range [OF n2] by simp
    finally show ?thesis by (rule power_le_imp_le_exp [rotated]) simp
  qed
  moreover have "inside k (narrow step iv) (code_step step iv)"
    using sc unfolding nr cs rescaled_def inside_def prod.case by simp
  moreover have "inside 0 iv (narrow step iv)"
    using lh unfolding nr unfolding iv inside_def by simp
  ultimately show ?thesis using n2 by (auto simp add: cs iv_normal_def)
qed

text \<open>A sequence of steps.\<close>

definition code_steps :: "(nat \<times> nat \<times> nat) list \<Rightarrow> interval \<Rightarrow> interval" where
  "code_steps = fold code_step"

lemma code_steps_simps [simp]:
  "code_steps [] iv = iv" "code_steps (s # ss) iv = code_steps ss (code_step s iv)"
  by (simp_all add: code_steps_def)

lemma code_steps_spec:
  assumes "list_all valid_step ss" and "iv_normal iv"
  shows "\<exists>k. k \<le> 32 * length ss \<and> inside k iv (code_steps ss iv) \<and> iv_normal (code_steps ss iv)"
  using assms
proof (induction ss arbitrary: iv)
  case Nil
  then show ?case using inside_refl by auto
next
  case (Cons s ss)
  from code_step_spec [OF _ Cons.prems(2), of s] Cons.prems(1) obtain j
    where j: "j \<le> 32" "inside j (narrow s iv) (code_step s iv)" "inside 0 iv (narrow s iv)"
      "iv_normal (code_step s iv)" by auto
  from Cons.IH [OF _ j(4)] Cons.prems(1) obtain k where k: "k \<le> 32 * length ss"
      "inside k (code_step s iv) (code_steps ss (code_step s iv))"
      "iv_normal (code_steps ss (code_step s iv))" by auto
  have "inside (0 + j + k) iv (code_steps ss (code_step s iv))"
    using inside_comp [OF inside_comp [OF j(3,2)] k(2)] .
  then show ?case using j(1) k(1,3) by (intro exI [of _ "j + k"]) simp
qed

section \<open>The coder's words\<close>

text \<open>What the bit operations of the code do on a state of 32 bits.\<close>

lemma bit_of_nat_u64: "i < 64 \<Longrightarrow> bit (of_nat n :: u64) i \<longleftrightarrow> odd (n div 2 ^ i)"
  by (simp add: bit_simps flip: bit_iff_odd)

lemma div_half: "n < full \<Longrightarrow> n div half = (if half \<le> n then 1 else 0)"
  by (auto intro: div_nat_eqI)

lemma bit31: "n < full \<Longrightarrow> bit (of_nat n :: u64) 31 \<longleftrightarrow> half \<le> n"
  by (simp add: bit_of_nat_u64 div_half)

lemma and_half: "(x :: u64) AND 2147483648 = 0 \<longleftrightarrow> \<not> bit x 31"
  using and_exp_eq_0_iff_not_bit [of x 31] by simp

lemma and_quarter: "(x :: u64) AND 1073741824 = 0 \<longleftrightarrow> \<not> bit x 30"
  using and_exp_eq_0_iff_not_bit [of x 30] by simp

lemma same_half_word:
  assumes "l \<le> h" and "h < full"
  shows "(of_nat l XOR of_nat h :: u64) AND 2147483648 = 0 \<longleftrightarrow> h < half \<or> half \<le> l"
  using assms by (auto simp add: and_half bit_xor_iff bit31)

lemma bit30:
  assumes "straddles l h"
  shows "bit (of_nat l :: u64) 30 \<longleftrightarrow> quarter \<le> l" and "bit (of_nat h :: u64) 30 \<longleftrightarrow> half + quarter \<le> h"
proof -
  have "l div quarter = (if quarter \<le> l then 1 else 0)"
    using assms by (auto simp add: straddles_def intro: div_nat_eqI)
  then show "bit (of_nat l :: u64) 30 \<longleftrightarrow> quarter \<le> l" by (simp add: bit_of_nat_u64)
  have "h div quarter = (if half + quarter \<le> h then 3 else 2)"
    using assms by (auto simp add: straddles_def intro: div_nat_eqI)
  then show "bit (of_nat h :: u64) 30 \<longleftrightarrow> half + quarter \<le> h" by (simp add: bit_of_nat_u64)
qed

lemma close_straddle_word:
  assumes "straddles l h"
  shows "of_nat l AND NOT (of_nat h) AND (1073741824 :: u64) = 0 \<longleftrightarrow> \<not> (quarter \<le> l \<and> h < half + quarter)"
proof -
  have "bit (NOT (of_nat h :: u64)) 30 \<longleftrightarrow> \<not> bit (of_nat h :: u64) 30" by (simp add: bit_simps)
  then show ?thesis
    using bit30 [OF assms] by (simp add: and_quarter bit_and_iff not_le flip: and.assoc)
qed

lemma shifted_mask:
  assumes "n < full"
  shows "push_bit 1 (of_nat n) AND 4294967295 = (of_nat (2 * n - n div half * full) :: u64)"
proof -
  have "push_bit 1 (of_nat n) AND 4294967295 = (take_bit 32 (of_nat (2 * n)) :: u64)"
    by (simp add: push_bit_eq_mult take_bit_eq_mask mask_eq_exp_minus_1 mult.commute)
  also have "\<dots> = of_nat (2 * n mod full)" by (subst take_bit_of_nat) (subst take_bit_eq_mod, simp)
  also have "2 * n mod full = 2 * n - n div half * full"
    using assms by (cases "half \<le> n") (simp_all add: div_half le_mod_geq)
  finally show ?thesis .
qed

lemma or_one_of_nat: "even n \<Longrightarrow> (of_nat n :: u64) OR 1 = of_nat (n + 1)"
  by (simp add: or_one_eq)

lemma xor_twice: "(x XOR c) XOR c = (x :: u64)"
  by (rule bit_word_eqI) (auto simp add: bit_xor_iff)

lemma xor_half:
  assumes "half \<le> n" and "n < full"
  shows "of_nat n XOR 2147483648 = (of_nat (n - half) :: u64)"
proof -
  let ?y = "of_nat (n - half) :: u64"
  have "\<not> bit ?y 31" using assms by (subst bit31) auto
  then have "?y AND 2147483648 = 0" using and_half by blast
  then have "?y + 2147483648 = ?y XOR 2147483648" by (rule disjunctive_add_eq_xor)
  moreover have "?y + 2147483648 = of_nat n" using assms by (simp add: of_nat_diff)
  ultimately show ?thesis by (metis xor_twice)
qed

lemma or_half: "n < half \<Longrightarrow> (of_nat n :: u64) OR 2147483648 = of_nat (n + half)"
proof -
  assume n: "n < half"
  then have "\<not> bit (of_nat n :: u64) 31" by (subst bit31) auto
  then have "(of_nat n :: u64) AND 2147483648 = 0" using and_half by blast
  then have "(of_nat n :: u64) + 2147483648 = of_nat n OR 2147483648" by (rule disjunctive_add_eq_or)
  then show ?thesis by simp
qed

lemma push_1: "push_bit 1 (of_nat n) = (of_nat (2 * n) :: u64)"
  by (simp add: push_bit_eq_mult mult.commute)

lemma shifted_low: "n < full \<Longrightarrow> push_bit 1 (of_nat n) AND 4294967295 = (of_nat (2 * n - n div half * full) :: u64)"
  by (rule shifted_mask)

lemma shifted_high:
  assumes "n < full"
  shows "(push_bit 1 (of_nat n) AND 4294967295) OR 1 = (of_nat (2 * n + 1 - n div half * full) :: u64)"
proof -
  have "even (2 * n - n div half * full)" using assms by (simp add: div_half)
  moreover have "2 * n - n div half * full + 1 = 2 * n + 1 - n div half * full"
    using assms by (cases "half \<le> n") (auto simp add: div_half)
  ultimately show ?thesis
    by (simp only: shifted_mask [OF assms] or_one_of_nat)
qed

lemma underflow_low:
  assumes "quarter \<le> l" and "l < half"
  shows "push_bit 1 (of_nat l) XOR 2147483648 = (of_nat (2 * l - half) :: u64)"
  unfolding push_1 using assms by (intro xor_half) auto

lemma underflow_high:
  assumes "half \<le> h" and "h < half + quarter"
  shows "push_bit 1 (of_nat h XOR 2147483648) OR 2147483648 OR 1 = (of_nat (2 * h + 1 - half) :: u64)"
proof -
  have "push_bit 1 (of_nat h XOR 2147483648) = (of_nat (2 * (h - half)) :: u64)"
    using assms by (subst xor_half) (simp_all only: push_1)
  moreover have "2 * (h - half) < half" using assms by auto
  ultimately have "push_bit 1 (of_nat h XOR 2147483648) OR 2147483648 = (of_nat (2 * (h - half) + half) :: u64)"
    by (simp only: or_half)
  moreover have "2 * (h - half) + half + 1 = 2 * h + 1 - half" using assms by auto
  ultimately show ?thesis
    unfolding or.assoc [symmetric] by (metis or_one_of_nat even_add even_mult_iff even_numeral)
qed

lemma top_bit: "n < full \<Longrightarrow> uint (drop_bit 31 (of_nat n :: u64)) = int (n div half)"
proof -
  assume n: "n < full"
  then have "drop_bit 31 (of_nat n :: u64) = of_nat (n div half)"
    using of_nat_div_word [of n half, where 'a = 64] by (simp add: drop_bit_eq_div)
  then show ?thesis using n by (simp add: div_half)
qed

section \<open>The coder implements interval coding\<close>

text \<open>
  A 32-bit coder stands for an interval: the bits written, followed by the pending ones, are
  the digits that \<open>low\<close> and \<open>high\<close> no longer hold.
\<close>

definition codes :: "coder \<Rightarrow> interval \<Rightarrow> bool" where
  "codes c iv \<longleftrightarrow> (case iv of (A, e, l, h) \<Rightarrow>
     ac_numStateBits c = 32 \<and> ac_halfRange c = 2147483648 \<and> ac_quarterRange c = 1073741824 \<and>
     ac_stateMask c = 4294967295 \<and> ac_low c = of_nat l \<and> ac_high c = of_nat h \<and>
     bo_ok (ac_out c) \<and> e = stream_bits (ac_out c) + unat (ac_numUnderflow c) \<and>
     A = stream_val (ac_out c) * 2 ^ unat (ac_numUnderflow c) * full
       + (2 ^ unat (ac_numUnderflow c) - 1) * half)"

definition capacity :: "coder \<Rightarrow> nat" where
  "capacity c = 8 * length (bo_data (ac_out c))"

text \<open>\<open>shift\<close> writes the top bit of \<open>low\<close> and the pending bits.\<close>

lemma ac_shift_codes:
  assumes "codes c (A, e, l, h)" and "l < full" and "e + 1 \<le> capacity c"
  shows "\<exists>out. ac_shift cs c = Inr (c\<lparr> ac_out := out, ac_numUnderflow := 0 \<rparr>) \<and> bo_ok out \<and>
    stream_bits out = e + 1 \<and> stream_val out * full = 2 * A + l div half * full \<and>
    length (bo_data out) = length (bo_data (ac_out c))"
proof -
  define b where "b = l div half"
  define u where "u = unat (ac_numUnderflow c)"
  define v where "v = stream_val (ac_out c)"
  have b: "b = 0 \<or> b = 1" using assms(2) by (simp add: b_def div_half)
  have c: "ac_numStateBits c = 32" "ac_low c = of_nat l" "bo_ok (ac_out c)"
    "e = stream_bits (ac_out c) + u" "A = v * 2 ^ u * full + (2 ^ u - 1) * half"
    using assms(1) by (simp_all add: codes_def u_def v_def)
  have "uint (drop_bit (ac_numStateBits c - 1) (ac_low c)) = int b"
    using top_bit [OF assms(2)] by (simp add: c b_def)
  moreover have "int b = 0 \<or> int b = 1" using b by auto
  moreover have "int b XOR 1 = 1 - int b" using b by auto
  moreover obtain b1 where b1: "bit_write cs (int b) (ac_out c) = Inr b1" "bo_ok b1"
      "stream_bits b1 = stream_bits (ac_out c) + 1" "stream_val b1 = 2 * v + b"
      "length (bo_data b1) = length (bo_data (ac_out c))"
    using bit_write_ok [OF c(3) calculation(2), of cs] assms(3) c(4)
    by (auto simp add: capacity_def v_def)
  moreover obtain b2 where "for_each [0..<u] (\<lambda>_. bit_write cs (1 - int b)) b1 = Inr b2" "bo_ok b2"
      "stream_bits b2 = stream_bits b1 + u"
      "stream_val b2 = stream_val b1 * 2 ^ u + nat (1 - int b) * (2 ^ u - 1)"
      "length (bo_data b2) = length (bo_data b1)"
    using bit_write_repeated [OF b1(2), of "1 - int b" u cs] assms(3) c(4) b b1(3,5)
    by (auto simp add: capacity_def)
  moreover have "((2 * v + b) * 2 ^ u + nat (1 - int b) * (2 ^ u - 1)) * full = 2 * A + b * full"
  proof -
    have "1 \<le> (2 :: nat) ^ u" by simp
    then obtain p where p: "(2 :: nat) ^ u = p + 1" by (metis le_add_diff_inverse2)
    show ?thesis using b unfolding c(5) p by (auto simp add: algebra_simps)
  qed
  ultimately show ?thesis
    using c(4) by (intro exI [of _ b2]) (simp add: ac_shift_def Let_def u_def [symmetric] flip: b_def)
qed

lemma shift_loop_codes:
  assumes "codes c (A, e, l, h)" and "l \<le> h" and "h < full"
    and "fst (snd (shifts A e l h)) \<le> capacity c"
  shows "\<exists>c'. shift_loop cs c = Some (Inr c') \<and> codes c' (shifts A e l h) \<and> capacity c' = capacity c"
  using assms
proof (induction A e l h arbitrary: c rule: shifts.induct)
  case (1 A e l h)
  have w: "ac_low c = of_nat l" "ac_high c = of_nat h" "ac_halfRange c = 2147483648"
    "ac_stateMask c = 4294967295" using "1.prems"(1) by (simp_all add: codes_def)
  have cond: "(ac_low c XOR ac_high c) AND ac_halfRange c = 0 \<longleftrightarrow> h < half \<or> half \<le> l"
    unfolding w by (rule same_half_word [OF "1.prems"(2,3)])
  show ?case
  proof (cases "h < half \<or> half \<le> l")
    case True
    note d = shift_doubles [OF "1.prems"(2,3) True]
    let ?d = "l div half * full"
    have sh: "shifts A e l h = shifts (2 * A + ?d) (e + 1) (2 * l - ?d) (2 * h + 1 - ?d)"
      using True "1.prems" by (subst shifts.simps) (simp add: Let_def)
    from shifts_spec [OF d(3,4), of "2 * A + ?d" "e + 1"]
    have "e + 1 \<le> fst (snd (shifts A e l h))" by (auto simp add: sh rescaled_def)
    with "1.prems"(4) have "e + 1 \<le> capacity c" by simp
    moreover have "l < full" using "1.prems" by simp
    ultimately obtain out where out: "ac_shift cs c = Inr (c\<lparr> ac_out := out, ac_numUnderflow := 0 \<rparr>)"
        "bo_ok out" "stream_bits out = e + 1" "stream_val out * full = 2 * A + ?d"
        "length (bo_data out) = length (bo_data (ac_out c))"
      using ac_shift_codes [OF "1.prems"(1)] by blast
    define c1 where "c1 = c\<lparr> ac_out := out, ac_numUnderflow := 0,
      ac_low := push_bit 1 (ac_low c) AND ac_stateMask c,
      ac_high := (push_bit 1 (ac_high c) AND ac_stateMask c) OR 1 \<rparr>"
    have "l div half = h div half"
      using True "1.prems" by (auto simp add: div_half)
    then have "codes c1 (2 * A + ?d, e + 1, 2 * l - ?d, 2 * h + 1 - ?d)"
      using "1.prems"(1) out w shifted_low [of l] shifted_high [OF "1.prems"(3)] \<open>l < full\<close>
      by (simp add: codes_def c1_def)
    moreover have "capacity c1 = capacity c" using out by (simp add: c1_def capacity_def)
    moreover have "shift_loop cs c = shift_loop cs c1"
      using cond True out by (subst shift_loop.simps) (simp add: c1_def)
    ultimately show ?thesis
      using "1.IH" [OF _ refl, of c1] True "1.prems" d sh by auto
  next
    case False
    then have "shifts A e l h = (A, e, l, h)" by (subst shifts.simps) simp
    moreover have "shift_loop cs c = Some (Inr c)"
      using cond False by (subst shift_loop.simps) simp
    ultimately show ?thesis using "1.prems"(1) by simp
  qed
qed

lemma underflow_loop_codes:
  assumes "codes c (A, e, l, h)" and "straddles l h"
    and "fst (snd (underflows A e l h)) < 2 ^ 64"
  shows "\<exists>c'. underflow_loop c = Some c' \<and> codes c' (underflows A e l h) \<and> capacity c' = capacity c"
  using assms
proof (induction A e l h arbitrary: c rule: underflows.induct)
  case (1 A e l h)
  have w: "ac_low c = of_nat l" "ac_high c = of_nat h" "ac_halfRange c = 2147483648"
    "ac_quarterRange c = 1073741824" using "1.prems"(1) by (simp_all add: codes_def)
  have cond: "ac_low c AND NOT (ac_high c) AND ac_quarterRange c = 0 \<longleftrightarrow>
      \<not> (quarter \<le> l \<and> h < half + quarter)"
    unfolding w by (rule close_straddle_word [OF "1.prems"(2)])
  show ?case
  proof (cases "quarter \<le> l \<and> h < half + quarter")
    case True
    then have g: "quarter \<le> l \<and> l < half \<and> half \<le> h \<and> h < half + quarter"
      using "1.prems"(2) by (simp add: straddles_def)
    have uf: "underflows A e l h = underflows (2 * A + half) (e + 1) (2 * l - half) (2 * h + 1 - half)"
      by (subst underflows.simps) (simp only: g simp_thms if_True)
    have st: "straddles (2 * l - half) (2 * h + 1 - half)" using g by (auto simp add: straddles_def)
    from underflows_spec [OF st, of "2 * A + half" "e + 1"] "1.prems"(3)
    have "e + 1 < 2 ^ 64" by (auto simp add: uf rescaled_def)
    then have "unat (ac_numUnderflow c) + 1 < 2 ^ 64"
      using "1.prems"(1) by (simp add: codes_def)
    then have u: "unat (ac_numUnderflow c + 1) = Suc (unat (ac_numUnderflow c))"
      by (subst unat_add_lem [THEN iffD1]) simp_all
    define c1 where "c1 = (ac_underflow c)\<lparr>
      ac_low := push_bit 1 (ac_low c) XOR ac_halfRange c,
      ac_high := push_bit 1 (ac_high c XOR ac_halfRange c) OR ac_halfRange c OR 1 \<rparr>"
    have "codes c1 (2 * A + half, e + 1, 2 * l - half, 2 * h + 1 - half)"
    proof -
      have "1 \<le> (2 :: nat) ^ unat (ac_numUnderflow c)" by simp
      then obtain p where p: "(2 :: nat) ^ unat (ac_numUnderflow c) = p + 1"
        by (metis le_add_diff_inverse2)
      show ?thesis
        using "1.prems"(1) g underflow_low [of l] underflow_high [of h] u p
        by (simp add: codes_def c1_def ac_underflow_def w algebra_simps)
    qed
    moreover have "capacity c1 = capacity c" by (simp add: c1_def capacity_def ac_underflow_def)
    moreover have "underflow_loop c = underflow_loop c1"
      using cond True by (subst underflow_loop.simps) (simp add: c1_def)
    ultimately show ?thesis
      using "1.IH" [OF g, of c1] "1.prems"(3) st uf by auto
  next
    case False
    then have "underflows A e l h = (A, e, l, h)" by (subst underflows.simps) auto
    moreover have "underflow_loop c = Some c"
      using cond False by (subst underflow_loop.simps) simp
    ultimately show ?thesis using "1.prems"(1) by simp
  qed
qed

definition step_of :: "u32 \<Rightarrow> u32 \<Rightarrow> u32 \<Rightarrow> nat \<times> nat \<times> nat" where
  "step_of tot symLow symHigh = (unat tot, unat symLow, unat symHigh)"

lemma ucast_u32_u64: "(ucast (x :: u32) :: u64) = of_nat (unat x)"
  by (simp add: of_nat_unat)

lemma scaled_bound:
  assumes "a \<le> quarter" and "r \<le> full" and "0 < t" and "t \<le> quarter"
  shows "(of_nat a * of_nat r :: u64) div of_nat t = of_nat (a * r div t)"
proof -
  have "a * r \<le> quarter * full" using assms by (intro mult_mono) simp_all
  then show ?thesis
    using assms of_nat_div_word [of "a * r" t, where 'a = 64] by simp
qed

text \<open>
  One call of \<open>write\<close> is one step of interval coding, as long as the digits fit in the block.
\<close>

lemma ac_write_codes:
  assumes "codes c iv" and "iv_normal iv" and "valid_step (step_of tot a b)"
    and "fst (snd (code_step (step_of tot a b) iv)) \<le> capacity c" and "capacity c < 2 ^ 64"
  shows "\<exists>c'. ac_write cs tot a b c = Some (Inr c') \<and> codes c' (code_step (step_of tot a b) iv) \<and>
    capacity c' = capacity c"
proof -
  obtain A e l h where iv: "iv = (A, e, l, h)" by (metis prod_cases4)
  have n: "normal l h" using assms(2) by (simp add: iv iv_normal_def)
  let ?t = "unat tot" and ?a = "unat a" and ?b = "unat b"
  define r where "r = h - l + 1"
  have v: "?a < ?b" "?b \<le> ?t" "?t \<le> quarter"
    using assms(3) by (simp_all add: step_of_def valid_step_def)
  have lh: "l \<le> h" "h < full" using n by (simp_all add: normal_def straddles_def)
  then have r: "r \<le> full" "(of_nat h - of_nat l + 1 :: u64) = of_nat r"
    by (simp_all add: r_def of_nat_diff)
  obtain l' h' where nr: "narrow (step_of tot a b) iv = (A, e, l', h')" and lh': "l' \<le> h'" "h' \<le> h"
    using narrow_spec [OF assms(3) [unfolded step_of_def] n] unfolding step_of_def iv by blast
  have l': "l' = l + ?a * r div ?t" and h': "h' = l + ?b * r div ?t - 1"
    using nr by (simp_all add: narrow_def iv step_of_def r_def)
  have w: "ac_low c = of_nat l" "ac_high c = of_nat h"
    using assms(1) by (simp_all add: codes_def iv)
  have sa: "(of_nat ?a * of_nat r :: u64) div of_nat ?t = of_nat (?a * r div ?t)"
    and sb: "(of_nat ?b * of_nat r :: u64) div of_nat ?t = of_nat (?b * r div ?t)"
    using v r(1) by (intro scaled_bound; simp)+
  have low: "ac_low c + ucast a * (ac_high c - ac_low c + 1) div ucast tot = of_nat l'"
    unfolding w r(2) ucast_u32_u64 sa l' by simp
  have "1 \<le> l + ?b * r div ?t"
  proof -
    have "?t \<le> ?b * r"
    proof -
      have "1 * quarter \<le> ?b * r"
        using v(1) normal_range [OF n] by (intro mult_mono) (simp_all add: r_def)
      then show ?thesis using v(3) by simp
    qed
    then have "1 \<le> ?b * r div ?t" using v by (simp add: div_greater_zero_iff Suc_le_eq)
    then show ?thesis by simp
  qed
  then have high: "ac_low c + ucast b * (ac_high c - ac_low c + 1) div ucast tot - 1 = of_nat h'"
    unfolding w r(2) ucast_u32_u64 sb h' by (simp add: of_nat_diff)
  define c1 where "c1 = c\<lparr> ac_low := of_nat l', ac_high := of_nat h' \<rparr>"
  have c1: "codes c1 (A, e, l', h')" "capacity c1 = capacity c"
    using assms(1) by (simp_all add: codes_def iv c1_def capacity_def)
  obtain A1 e1 l1 h1 where sh: "shifts A e l' h' = (A1, e1, l1, h1)" and st: "straddles l1 h1"
    using shifts_spec [OF lh'(1)] lh' lh by (metis le_less_trans)
  obtain k A2 e2 l2 h2 where uf: "underflows A1 e1 l1 h1 = (A2, e2, l2, h2)"
    and sc: "rescaled k (A1, e1, l1, h1) (A2, e2, l2, h2)"
    using underflows_spec [OF st] by blast
  have cd: "code_step (step_of tot a b) iv = (A2, e2, l2, h2)"
    by (simp add: code_step_def nr rescale_def sh uf)
  have e: "e1 \<le> e2" "e2 \<le> capacity c" using sc assms(4) by (simp_all add: rescaled_def cd)
  obtain c2 where c2: "shift_loop cs c1 = Some (Inr c2)" "codes c2 (A1, e1, l1, h1)"
      "capacity c2 = capacity c"
    using shift_loop_codes [OF c1(1) lh'(1), of cs] lh lh' e c1(2) by (auto simp add: sh)
  obtain c3 where "underflow_loop c2 = Some c3" "codes c3 (A2, e2, l2, h2)" "capacity c3 = capacity c"
    using underflow_loop_codes [OF c2(2) st] e assms(5) c2(3) by (auto simp add: uf)
  moreover have "tot \<noteq> 0" using v by auto
  ultimately show ?thesis
    using c2(1) unfolding ac_write_def ac_update_def Let_def low high cd
    by (simp add: c1_def)
qed

lemma ArithmeticEncoder_codes:
  "\<exists>c. ArithmeticEncoder 32 (BitOutputStream addr) = Inr c \<and> codes c start_interval \<and>
    capacity c = 8 * length addr"
  by (simp add: ArithmeticEncoder_def BitOutputStream_def codes_def start_interval_def bo_ok_def
      stream_bits_def stream_val_def capacity_def Let_def drop_bit_eq_div push_bit_eq_mult)

section \<open>The end of the stream\<close>

lemma bit_finish_ok:
  assumes "bo_ok bo" and "stream_bits bo \<le> 8 * length (bo_data bo)"
  shows "\<exists>bo' j. bit_finish cs bo = Some (Inr bo') \<and> bo_filled bo' = 0 \<and> bo_ok bo' \<and>
    stream_bits bo' = stream_bits bo + j \<and> stream_val bo' = stream_val bo * 2 ^ j \<and>
    length (bo_data bo') = length (bo_data bo) \<and> bo_size bo' \<le> length (bo_data bo') \<and>
    (bo_filled bo = 0 \<longrightarrow> j = 0) \<and> bo_filled bo + j \<le> 8"
  using assms
proof (induction "8 - bo_filled bo" arbitrary: bo rule: less_induct)
  case less
  show ?case
  proof (cases "bo_filled bo = 0")
    case True
    then have "bit_finish cs bo = Some (Inr bo)" by (subst bit_finish.simps) simp
    then show ?thesis
      using True less.prems by (intro exI [of _ bo] exI [of _ 0]) (simp add: stream_bits_def)
  next
    case False
    then have pos: "bo_filled bo \<noteq> 0" "bo_filled bo < 8"
      using less.prems(1) by (simp_all add: bo_ok_def)
    from False have room: "stream_bits bo < 8 * length (bo_data bo)"
      using less.prems by (cases "bo_size bo < length (bo_data bo)") (auto simp add: stream_bits_def bo_ok_def)
    then obtain b1 where b1: "bit_write cs 0 bo = Inr b1" "bo_ok b1"
        "stream_bits b1 = stream_bits bo + 1" "stream_val b1 = 2 * stream_val bo"
        "length (bo_data b1) = length (bo_data bo)"
      using bit_write_ok [OF less.prems(1), of 0 cs] by auto
    have step: "bit_finish cs bo = bit_finish cs b1"
      using False b1(1) by (subst bit_finish.simps) simp
    show ?thesis
    proof (cases "bo_filled b1 = 0")
      case True
      then have "bit_finish cs b1 = Some (Inr b1)" by (subst bit_finish.simps) simp
      moreover have "bo_size b1 \<le> length (bo_data b1)"
        using True b1(3,5) room by (simp add: stream_bits_def)
      ultimately show ?thesis
        using True b1 step pos by (intro exI [of _ b1] exI [of _ 1]) simp
    next
      case f: False
      have "8 * bo_size b1 + bo_filled b1 = 8 * bo_size bo + bo_filled bo + 1"
        using b1(3) by (simp add: stream_bits_def)
      then have next_bit: "bo_filled b1 = bo_filled bo + 1"
        using f b1(2) less.prems(1)
        by (cases "bo_size b1" "bo_size bo" rule: linorder_cases) (auto simp add: bo_ok_def)
      then have "8 - bo_filled b1 < 8 - bo_filled bo" using pos by simp
      moreover have "stream_bits b1 \<le> 8 * length (bo_data b1)"
        using b1(3,5) room by simp
      ultimately obtain bo' j where "bit_finish cs b1 = Some (Inr bo')" "bo_filled bo' = 0"
          "bo_ok bo'" "stream_bits bo' = stream_bits b1 + j"
          "stream_val bo' = stream_val b1 * 2 ^ j" "length (bo_data bo') = length (bo_data b1)"
          "bo_size bo' \<le> length (bo_data bo')" "bo_filled b1 + j \<le> 8"
        using less.hyps b1(2) by blast
      then show ?thesis
        using b1 step next_bit pos by (intro exI [of _ bo'] exI [of _ "Suc j"]) simp
    qed
  qed
qed

text \<open>Finishing names the middle of the final interval.\<close>

lemma finish_names_middle:
  assumes "codes c (A, e, l, h)" and "e + 1 \<le> capacity c"
  shows "\<exists>c' bo. ac_finish cs c = Inr c' \<and> bit_finish cs (ac_out c') = Some (Inr bo) \<and>
    bo_size bo \<le> length (bo_data bo) \<and> length (bo_data bo) = length (bo_data (ac_out c)) \<and>
    8 * bo_size bo \<le> e + 8 \<and>
    bytes_val (take (bo_size bo) (bo_data bo)) * 2 ^ (32 + e) = (A + half) * 2 ^ (8 * bo_size bo)"
proof -
  define u where "u = unat (ac_numUnderflow c)"
  define v where "v = stream_val (ac_out c)"
  have c: "bo_ok (ac_out c)" "e = stream_bits (ac_out c) + u" "A = v * 2 ^ u * full + (2 ^ u - 1) * half"
    using assms(1) by (simp_all add: codes_def u_def v_def)
  obtain b1 where b1: "bit_write cs 1 (ac_out c) = Inr b1" "bo_ok b1"
      "stream_bits b1 = stream_bits (ac_out c) + 1" "stream_val b1 = 2 * v + 1"
      "length (bo_data b1) = length (bo_data (ac_out c))"
    using bit_write_ok [OF c(1), of 1 cs] assms(2) c(2) by (auto simp add: capacity_def v_def)
  then obtain bo j where bo: "bit_finish cs b1 = Some (Inr bo)" "bo_filled bo = 0" "bo_ok bo"
      "stream_bits bo = stream_bits b1 + j" "stream_val bo = stream_val b1 * 2 ^ j"
      "length (bo_data bo) = length (bo_data b1)" "bo_size bo \<le> length (bo_data bo)"
      "bo_filled b1 = 0 \<longrightarrow> j = 0" "bo_filled b1 + j \<le> 8"
    using bit_finish_ok [OF b1(2), of cs] assms(2) c(2) by (auto simp add: capacity_def)
  have "bo_current bo = 0" using bo(2,3) by (simp add: bo_ok_def)
  then have val: "bytes_val (take (bo_size bo) (bo_data bo)) = (2 * v + 1) * 2 ^ j"
    using bo(2,5) b1(4) by (simp add: stream_val_def)
  have len: "8 * bo_size bo = stream_bits (ac_out c) + 1 + j"
    using bo(2,4) b1(3) by (simp add: stream_bits_def)
  have "A + half = (2 * v + 1) * 2 ^ (u + 31)"
  proof -
    have "1 \<le> (2 :: nat) ^ u" by simp
    then obtain p where "(2 :: nat) ^ u = p + 1" by (metis le_add_diff_inverse2)
    then show ?thesis unfolding c(3) by (simp add: power_add algebra_simps)
  qed
  then have "bytes_val (take (bo_size bo) (bo_data bo)) * 2 ^ (32 + e) = (A + half) * 2 ^ (8 * bo_size bo)"
  proof -
    define w where "w = 2 * v + 1"
    define s where "s = stream_bits (ac_out c)"
    have "j + (32 + (s + u)) = (u + 31) + (s + 1 + j)" by simp
    then have "w * 2 ^ j * 2 ^ (32 + (s + u)) = w * 2 ^ (u + 31) * 2 ^ (s + 1 + j)"
      unfolding mult.assoc power_add [symmetric] by (rule arg_cong)
    then show ?thesis
      unfolding val len \<open>A + half = _\<close> unfolding c(2) w_def [symmetric] s_def [symmetric] .
  qed
  moreover have "8 * bo_size bo \<le> e + 8"
    using len c(2) bo(8,9) by (cases "bo_filled b1 = 0") simp_all
  ultimately show ?thesis
    using b1 bo by (simp add: ac_finish_def)
qed

section \<open>A reference decoder\<close>

text \<open>
  The number a finished stream names lies in an interval. What is inside another interval is
  named with it.
\<close>

definition names :: "bytes \<Rightarrow> interval \<Rightarrow> bool" where
  "names bs iv = (case iv of (A, e, l, h) \<Rightarrow>
     (A + l) * 2 ^ (8 * length bs) \<le> bytes_val bs * 2 ^ (32 + e) \<and>
     bytes_val bs * 2 ^ (32 + e) < (A + h + 1) * 2 ^ (8 * length bs))"

lemma names_inside:
  assumes "inside k iv iv'" and "names bs iv'"
  shows "names bs iv"
proof -
  obtain A e l h A' e' l' h' where iv: "iv = (A, e, l, h)" "iv' = (A', e', l', h')"
    by (metis prod_cases4)
  define s where "s = (2 :: nat) ^ (8 * length bs)"
  define v where "v = bytes_val bs * 2 ^ (32 + e)"
  define p where "p = (2 :: nat) ^ k"
  have i: "e' = e + k" "p * (A + l) \<le> A' + l'" "A' + h' + 1 \<le> p * (A + h + 1)"
    using assms(1) unfolding inside_def iv prod.case p_def by blast+
  have p: "0 < p" by (simp add: p_def)
  have v': "bytes_val bs * 2 ^ (32 + e') = p * v"
    unfolding i(1) v_def p_def by (simp only: power_add mult_ac)
  then have "(A' + l') * s \<le> p * v" "p * v < (A' + h' + 1) * s"
    using assms(2) unfolding names_def iv prod.case s_def by simp_all
  moreover have "p * (A + l) * s \<le> (A' + l') * s" "(A' + h' + 1) * s \<le> p * (A + h + 1) * s"
    using i(2,3) by (simp_all only: mult_le_mono1)
  ultimately have "p * ((A + l) * s) \<le> p * v" "p * v < p * ((A + h + 1) * s)"
    unfolding mult.assoc [symmetric] by (meson order.trans less_le_trans)+
  then have "(A + l) * s \<le> v" "v < (A + h + 1) * s"
    using p by (simp_all only: mult_le_cancel1 nat_mult_less_cancel_disj simp_thms)
  then show ?thesis unfolding names_def iv prod.case s_def v_def by simp
qed

text \<open>
  The decoder reads the 32 digits of the interval, the digits before them being those of
  \<open>A\<close>, and finds the value they have on the scale of the total.
\<close>

definition digits :: "bytes \<Rightarrow> nat \<Rightarrow> nat" where
  "digits bs k = bytes_val bs * 2 ^ k div 2 ^ (8 * length bs)"

definition code_value :: "bytes \<Rightarrow> nat \<Rightarrow> interval \<Rightarrow> nat" where
  "code_value bs t iv = (case iv of (A, e, l, h) \<Rightarrow>
     ((digits bs (32 + e) - (A + l) + 1) * t - 1) div (h - l + 1))"

lemma names_digits:
  "names bs (A, e, l, h) \<longleftrightarrow> A + l \<le> digits bs (32 + e) \<and> digits bs (32 + e) \<le> A + h"
proof -
  define s where "s = (2 :: nat) ^ (8 * length bs)"
  have s: "0 < s" by (simp add: s_def)
  have "x * s \<le> y \<longleftrightarrow> x \<le> y div s" for x y using s by (simp add: less_eq_div_iff_mult_less_eq)
  moreover have "y < (x + 1) * s \<longleftrightarrow> y div s \<le> x" for x y
    using s by (simp add: div_less_iff_less_mult flip: less_Suc_eq_le)
  ultimately show ?thesis
    unfolding names_def prod.case digits_def s_def [symmetric] by simp
qed

lemma offset_value:
  assumes "0 < (t :: nat)" and "0 < r" and "a * r div t \<le> x" and "x < b * r div t"
  shows "a \<le> ((x + 1) * t - 1) div r" and "((x + 1) * t - 1) div r < b"
proof -
  have "a * r < (x + 1) * t"
    using assms(1,3) by (metis div_less_iff_less_mult le_imp_less_Suc Suc_eq_plus1)
  then show "a \<le> ((x + 1) * t - 1) div r"
    using assms(2) by (simp add: less_eq_div_iff_mult_less_eq)
  have "(x + 1) * t \<le> b * r"
    using assms(1,4) by (simp only: Suc_eq_plus1 [symmetric] Suc_le_eq flip: less_eq_div_iff_mult_less_eq)
  moreover have "0 < (x + 1) * t" using assms(1) by simp
  ultimately show "((x + 1) * t - 1) div r < b"
    using assms(2) unfolding div_less_iff_less_mult [OF assms(2)] by linarith
qed

lemma code_value_in_symbol:
  assumes "valid_step (t, a, b)" and "iv_normal iv" and "names bs (narrow (t, a, b) iv)"
  shows "a \<le> code_value bs t iv" and "code_value bs t iv < b"
proof -
  obtain A e l h where iv: "iv = (A, e, l, h)" by (metis prod_cases4)
  define r where "r = h - l + 1"
  define d where "d = digits bs (32 + e)"
  have n: "normal l h" using assms(2) by (simp add: iv iv_normal_def)
  have "names bs (A, e, l + a * r div t, l + b * r div t - 1)"
    using assms(3) unfolding iv narrow_def prod.case r_def [symmetric] .
  then have "A + (l + a * r div t) \<le> d" "d \<le> A + (l + b * r div t - 1)"
    unfolding names_digits d_def by blast+
  then have x: "a * r div t \<le> d - (A + l)" "d - (A + l) < b * r div t"
    using narrow_room(1) [OF assms(1) n] unfolding r_def [symmetric] by linarith+
  have "0 < t" "0 < r" using assms(1) by (auto simp add: valid_step_def r_def)
  from offset_value [OF this x] show "a \<le> code_value bs t iv" "code_value bs t iv < b"
    unfolding code_value_def iv prod.case d_def [symmetric] r_def [symmetric] .
qed

text \<open>
  The statistics of a symbol: the total, the bounds of every symbol's part of it, and the
  smallest and the largest symbol. Parts of different symbols do not overlap.
\<close>

type_synonym symbol_model = "nat \<times> (int \<Rightarrow> nat) \<times> (int \<Rightarrow> nat) \<times> int \<times> int"

definition valid_model :: "symbol_model \<Rightarrow> bool" where
  "valid_model m = (case m of (t, low, high, lo, hi) \<Rightarrow>
     (\<forall>x \<in> {lo..hi}. valid_step (t, low x, high x)) \<and>
     (\<forall>x \<in> {lo..hi}. \<forall>y \<in> {lo..hi}. x < y \<longrightarrow> high x \<le> low y))"

definition model_step :: "symbol_model \<Rightarrow> int \<Rightarrow> nat \<times> nat \<times> nat" where
  "model_step m x = (case m of (t, low, high, lo, hi) \<Rightarrow> (t, low x, high x))"

definition in_model :: "symbol_model \<Rightarrow> int \<Rightarrow> bool" where
  "in_model m x \<longleftrightarrow> (case m of (t, low, high, lo, hi) \<Rightarrow> lo \<le> x \<and> x \<le> hi)"

definition find_symbol :: "symbol_model \<Rightarrow> nat \<Rightarrow> int option" where
  "find_symbol m v = (case m of (t, low, high, lo, hi) \<Rightarrow>
     List.find (\<lambda>x. low x \<le> v \<and> v < high x) [lo..hi])"

fun decode :: "bytes \<Rightarrow> interval \<Rightarrow> symbol_model list \<Rightarrow> int list option" where
  "decode bs iv [] = Some []"
| "decode bs iv (m # ms) = (case find_symbol m (code_value bs (fst m) iv) of
      None \<Rightarrow> None
    | Some x \<Rightarrow> map_option ((#) x) (decode bs (code_step (model_step m x) iv) ms))"

lemma find_unique:
  assumes "x \<in> set xs" and "P x" and "\<And>y. y \<in> set xs \<Longrightarrow> P y \<Longrightarrow> y = x"
  shows "List.find P xs = Some x"
proof -
  obtain y where y: "List.find P xs = Some y"
    using assms(1,2) by (cases "List.find P xs") (auto simp add: find_None_iff)
  then have "y \<in> set xs" "P y" by (auto simp add: find_Some_iff)
  with assms(3) y show ?thesis by blast
qed

lemma find_symbol_part:
  assumes "valid_model m" and "in_model m x" and "model_step m x = (t, a, b)" and "a \<le> v" and "v < b"
  shows "find_symbol m v = Some x"
proof -
  obtain t' low high lo hi where m: "m = (t', low, high, lo, hi)" by (metis prod_cases5)
  have x: "lo \<le> x" "x \<le> hi" "low x \<le> v" "v < high x"
    using assms(2-5) by (auto simp add: m in_model_def model_step_def)
  have d: "high y \<le> low z" if "y \<in> {lo..hi}" "z \<in> {lo..hi}" "y < z" for y z
    using assms(1) that unfolding m valid_model_def prod.case by blast
  have u: "y = x" if "y \<in> set [lo..hi]" "low y \<le> v \<and> v < high y" for y
  proof (rule ccontr)
    assume "y \<noteq> x"
    then consider "x < y" | "y < x" by linarith
    moreover have "x \<in> {lo..hi}" "y \<in> {lo..hi}" using that(1) x(1,2) by simp_all
    ultimately have "high x \<le> low y \<or> high y \<le> low x" using d by metis
    then show False using that(2) x(3,4) by linarith
  qed
  show ?thesis
    unfolding find_symbol_def m prod.case using x by (intro find_unique u) simp_all
qed

lemma model_step_valid: "valid_model m \<Longrightarrow> in_model m x \<Longrightarrow> valid_step (model_step m x)"
  by (auto simp add: valid_model_def in_model_def model_step_def split: prod.splits)

lemma fst_model_step [simp]: "fst (model_step m x) = fst m"
  by (simp add: model_step_def split: prod.split)

text \<open>Whoever names a number of the interval that a sequence of symbols leaves is decoded to it.\<close>

theorem decode_coded:
  assumes "list_all2 in_model ms xs" and "list_all valid_model ms" and "iv_normal iv"
    and "names bs (code_steps (map2 model_step ms xs) iv)"
  shows "decode bs iv ms = Some xs"
  using assms
proof (induction ms xs arbitrary: iv rule: list_all2_induct)
  case (Cons m ms x xs)
  let ?s = "model_step m x"
  have v: "valid_step ?s" using Cons.prems Cons.hyps(1) by (intro model_step_valid) auto
  obtain k where k: "inside k (narrow ?s iv) (code_step ?s iv)" "iv_normal (code_step ?s iv)"
    using code_step_spec [OF v Cons.prems(2)] by blast
  have steps: "list_all valid_step (map2 model_step ms xs)"
    using Cons.hyps(2) Cons.prems(1) by (induction ms xs rule: list_all2_induct)
      (auto intro: model_step_valid)
  have nm: "names bs (code_steps (map2 model_step ms xs) (code_step ?s iv))"
    using Cons.prems(3) by simp
  then have "names bs (code_step ?s iv)"
    using code_steps_spec [OF steps k(2)] names_inside by blast
  then have "names bs (narrow ?s iv)" by (rule names_inside [OF k(1)])
  moreover obtain t a b where s: "?s = (t, a, b)" by (metis prod_cases3)
  moreover from s have "fst m = t" by (metis fst_conv fst_model_step)
  ultimately have "find_symbol m (code_value bs (fst m) iv) = Some x"
    using code_value_in_symbol [OF v [unfolded s] Cons.prems(2)] Cons.prems(1) Cons.hyps(1) s
    by (intro find_symbol_part) auto
  moreover have "decode bs (code_step ?s iv) ms = Some xs"
    using Cons.IH [OF _ k(2) nm] Cons.prems(1) by simp
  ultimately show ?case by simp
qed simp

section \<open>Encoding a sequence\<close>

lemma finish_names:
  assumes "codes c iv" and "iv_normal iv" and "fst (snd iv) + 1 \<le> capacity c"
  shows "\<exists>c' bo. ac_finish cs c = Inr c' \<and> bit_finish cs (ac_out c') = Some (Inr bo) \<and>
    bo_size bo \<le> length (bo_data bo) \<and> length (bo_data bo) = length (bo_data (ac_out c)) \<and>
    8 * bo_size bo \<le> fst (snd iv) + 8 \<and> names (take (bo_size bo) (bo_data bo)) iv"
proof -
  obtain A e l h where iv: "iv = (A, e, l, h)" by (metis prod_cases4)
  obtain c' bo where f: "ac_finish cs c = Inr c'" "bit_finish cs (ac_out c') = Some (Inr bo)"
      "bo_size bo \<le> length (bo_data bo)" "length (bo_data bo) = length (bo_data (ac_out c))"
      "bytes_val (take (bo_size bo) (bo_data bo)) * 2 ^ (32 + e) = (A + half) * 2 ^ (8 * bo_size bo)"
      "8 * bo_size bo \<le> fst (snd iv) + 8"
    using finish_names_middle [OF assms(1) [unfolded iv], of cs] assms(3) unfolding iv by auto
  have "l < half" "half \<le> h"
    using assms(2) by (simp_all add: iv iv_normal_def normal_def straddles_def)
  then have "A + l \<le> A + half" "A + half < A + h + 1" by simp_all
  then have "names (take (bo_size bo) (bo_data bo)) iv"
    unfolding names_def iv prod.case length_take min_absorb2 [OF f(3)] f(5)
    by (intro conjI mult_le_mono1 mult_less_mono1) simp_all
  with f(1-4,6) show ?thesis by blast
qed

text \<open>Encoding is the calls of \<open>write\<close> for the steps of the symbols, one after the other.\<close>

primrec write_all :: "bool \<Rightarrow> (u32 \<times> u32 \<times> u32) list \<Rightarrow> coder \<Rightarrow> coder res option" where
  "write_all cs [] c = Some (Inr c)"
| "write_all cs (s # ss) c = (case ac_write cs (fst s) (fst (snd s)) (snd (snd s)) c of
      None \<Rightarrow> None
    | Some (Inl f) \<Rightarrow> Some (Inl f)
    | Some (Inr c) \<Rightarrow> write_all cs ss c)"

definition steps_of :: "(u32 \<times> u32 \<times> u32) list \<Rightarrow> (nat \<times> nat \<times> nat) list" where
  "steps_of = map (\<lambda>(t, a, b). step_of t a b)"

lemma code_step_digits:
  assumes "valid_step s" and "iv_normal iv"
  shows "fst (snd (code_step s iv)) \<le> fst (snd iv) + 32"
proof -
  obtain k where k: "k \<le> 32" "inside k (narrow s iv) (code_step s iv)" "inside 0 iv (narrow s iv)"
    using code_step_spec [OF assms] by blast
  then have "inside k iv (code_step s iv)" using inside_comp by fastforce
  then show ?thesis using k(1) by (auto simp add: inside_def split: prod.splits)
qed

lemma write_all_codes:
  assumes "codes c iv" and "iv_normal iv" and "list_all valid_step (steps_of ss)"
    and "fst (snd iv) + 32 * length ss \<le> capacity c" and "capacity c < 2 ^ 64"
  shows "\<exists>c'. write_all cs ss c = Some (Inr c') \<and> codes c' (code_steps (steps_of ss) iv) \<and>
    capacity c' = capacity c \<and> iv_normal (code_steps (steps_of ss) iv) \<and>
    fst (snd (code_steps (steps_of ss) iv)) \<le> fst (snd iv) + 32 * length ss"
  using assms
proof (induction ss arbitrary: c iv)
  case Nil
  then show ?case by (simp add: steps_of_def)
next
  case (Cons s ss)
  obtain t a b where s: "s = (t, a, b)" by (metis prod_cases3)
  let ?iv = "code_step (step_of t a b) iv"
  have v: "valid_step (step_of t a b)" using Cons.prems(3) by (simp add: steps_of_def s)
  have e: "fst (snd ?iv) \<le> fst (snd iv) + 32" by (rule code_step_digits [OF v Cons.prems(2)])
  have n: "iv_normal ?iv" using code_step_spec [OF v Cons.prems(2)] by blast
  from e Cons.prems(4) have "fst (snd ?iv) \<le> capacity c" by simp
  then obtain c1 where c1: "ac_write cs t a b c = Some (Inr c1)" "codes c1 ?iv"
      "capacity c1 = capacity c"
    using ac_write_codes [OF Cons.prems(1,2) v _ Cons.prems(5), of cs] by blast
  have "list_all valid_step (steps_of ss)" using Cons.prems(3) by (simp add: steps_of_def)
  moreover have "fst (snd ?iv) + 32 * length ss \<le> capacity c1"
    using e Cons.prems(4) by (simp add: c1(3))
  ultimately obtain c' where "write_all cs ss c1 = Some (Inr c')"
      "codes c' (code_steps (steps_of ss) ?iv)" "capacity c' = capacity c1"
      "iv_normal (code_steps (steps_of ss) ?iv)"
      "fst (snd (code_steps (steps_of ss) ?iv)) \<le> fst (snd ?iv) + 32 * length ss"
    using Cons.IH [OF c1(2) n] Cons.prems(5) c1(3) by auto
  then show ?case using c1 e by (intro exI [of _ c']) (simp add: s steps_of_def)
qed

text \<open>
  The whole run of the encoder on an empty block: constructing it, writing the steps, ending
  the coder and the stream.
\<close>

definition encode :: "bool \<Rightarrow> (u32 \<times> u32 \<times> u32) list \<Rightarrow> bytes \<Rightarrow> bytes res option" where
  "encode cs ss block = (case ArithmeticEncoder 32 (BitOutputStream block) of
      Inl f \<Rightarrow> Some (Inl f)
    | Inr c \<Rightarrow> (case write_all cs ss c of
        None \<Rightarrow> None
      | Some (Inl f) \<Rightarrow> Some (Inl f)
      | Some (Inr c) \<Rightarrow> (case ac_finish cs c of
          Inl f \<Rightarrow> Some (Inl f)
        | Inr c \<Rightarrow> map_option (map_sum id (\<lambda>bo. take (bo_size bo) (bo_data bo)))
            (bit_finish cs (ac_out c)))))"

lemma encode_names:
  assumes "list_all valid_step (steps_of ss)" and "32 * length ss < 8 * length block"
    and "8 * length block < 2 ^ 64"
  shows "\<exists>bs. encode cs ss block = Some (Inr bs) \<and> length bs \<le> 4 * length ss + 1 \<and>
    names bs (code_steps (steps_of ss) start_interval)"
proof -
  obtain c where c: "ArithmeticEncoder 32 (BitOutputStream block) = Inr c" "codes c start_interval"
      "capacity c = 8 * length block"
    using ArithmeticEncoder_codes by blast
  let ?iv = "code_steps (steps_of ss) start_interval"
  have z: "fst (snd start_interval) = 0" by (simp add: start_interval_def)
  obtain c1 where c1: "write_all cs ss c = Some (Inr c1)" "codes c1 ?iv" "capacity c1 = capacity c"
      "iv_normal ?iv" "fst (snd ?iv) \<le> 32 * length ss"
    using write_all_codes [OF c(2) start_normal assms(1), of cs] assms(2,3) c(3) z by auto
  obtain c2 bo where "ac_finish cs c1 = Inr c2" "bit_finish cs (ac_out c2) = Some (Inr bo)"
      "bo_size bo \<le> length (bo_data bo)" "length (bo_data bo) = length (bo_data (ac_out c1))"
      "8 * bo_size bo \<le> fst (snd ?iv) + 8" "names (take (bo_size bo) (bo_data bo)) ?iv"
    using finish_names [OF c1(2,4), of cs] assms(2) c(3) c1(3,5) by auto
  then show ?thesis
    using c(1) c1(1,5) by (simp add: encode_def)
qed

section \<open>Properties\<close>

text \<open>
  C6: what is encoded can be decoded. Whatever symbols are written, each under its own
  statistics, the run of the encoder returns, its output takes at most four bytes per symbol
  and one at the end, and interval decoding with the same statistics gives the symbols back.
\<close>

theorem arithmetic_coder_roundtrip:
  assumes "list_all valid_model ms" and "list_all2 in_model ms xs"
    and "steps_of ss = map2 model_step ms xs"
    and "4 * length ss < length block" and "length block < 2 ^ 61"
  shows "\<exists>bs. encode char_signed ss block = Some (Inr bs) \<and> length bs \<le> 4 * length ss + 1 \<and>
    decode bs start_interval ms = Some xs"
proof -
  have "list_all valid_step (steps_of ss)"
    using assms(2,1) unfolding assms(3)
    by (induction ms xs rule: list_all2_induct) (auto intro: model_step_valid)
  then obtain bs where "encode char_signed ss block = Some (Inr bs)"
      "length bs \<le> 4 * length ss + 1" "names bs (code_steps (steps_of ss) start_interval)"
    using encode_names [of ss block char_signed] assms(4,5) by auto
  then show ?thesis
    using decode_coded [OF assms(2,1) start_normal] assms(3) by metis
qed

text \<open>Two symbols of three, written under two different statistics.\<close>

theorem arithmetic_coder_roundtrip_witness:
  "\<exists>bs. encode True [(10, 9, 10), (3, 1, 2)] (replicate 16 0) = Some (Inr bs) \<and> length bs \<le> 9 \<and>
    decode bs start_interval
      [(10, \<lambda>x. nat (x + 8), \<lambda>x. nat (x + 9), -1, 1), (3, \<lambda>x. nat (x + 1), \<lambda>x. nat (x + 2), -1, 1)]
      = Some [1, 0]"
proof -
  let ?ms = "[(10, \<lambda>x. nat (x + 8), \<lambda>x. nat (x + 9), -1, 1),
    (3, \<lambda>x. nat (x + 1), \<lambda>x. nat (x + 2), -1, 1)] :: symbol_model list"
  have "list_all valid_model ?ms"
    by (auto simp add: valid_model_def valid_step_def)
  moreover have "list_all2 in_model ?ms [1, 0]"
    by (simp add: in_model_def)
  moreover have "steps_of [(10, 9, 10), (3, 1, 2)] = map2 model_step ?ms [1, 0]"
    by (simp add: steps_of_def step_of_def model_step_def)
  ultimately show ?thesis
    using arithmetic_coder_roundtrip [of ?ms "[1, 0]" "[(10, 9, 10), (3, 1, 2)]" "replicate 16 0" True]
    by simp
qed

end
