(* ===== verification/EncTable.thy ===== *)
theory EncTable
  imports Prelude "HOL-Library.Signed_Division"
begin

text \<open>
  The statistics of the entropy coder, class \<open>EncTable\<close> of \<^verbatim>\<open>arithmetic_coding.cpp\<close>: the parts
  of the total that a mixture of three Gaussians gives to the values of a sample, computed
  from a table of exponentials and a table of the normal distribution that are read from
  files. Behind it, the same in unbounded arithmetic, and what the coder relies on.
\<close>

section \<open>The tables\<close>

definition exp_scale :: int where [const_defs]: "exp_scale = 1000"
definition exp_x_bound :: int where [const_defs]: "exp_x_bound = -12"
definition cdf_scale :: int where [const_defs]: "cdf_scale = 10000"
definition cdf_x_bound :: int where [const_defs]: "cdf_x_bound = -5"

text \<open>\<open>file\<close> is what the path names, \<open>old\<close> what \<open>data\<close> and \<open>size\<close> are before the call.\<close>

definition readBinaryFile :: "bytes option \<Rightarrow> bytes option \<times> nat \<Rightarrow> bool \<times> bytes option \<times> nat" where
  "readBinaryFile file old =
     (case file of None \<Rightarrow> (False, old) | Some bs \<Rightarrow> (True, Some bs, length bs))"

text \<open>The bytes of a file as the array they are cast to.\<close>

fun halfwords :: "bytes \<Rightarrow> u16 list" where
  "halfwords (a # b # bs) = of_le16 a b # halfwords bs"
| "halfwords _ = []"

fun fullwords :: "bytes \<Rightarrow> u32 list" where
  "fullwords (a # b # c # d # bs) = of_le32 a b c d # fullwords bs"
| "fullwords _ = []"

definition table_at :: "'a list option \<Rightarrow> int \<Rightarrow> 'a res" where
  "table_at table i = (case table of
      None \<Rightarrow> Inl NullDeref
    | Some xs \<Rightarrow> if i < 0 then Inl OutOfBounds else get_at xs (nat i))"

section \<open>Integer arithmetic\<close>

definition int_fits :: "int \<Rightarrow> bool" where
  "int_fits x \<longleftrightarrow> - 2147483648 \<le> x \<and> x \<le> 2147483647"

definition clamp :: "int \<Rightarrow> int \<Rightarrow> int \<Rightarrow> int" where
  "clamp x l r = (if x < l then l else if x > r then r else x)"

section \<open>EncTable\<close>

text \<open>
  \<open>softmax\<close> replaces the three logits by their exponentials, read from the table, and returns
  their sum.
\<close>

definition softmax :: "int list \<Rightarrow> u16 \<Rightarrow> u16 list option \<Rightarrow> int \<Rightarrow> int \<Rightarrow> (int list \<times> int) res" where
  "softmax probs scale_pred exp_table scale x_bound =
     (let mx = Max (set (take 3 probs)); base = - x_bound * scale in
      for_each [0..<3] (\<lambda>i (probs, sum).
        let idx = probs ! i - mx in
        if \<not> int_fits idx then Inl Overflow
        else if scale_pred = 0 then Inl DivByZero
        else and_then (table_at exp_table (max (idx * scale sdiv uint scale_pred + base) 0))
          (\<lambda>e. Inr (probs[i := uint e], sum + uint e)))
        (probs, 0))"

text \<open>
  The pointers \<open>probs\<close>, \<open>means\<close> and \<open>stds\<close> are the arrays they point to; \<open>probs\<close> is the array
  after \<open>softmax\<close> has rewritten it.
\<close>

record enc_table =
  et_exp_table :: "u16 list option"
  et_exp_size :: nat
  et_cdf_table :: "u32 list option"
  et_cdf_size :: nat
  et_scale_pred :: int
  et_low_bound :: int
  et_high_bound :: int
  et_freqs_resolution :: int
  et_sym_low :: u32
  et_sym_high :: u32
  et_total_freqs :: u32
  et_l_bound :: u64
  et_r_bound :: u64
  et_probs :: "int list"
  et_means :: "int list"
  et_stds :: "int list"
  et_prob_sum :: u32

text \<open>The results are not initialised: \<open>junk\<close> is what they hold.\<close>

definition EncTable ::
    "bytes option \<Rightarrow> bytes option \<Rightarrow> u32 \<times> u32 \<times> u32 \<Rightarrow> u32 \<Rightarrow> int \<Rightarrow> int \<Rightarrow> enc_table" where
  "EncTable exp_file cdf_file junk freqs_res low_b high_b =
     (let (_, exp_data, exp_sz) = readBinaryFile exp_file (None, 0);
          (_, cdf_data, cdf_sz) = readBinaryFile cdf_file (None, 0)
      in \<lparr> et_exp_table = map_option halfwords exp_data, et_exp_size = exp_sz,
           et_cdf_table = map_option fullwords cdf_data, et_cdf_size = cdf_sz,
           et_scale_pred = 10000, et_low_bound = low_b, et_high_bound = high_b,
           et_freqs_resolution = uint freqs_res, et_sym_low = fst junk,
           et_sym_high = fst (snd junk), et_total_freqs = snd (snd junk),
           et_l_bound = 0, et_r_bound = 0, et_probs = [], et_means = [], et_stds = [],
           et_prob_sum = 0 \<rparr>)"

definition et_update :: "int list \<Rightarrow> int list \<Rightarrow> int list \<Rightarrow> enc_table \<Rightarrow> enc_table res" where
  "et_update m_probs m_means m_stds et =
     and_then (softmax m_probs (word_of_int (et_scale_pred et)) (et_exp_table et) exp_scale exp_x_bound)
       (\<lambda>(probs, sum). Inr (et\<lparr> et_probs := probs, et_means := m_means, et_stds := m_stds,
          et_prob_sum := word_of_int sum \<rparr>))"

text \<open>
  The index of \<open>(x * scale_pred - mean) + half\<close> in the table, with \<open>half\<close> a half step up or
  down; and what the table's entry adds to the cumulative frequency.
\<close>

definition cdf_index :: "int \<Rightarrow> int \<Rightarrow> int \<Rightarrow> int \<Rightarrow> int \<Rightarrow> int res" where
  "cdf_index x scale mean half std =
     (let base = - cdf_x_bound * cdf_scale; p = x * scale; q = p - mean; r = q + half in
      if \<not> (int_fits p \<and> int_fits q \<and> int_fits r) then Inl Overflow
      else if std = 0 then Inl DivByZero
      else Inr (clamp (r * cdf_scale sdiv std) (- base) base + base))"

definition cdf_term :: "enc_table \<Rightarrow> nat \<Rightarrow> int \<Rightarrow> u64 res" where
  "cdf_term et i idx = and_then (table_at (et_cdf_table et) idx) (\<lambda>c.
     if et_prob_sum et = 0 then Inl DivByZero
     else Inr (1 * word_of_int (et_freqs_resolution et) * ucast c div ucast (et_prob_sum et)
       * word_of_int (et_probs et ! i)))"

text \<open>One of the two loops of \<open>get_bound\<close>: the sums for \<open>xl - 1/2\<close> and \<open>xr + 1/2\<close>.\<close>

definition cdf_sums :: "enc_table \<Rightarrow> int \<Rightarrow> int \<Rightarrow> (u64 \<times> u64) res" where
  "cdf_sums et xl xr =
     (let scale = et_scale_pred et in
      for_each [0..<3] (\<lambda>i (l, r).
        and_then (cdf_index xl scale (et_means et ! i) (- (scale sdiv 2)) (et_stds et ! i)) (\<lambda>idx_l.
        and_then (cdf_index xr scale (et_means et ! i) (scale sdiv 2) (et_stds et ! i)) (\<lambda>idx_r.
        and_then (cdf_term et i idx_l) (\<lambda>a.
        and_then (cdf_term et i idx_r) (\<lambda>b. Inr (l + a, r + b))))))
        (0, 0))"

definition get_bound :: "int \<Rightarrow> enc_table \<Rightarrow> enc_table res" where
  "get_bound x et =
     (let y_bound = 4294967295 :: u64 in
      and_then (cdf_sums et (et_low_bound et) (et_high_bound et)) (\<lambda>(l, r).
      let l_bound = l div y_bound; r_bound = r div y_bound in
      and_then (cdf_sums et x x) (\<lambda>(l, r).
      let low = l div y_bound; high = r div y_bound in
      Inr (et\<lparr> et_l_bound := l_bound, et_r_bound := r_bound,
        et_sym_low := ucast (low - l_bound + word_of_int (x - et_low_bound et)),
        et_sym_high := ucast (high - l_bound + word_of_int (x - et_low_bound et + 1)),
        et_total_freqs := ucast (r_bound - l_bound
          + word_of_int (et_high_bound et - et_low_bound et + 1)) \<rparr>))))"

section \<open>The frequencies in unbounded arithmetic\<close>

text \<open>
  The cumulative frequency below \<open>q\<close> (a half step away from a value, in units of the scale):
  every Gaussian contributes its part of a million, weighted by its probability.
\<close>

definition index_of :: "int \<Rightarrow> int \<Rightarrow> int \<Rightarrow> nat" where
  "index_of mean std q = nat (clamp ((q - mean) * 10000 sdiv std) (- 50000) 50000 + 50000)"

definition part_of :: "u32 list \<Rightarrow> enc_table \<Rightarrow> int \<Rightarrow> nat \<Rightarrow> nat" where
  "part_of cdf et q i = 1000000 * unat (cdf ! index_of (et_means et ! i) (et_stds et ! i) q)
     div unat (et_prob_sum et) * nat (et_probs et ! i)"

definition cumulative :: "u32 list \<Rightarrow> enc_table \<Rightarrow> int \<Rightarrow> nat" where
  "cumulative cdf et q = (\<Sum>i<3. part_of cdf et q i)"

definition frequency :: "u32 list \<Rightarrow> enc_table \<Rightarrow> int \<Rightarrow> nat" where
  "frequency cdf et q = cumulative cdf et q div 4294967295"

text \<open>
  When the statistics can be used: the table covers the range it is clamped to and does not
  decrease, the standard deviations are positive, and so is the sum of the probabilities.
\<close>

definition cdf_ok :: "u32 list \<Rightarrow> bool" where
  "cdf_ok cdf \<longleftrightarrow> 100001 \<le> length cdf \<and> sorted cdf"

definition int16 :: "int \<Rightarrow> bool" where
  "int16 x \<longleftrightarrow> - 32768 \<le> x \<and> x \<le> 32767"

definition mixture_ok :: "enc_table \<Rightarrow> bool" where
  "mixture_ok et \<longleftrightarrow>
     (\<forall>i<3. 0 \<le> et_probs et ! i \<and> et_probs et ! i < 65536 \<and> int16 (et_means et ! i) \<and>
        int16 (et_stds et ! i) \<and> 0 < et_stds et ! i) \<and>
     unat (et_prob_sum et) = (\<Sum>i<3. nat (et_probs et ! i)) \<and> 0 < unat (et_prob_sum et)"

definition range_ok :: "u32 list \<Rightarrow> enc_table \<Rightarrow> bool" where
  "range_ok cdf et \<longleftrightarrow> et_cdf_table et = Some cdf \<and> cdf_ok cdf \<and> 0 < et_scale_pred et \<and>
     et_scale_pred et \<le> 32767 \<and> int16 (et_low_bound et) \<and> int16 (et_high_bound et) \<and>
     et_low_bound et \<le> et_high_bound et \<and> et_freqs_resolution et = 1000000"

lemma sdiv_mono:
  assumes "0 < (c :: int)" and "a \<le> b"
  shows "a sdiv c \<le> b sdiv c"
proof -
  have e: "x sdiv c = (if 0 \<le> x then x div c else - (- x div c))" for x
    using assms(1) by (simp add: signed_divide_int_def sgn_if abs_if)
  have p: "0 \<le> x div c" if "0 \<le> x" for x using that assms(1) by (simp add: pos_imp_zdiv_nonneg_iff)
  show ?thesis
    using assms zdiv_mono1 [of a b c] zdiv_mono1 [of "- b" "- a" c] p [of b] p [of "- a"]
    by (auto simp add: e)
qed

lemma index_of_mono: "0 < std \<Longrightarrow> q \<le> q' \<Longrightarrow> index_of mean std q \<le> index_of mean std q'"
  using sdiv_mono [of std "(q - mean) * 10000" "(q' - mean) * 10000"]
  by (auto simp add: index_of_def clamp_def)

lemma index_of_less: "index_of mean std q < 100001"
  by (auto simp add: index_of_def clamp_def)

lemma unat_u32_less: "unat (x :: u32) < 4294967296"
  using unsigned_less [of x] by simp

lemma part_of_mono:
  assumes "cdf_ok cdf" and "mixture_ok et" and "i < 3" and "q \<le> q'"
  shows "part_of cdf et q i \<le> part_of cdf et q' i"
proof -
  let ?i = "index_of (et_means et ! i) (et_stds et ! i)"
  have "?i q \<le> ?i q'" using assms(2-4) by (intro index_of_mono) (auto simp add: mixture_ok_def)
  moreover have "?i q' < length cdf"
    using index_of_less [of "et_means et ! i" "et_stds et ! i" q'] assms(1) by (simp add: cdf_ok_def)
  ultimately have "unat (cdf ! ?i q) \<le> unat (cdf ! ?i q')"
    using assms(1) by (auto simp add: cdf_ok_def sorted_iff_nth_mono word_le_nat_alt)
  then show ?thesis unfolding part_of_def by (intro mult_le_mono1 div_le_mono mult_le_mono2)
qed

lemma frequency_mono:
  assumes "cdf_ok cdf" and "mixture_ok et" and "q \<le> q'"
  shows "frequency cdf et q \<le> frequency cdf et q'"
  unfolding frequency_def cumulative_def
  using part_of_mono [OF assms(1,2) _ assms(3)] by (intro div_le_mono sum_mono) simp

lemma cumulative_bound:
  assumes "mixture_ok et"
  shows "cumulative cdf et q \<le> 1000000 * 4294967295"
proof -
  let ?s = "unat (et_prob_sum et)"
  have "part_of cdf et q i \<le> 1000000 * 4294967295 div ?s * nat (et_probs et ! i)" for i
  proof -
    have "unat (cdf ! j) \<le> 4294967295" for j using unat_u32_less [of "cdf ! j"] by simp
    then show ?thesis unfolding part_of_def by (intro mult_le_mono1 div_le_mono mult_le_mono2)
  qed
  then have "cumulative cdf et q \<le> (\<Sum>i<3. 1000000 * 4294967295 div ?s * nat (et_probs et ! i))"
    unfolding cumulative_def by (intro sum_mono)
  also have "\<dots> = 1000000 * 4294967295 div ?s * ?s"
    using assms unfolding mixture_ok_def by (simp only: sum_distrib_left)
  also have "\<dots> \<le> 1000000 * 4294967295" by (rule div_times_less_eq_dividend)
  finally show ?thesis .
qed

lemma frequency_bound: "mixture_ok et \<Longrightarrow> frequency cdf et q \<le> 1000000"
  using cumulative_bound [of et cdf q] unfolding frequency_def
  by (metis div_le_mono nonzero_mult_div_cancel_right zero_neq_numeral)

section \<open>The code computes the frequencies\<close>

lemma cdf_index_eq:
  assumes "int16 x" and "0 < scale" and "scale \<le> 32767" and "int16 mean" and "0 < std"
    and "\<bar>d\<bar> \<le> 16384"
  shows "cdf_index x scale mean d std = Inr (int (index_of mean std (x * scale + d)))"
proof -
  have "\<bar>x * scale\<bar> \<le> 32768 * 32767"
    unfolding abs_mult using assms(1-3) by (intro mult_mono) (auto simp add: int16_def)
  then have "int_fits (x * scale)" "int_fits (x * scale - mean)" "int_fits (x * scale - mean + d)"
    using assms(4,6) unfolding int_fits_def int16_def by linarith+
  moreover have "x * scale - mean + d = x * scale + d - mean" by simp
  moreover have "0 \<le> clamp y (- 50000) 50000 + 50000" for y by (simp add: clamp_def)
  ultimately show ?thesis
    using assms(5) unfolding cdf_index_def index_of_def Let_def by (simp only: simp_thms if_False) (simp add: const_defs)
qed

lemma part_word:
  assumes "0 < unat (s :: u32)" and "0 \<le> p" and "p < 65536"
  shows "1 * word_of_int 1000000 * ucast (c :: u32) div ucast s * word_of_int p =
    (of_nat (1000000 * unat c div unat s * nat p) :: u64)"
proof -
  have c: "unat c \<le> 4294967295" using unat_u32_less [of c] by simp
  have s: "unat s < 2 ^ 64" using unat_u32_less [of s] by simp
  have "(of_nat (1000000 * unat c) :: u64) div of_nat (unat s) = of_nat (1000000 * unat c div unat s)"
    using c s assms(1) by (intro of_nat_div_word) simp_all
  moreover have "1 * word_of_int 1000000 * ucast c = (of_nat (1000000 * unat c) :: u64)"
    unfolding of_nat_unat of_nat_mult by simp
  moreover have "(ucast s :: u64) = of_nat (unat s)" unfolding of_nat_unat ..
  moreover have "(word_of_int p :: u64) = of_nat (nat p)" using assms(2) by simp
  ultimately show ?thesis by (simp only: of_nat_mult)
qed

lemma cdf_term_eq:
  assumes "range_ok cdf et" and "mixture_ok et" and "i < 3"
  shows "cdf_term et i (int (index_of (et_means et ! i) (et_stds et ! i) q)) =
    Inr (of_nat (part_of cdf et q i))"
proof -
  let ?i = "index_of (et_means et ! i) (et_stds et ! i) q"
  have "?i < length cdf"
    using index_of_less [of "et_means et ! i" "et_stds et ! i" q] assms(1)
    by (simp add: range_ok_def cdf_ok_def)
  then have "table_at (et_cdf_table et) (int ?i) = Inr (cdf ! ?i)"
    using assms(1) by (simp add: table_at_def range_ok_def)
  moreover have "et_prob_sum et \<noteq> 0" using assms(2) by (auto simp add: mixture_ok_def)
  moreover have "et_freqs_resolution et = 1000000" using assms(1) by (simp add: range_ok_def)
  moreover have "0 < unat (et_prob_sum et)" "0 \<le> et_probs et ! i" "et_probs et ! i < 65536"
    using assms(2,3) unfolding mixture_ok_def by blast+
  ultimately show ?thesis
    unfolding cdf_term_def part_of_def by (simp only: and_then_simps if_False part_word)
qed

lemma cdf_sums_eq:
  assumes "range_ok cdf et" and "mixture_ok et" and "int16 xl" and "int16 xr"
  defines "half \<equiv> et_scale_pred et div 2"
  shows "cdf_sums et xl xr = Inr (of_nat (cumulative cdf et (xl * et_scale_pred et - half)),
    of_nat (cumulative cdf et (xr * et_scale_pred et + half)))"
proof -
  let ?s = "et_scale_pred et"
  have s: "0 < ?s" "?s \<le> 32767" using assms(1) by (simp_all add: range_ok_def)
  then have h: "?s sdiv 2 = half" "\<bar>half\<bar> \<le> 16384" "\<bar>- half\<bar> \<le> 16384"
    by (simp_all add: half_def signed_divide_int_def)
  have ix: "cdf_index x ?s (et_means et ! i) d (et_stds et ! i) =
      Inr (int (index_of (et_means et ! i) (et_stds et ! i) (x * ?s + d)))"
    if "i < 3" "int16 x" "\<bar>d\<bar> \<le> 16384" for i x d
    using that s assms(2) by (intro cdf_index_eq) (auto simp add: mixture_ok_def)
  show ?thesis
    unfolding cdf_sums_def Let_def h(1)
    by (simp add: upt_rec numeral_3_eq_3 ix assms(3,4) h(2,3) cdf_term_eq [OF assms(1,2)]
        cumulative_def lessThan_Suc add.commute add.left_commute)
qed

text \<open>The part of the total each value of the range has, and the total.\<close>

definition low_of :: "u32 list \<Rightarrow> enc_table \<Rightarrow> int \<Rightarrow> nat" where
  "low_of cdf et x = (let s = et_scale_pred et; lo = et_low_bound et in
     frequency cdf et (x * s - s div 2) - frequency cdf et (lo * s - s div 2) + nat (x - lo))"

definition high_of :: "u32 list \<Rightarrow> enc_table \<Rightarrow> int \<Rightarrow> nat" where
  "high_of cdf et x = (let s = et_scale_pred et; lo = et_low_bound et in
     frequency cdf et (x * s + s div 2) - frequency cdf et (lo * s - s div 2) + nat (x - lo + 1))"

definition total_of :: "u32 list \<Rightarrow> enc_table \<Rightarrow> nat" where
  "total_of cdf et = high_of cdf et (et_high_bound et)"

lemma scaled_order:
  assumes "range_ok cdf et" and "x < (y :: int)"
  shows "x * et_scale_pred et + et_scale_pred et div 2 \<le> y * et_scale_pred et - et_scale_pred et div 2"
proof -
  let ?s = "et_scale_pred et"
  have "(x + 1) * ?s \<le> y * ?s"
    using assms by (intro mult_right_mono) (simp_all add: range_ok_def)
  then have "x * ?s + ?s \<le> y * ?s" by (simp add: distrib_right)
  moreover have "?s div 2 + ?s div 2 \<le> ?s" by simp
  ultimately show ?thesis by linarith
qed

lemma scaled_mono:
  assumes "range_ok cdf et" and "x \<le> (y :: int)"
  shows "x * et_scale_pred et - d \<le> y * et_scale_pred et - d"
  using assms by (simp add: range_ok_def mult_right_mono)

lemma parts_disjoint:
  assumes "range_ok cdf et" and "mixture_ok et" and "et_low_bound et \<le> x" and "x < y"
  shows "high_of cdf et x \<le> low_of cdf et y"
proof -
  have "cdf_ok cdf" using assms(1) by (simp add: range_ok_def)
  from frequency_mono [OF this assms(2) scaled_order [OF assms(1,4)]] show ?thesis
    using assms(3,4) unfolding high_of_def low_of_def Let_def
    by (intro add_le_mono diff_le_mono nat_mono) simp_all
qed

lemma part_nonempty:
  assumes "range_ok cdf et" and "mixture_ok et" and "et_low_bound et \<le> x"
  shows "low_of cdf et x < high_of cdf et x"
proof -
  let ?s = "et_scale_pred et"
  have "x * ?s - ?s div 2 \<le> x * ?s + ?s div 2" using assms(1) by (simp add: range_ok_def)
  then have "frequency cdf et (x * ?s - ?s div 2) \<le> frequency cdf et (x * ?s + ?s div 2)"
    using assms(1,2) by (intro frequency_mono) (simp_all add: range_ok_def)
  then show ?thesis
    using assms(3) unfolding high_of_def low_of_def Let_def
    by (intro add_le_less_mono diff_le_mono) simp_all
qed

lemma part_in_total:
  assumes "range_ok cdf et" and "mixture_ok et" and "et_low_bound et \<le> x" and "x \<le> et_high_bound et"
  shows "high_of cdf et x \<le> total_of cdf et"
proof (cases "x = et_high_bound et")
  case False
  then have "high_of cdf et x \<le> low_of cdf et (et_high_bound et)"
    using assms by (intro parts_disjoint) simp_all
  also have "\<dots> < total_of cdf et"
    using assms unfolding total_of_def by (intro part_nonempty) simp_all
  finally show ?thesis by simp
qed (simp add: total_of_def)

lemma total_bound:
  assumes "range_ok cdf et" and "mixture_ok et"
  shows "total_of cdf et \<le> 1065536"
proof -
  let ?lo = "et_low_bound et" and ?hi = "et_high_bound et"
  have "?hi - ?lo + 1 \<le> 65536" using assms(1) unfolding range_ok_def int16_def by linarith
  then have "nat (?hi - ?lo + 1) \<le> 65536" by simp
  moreover have "frequency cdf et q - n \<le> 1000000" for q n
    using frequency_bound [OF assms(2), of cdf q] by simp
  ultimately have "frequency cdf et q - n + nat (?hi - ?lo + 1) \<le> 1000000 + 65536" for q n
    by (intro add_mono)
  then show ?thesis unfolding total_of_def high_of_def Let_def by simp
qed

lemma frequency_word:
  assumes "mixture_ok et"
  shows "(of_nat (cumulative cdf et q) :: u64) div 4294967295 = of_nat (frequency cdf et q)"
proof -
  have "cumulative cdf et q < 2 ^ LENGTH(64)" using cumulative_bound [OF assms, of cdf q] by simp
  then have "(of_nat (cumulative cdf et q) :: u64) div of_nat 4294967295 =
      of_nat (cumulative cdf et q div 4294967295)"
    by (rule of_nat_div_word) simp
  then show ?thesis by (simp only: frequency_def of_nat_numeral)
qed

lemma symbol_word:
  assumes "a \<le> (b :: nat)" and "b \<le> 1000000" and "0 \<le> z" and "z \<le> 65536"
  shows "unat (ucast (of_nat b - of_nat a + word_of_int z :: u64) :: u32) = b - a + nat z"
proof -
  have "(of_nat b - of_nat a + word_of_int z :: u64) = of_nat (b - a + nat z)"
    using assms by (simp add: of_nat_diff)
  moreover have "(ucast (of_nat n :: u64) :: u32) = of_nat n" for n
    by transfer (simp add: take_bit_take_bit)
  moreover have "b - a + nat z < 4294967296" using assms by simp
  ultimately show ?thesis by (simp only: unat_of_nat_u32)
qed

lemma get_bound_eq:
  assumes "range_ok cdf et" and "mixture_ok et" and "et_low_bound et \<le> x" and "x \<le> et_high_bound et"
  shows "\<exists>et'. get_bound x et = Inr et' \<and> unat (et_sym_low et') = low_of cdf et x \<and>
    unat (et_sym_high et') = high_of cdf et x \<and> unat (et_total_freqs et') = total_of cdf et"
proof -
  let ?s = "et_scale_pred et" and ?lo = "et_low_bound et" and ?hi = "et_high_bound et"
  let ?F = "frequency cdf et"
  have i: "int16 x" "int16 ?lo" "int16 ?hi" "cdf_ok cdf" "0 < ?s"
    using assms(1,3,4) by (auto simp add: range_ok_def int16_def)
  have m: "?F (?lo * ?s - ?s div 2) \<le> ?F (x * ?s - ?s div 2)"
    "?F (?lo * ?s - ?s div 2) \<le> ?F (x * ?s + ?s div 2)"
    "?F (?lo * ?s - ?s div 2) \<le> ?F (?hi * ?s + ?s div 2)"
    using scaled_mono [OF assms(1,3), of "?s div 2"] scaled_mono [OF assms(1), of ?lo ?hi "?s div 2"]
      assms i(5) by (intro frequency_mono [OF i(4) assms(2)]; linarith)+
  have d: "0 \<le> x - ?lo" "x - ?lo + 1 \<le> 65536" "?hi - ?lo + 1 \<le> 65536" "0 \<le> ?hi - ?lo + 1"
    using i assms(3,4) by (auto simp add: int16_def)
  note b = frequency_bound [OF assms(2), of cdf]
  show ?thesis
    unfolding get_bound_def Let_def cdf_sums_eq [OF assms(1,2) i(2,3)] cdf_sums_eq [OF assms(1,2) i(1,1)]
      and_then_simps prod.case frequency_word [OF assms(2)] total_of_def high_of_def low_of_def
    using d by (simp add: symbol_word m b del: of_int_add of_int_diff)
qed

text \<open>
  \<open>softmax\<close> on 16-bit logits, with a table that reaches to its last index and does not end in 0:
  the largest logit gets that last entry, so the sum is not 0.
\<close>

definition exp_ok :: "u16 list \<Rightarrow> bool" where
  "exp_ok e \<longleftrightarrow> 12001 \<le> length e \<and> e ! 12000 \<noteq> 0"

definition exp_of :: "u16 list \<Rightarrow> int \<Rightarrow> int \<Rightarrow> int" where
  "exp_of e scale d = uint (e ! nat (max (d * 1000 sdiv scale + 12000) 0))"

lemma exp_entry:
  assumes "exp_ok e" and "d \<le> 0" and "0 < scale"
  shows "table_at (Some e) (max (d * 1000 sdiv scale + 12000) 0) =
    Inr (e ! nat (max (d * 1000 sdiv scale + 12000) 0))"
proof -
  have "d * 1000 sdiv scale \<le> 0 sdiv scale" using assms(2,3) by (intro sdiv_mono) simp_all
  then have "d * 1000 sdiv scale \<le> 0" by simp
  then have "nat (max (d * 1000 sdiv scale + 12000) 0) < length e"
    using assms(1) unfolding exp_ok_def by linarith
  then show ?thesis by (simp add: table_at_def)
qed

lemma exp_of_bounds: "0 \<le> exp_of e scale d" "exp_of e scale d < 65536"
  using unsigned_less [of "e ! nat (max (d * 1000 sdiv scale + 12000) 0)"] by (simp_all add: exp_of_def)

lemma exp_of_0: "exp_ok e \<Longrightarrow> 0 < exp_of e scale 0"
  by (auto simp add: exp_of_def exp_ok_def uint_0_iff order.strict_iff_order)

lemma softmax_eq:
  assumes "exp_ok e" and "0 < scale" and "scale \<le> 32767" and "int16 a" and "int16 b" and "int16 c"
  defines "m \<equiv> Max {a, b, c}"
  shows "softmax [a, b, c] (word_of_int scale) (Some e) exp_scale exp_x_bound =
    Inr ([exp_of e scale (a - m), exp_of e scale (b - m), exp_of e scale (c - m)],
      exp_of e scale (a - m) + exp_of e scale (b - m) + exp_of e scale (c - m))"
proof -
  have "a \<le> m" "b \<le> m" "c \<le> m" by (simp_all add: m_def)
  then have d: "a - m \<le> 0" "b - m \<le> 0" "c - m \<le> 0" by simp_all
  have "int16 m" using assms(4-6) by (auto simp add: m_def max_def)
  then have f: "int_fits (a - m)" "int_fits (b - m)" "int_fits (c - m)"
    using assms(4-6) unfolding int16_def int_fits_def by linarith+
  have s: "uint (word_of_int scale :: u16) = scale"
    using assms(2,3) by (simp add: unsigned_of_int take_bit_int_eq_self)
  then have n: "(word_of_int scale :: u16) \<noteq> 0" using assms(2) by auto
  have e: "\<exists>v. table_at (Some e) (max ((x - m) * exp_scale sdiv uint (word_of_int scale :: u16)
      + - exp_x_bound * exp_scale) 0) = Inr v \<and> uint v = exp_of e scale (x - m)" if "x - m \<le> 0" for x
    using exp_entry [OF assms(1) that assms(2)] by (simp add: s exp_of_def exp_scale_def exp_x_bound_def)
  from e [OF d(1)] e [OF d(2)] e [OF d(3)] obtain va vb vc
    where "table_at (Some e) (max ((a - m) * exp_scale sdiv uint (word_of_int scale :: u16)
        + - exp_x_bound * exp_scale) 0) = Inr va" "uint va = exp_of e scale (a - m)"
      and "table_at (Some e) (max ((b - m) * exp_scale sdiv uint (word_of_int scale :: u16)
        + - exp_x_bound * exp_scale) 0) = Inr vb" "uint vb = exp_of e scale (b - m)"
      and "table_at (Some e) (max ((c - m) * exp_scale sdiv uint (word_of_int scale :: u16)
        + - exp_x_bound * exp_scale) 0) = Inr vc" "uint vc = exp_of e scale (c - m)"
    by blast
  moreover have "set (take 3 [a, b, c]) = {a, b, c}" by simp
  then have "Max (set (take 3 [a, b, c])) = m" unfolding m_def by (rule arg_cong)
  ultimately show ?thesis
    unfolding softmax_def Let_def using f n by (simp add: upt_rec numeral_3_eq_3)
qed

text \<open>
  The two calls of the client: what \<open>update\<close> computes from the nine numbers of a mixture, and
  that neither call touches the tables and the range.
\<close>

definition range_key :: "enc_table \<Rightarrow> u16 list option \<times> u32 list option \<times> int \<times> int \<times> int \<times> int" where
  "range_key et = (et_exp_table et, et_cdf_table et, et_scale_pred et, et_low_bound et,
     et_high_bound et, et_freqs_resolution et)"

definition mixture_key :: "enc_table \<Rightarrow> int list \<times> int list \<times> int list \<times> u32" where
  "mixture_key et = (et_probs et, et_means et, et_stds et, et_prob_sum et)"

lemma range_ok_key: "range_key et = range_key et' \<Longrightarrow> range_ok cdf et \<longleftrightarrow> range_ok cdf et'"
  by (simp add: range_key_def range_ok_def)

lemma parts_key:
  assumes "range_key et = range_key et'" and "mixture_key et = mixture_key et'"
  shows "low_of cdf et = low_of cdf et'" and "high_of cdf et = high_of cdf et'"
    and "total_of cdf et = total_of cdf et'"
  using assms
  by (simp_all add: range_key_def mixture_key_def low_of_def high_of_def total_of_def frequency_def
      cumulative_def part_of_def fun_eq_iff)

lemma get_bound_keeps: "get_bound x et = Inr et' \<Longrightarrow> range_key et' = range_key et"
  by (auto simp add: get_bound_def Let_def and_then_eq_Inr range_key_def split: prod.splits)

lemma et_update_keeps: "et_update p m s et = Inr et' \<Longrightarrow> range_key et' = range_key et"
  by (auto simp add: et_update_def and_then_eq_Inr range_key_def split: prod.splits)

lemma all_below_3: "(\<forall>i<3. P i) \<longleftrightarrow> P 0 \<and> P 1 \<and> P (2 :: nat)"
  by (auto simp add: less_Suc_eq numeral_3_eq_3 numeral_2_eq_2)

lemma et_update_eq:
  assumes "et_exp_table et = Some e" and "exp_ok e" and "0 < et_scale_pred et"
    and "et_scale_pred et \<le> 32767" and "list_all int16 [p1, p2, p3, m1, m2, m3, s1, s2, s3]"
    and "0 < s1" and "0 < s2" and "0 < s3"
  shows "\<exists>et'. et_update [p1, p2, p3] [m1, m2, m3] [s1, s2, s3] et = Inr et' \<and> mixture_ok et'"
proof -
  let ?s = "et_scale_pred et"
  define m where "m = Max {p1, p2, p3}"
  define q where "q = (\<lambda>x. exp_of e ?s (x - m))"
  have sm: "softmax [p1, p2, p3] (word_of_int ?s) (et_exp_table et) exp_scale exp_x_bound =
      Inr ([q p1, q p2, q p3], q p1 + q p2 + q p3)"
    using softmax_eq [OF assms(2-4), of p1 p2 p3] assms(1,5) by (simp add: q_def m_def)
  define et' where "et' = et\<lparr> et_probs := [q p1, q p2, q p3], et_means := [m1, m2, m3],
    et_stds := [s1, s2, s3], et_prob_sum := word_of_int (q p1 + q p2 + q p3) \<rparr>"
  have u: "et_update [p1, p2, p3] [m1, m2, m3] [s1, s2, s3] et = Inr et'"
    unfolding et_update_def sm et'_def by simp
  have b: "0 \<le> q x" "q x < 65536" for x by (simp_all add: q_def exp_of_bounds)
  have "m \<in> {p1, p2, p3}" unfolding m_def by (intro Max_in) simp_all
  then have "q m \<in> {q p1, q p2, q p3}" by blast
  moreover have "0 < q m" using exp_of_0 [OF assms(2)] by (simp add: q_def)
  ultimately have pos: "0 < q p1 + q p2 + q p3" using b(1) [of p1] b(1) [of p2] b(1) [of p3] by auto
  have w: "unat (word_of_int z :: u32) = nat z" if "0 \<le> z" "z < 4294967296" for z
    using that by (simp add: unsigned_of_int take_bit_int_eq_self)
  have "q p1 + q p2 + q p3 < 4294967296" using b(2) [of p1] b(2) [of p2] b(2) [of p3] by simp
  then have "unat (et_prob_sum et') = nat (q p1 + q p2 + q p3)"
    using pos w [of "q p1 + q p2 + q p3"] by (simp add: et'_def del: of_int_add)
  moreover have "nat (q p1 + q p2 + q p3) = (\<Sum>i<3. nat (et_probs et' ! i))"
    by (simp add: et'_def numeral_3_eq_3 lessThan_Suc nat_add_distrib b)
  ultimately have "mixture_ok et'"
    using pos assms(5-8) b unfolding mixture_ok_def all_below_3 by (simp add: et'_def)
  with u show ?thesis by blast
qed

section \<open>Properties\<close>

text \<open>
  C25: the parts of the values are a partition. For any mixture with positive deviations, after
  \<open>update\<close> the calls of \<open>get_bound\<close> for two values of the range return; the part of each is not
  empty, the smaller value's part lies before the larger one's, both lie within the total, and
  the total, the same for both, is small enough for a coder of 32 bits.
\<close>

theorem value_parts_ordered:
  assumes "range_ok cdf et" and "et_exp_table et = Some e" and "exp_ok e"
    and "list_all int16 [p1, p2, p3, m1, m2, m3, s1, s2, s3]" and "0 < s1" and "0 < s2" and "0 < s3"
    and "et_low_bound et \<le> x" and "x < y" and "y \<le> et_high_bound et"
  shows "\<exists>et1 ex ey. et_update [p1, p2, p3] [m1, m2, m3] [s1, s2, s3] et = Inr et1 \<and>
    get_bound x et1 = Inr ex \<and> get_bound y et1 = Inr ey \<and>
    et_sym_low ex < et_sym_high ex \<and> et_sym_high ex \<le> et_sym_low ey \<and>
    et_sym_low ey < et_sym_high ey \<and> et_sym_high ey \<le> et_total_freqs ey \<and>
    et_total_freqs ex = et_total_freqs ey \<and> unat (et_total_freqs ey) \<le> 1065536"
proof -
  have "0 < et_scale_pred et" "et_scale_pred et \<le> 32767" using assms(1) by (simp_all add: range_ok_def)
  then obtain et1 where u: "et_update [p1, p2, p3] [m1, m2, m3] [s1, s2, s3] et = Inr et1"
      and m: "mixture_ok et1"
    using et_update_eq [OF assms(2,3) _ _ assms(4-7)] by blast
  have k: "range_key et1 = range_key et" by (rule et_update_keeps [OF u])
  then have r: "range_ok cdf et1" using assms(1) range_ok_key by blast
  have b: "et_low_bound et1 \<le> x" "et_low_bound et1 \<le> y" "x \<le> et_high_bound et1" "y \<le> et_high_bound et1"
    using k assms(8-10) by (simp_all add: range_key_def)
  obtain ex where x: "get_bound x et1 = Inr ex" "unat (et_sym_low ex) = low_of cdf et1 x"
      "unat (et_sym_high ex) = high_of cdf et1 x" "unat (et_total_freqs ex) = total_of cdf et1"
    using get_bound_eq [OF r m b(1,3)] by blast
  obtain ey where y: "get_bound y et1 = Inr ey" "unat (et_sym_low ey) = low_of cdf et1 y"
      "unat (et_sym_high ey) = high_of cdf et1 y" "unat (et_total_freqs ey) = total_of cdf et1"
    using get_bound_eq [OF r m b(2,4)] by blast
  have "et_total_freqs ex = et_total_freqs ey" using x(4) y(4) by (simp add: word_unat_eq_iff)
  then show ?thesis
    using u x y part_nonempty [OF r m b(1)] part_nonempty [OF r m b(2)]
      parts_disjoint [OF r m b(1) assms(9)] part_in_total [OF r m b(2,4)] total_bound [OF r m]
    by (simp add: word_less_nat_alt word_le_nat_alt)
qed

text \<open>Constant tables will do; the values are \<open>-1\<close> and \<open>1\<close>.\<close>

theorem value_parts_ordered_witness:
  "\<exists>et1 ex ey. et_update [5, 3, -2] [0, 100, -100] [40, 50, 60]
      ((EncTable None None (0, 0, 0) 1000000 (-1) 1)\<lparr> et_exp_table := Some (replicate 12001 7),
         et_cdf_table := Some (replicate 100001 9) \<rparr>) = Inr et1 \<and>
    get_bound (-1) et1 = Inr ex \<and> get_bound 1 et1 = Inr ey \<and>
    et_sym_low ex < et_sym_high ex \<and> et_sym_high ex \<le> et_sym_low ey \<and>
    et_sym_low ey < et_sym_high ey \<and> et_sym_high ey \<le> et_total_freqs ey \<and>
    et_total_freqs ex = et_total_freqs ey \<and> unat (et_total_freqs ey) \<le> 1065536"
proof -
  let ?et = "(EncTable None None (0, 0, 0) 1000000 (-1) 1)\<lparr> et_exp_table := Some (replicate 12001 7),
    et_cdf_table := Some (replicate 100001 9) \<rparr>"
  have "range_ok (replicate 100001 9) ?et"
    unfolding range_ok_def cdf_ok_def length_replicate
    by (simp add: EncTable_def readBinaryFile_def int16_def sorted_replicate)
  moreover have "exp_ok (replicate 12001 7)" unfolding exp_ok_def length_replicate by (simp add: nth_replicate)
  moreover have "et_low_bound ?et = -1" "et_high_bound ?et = 1" "et_exp_table ?et = Some (replicate 12001 7)"
    by (simp_all add: EncTable_def readBinaryFile_def)
  moreover have "list_all int16 [5, 3, -2, 0, 100, -100, 40, 50, 60]" by (simp add: int16_def)
  ultimately show ?thesis by (intro value_parts_ordered) simp_all
qed

end
