(* ===== verification/Codings.thy ===== *)
theory Codings
  imports Coder EncTable Framing
begin

text \<open>
  The entropy coder, \<open>codings\<close> of \<^verbatim>\<open>coding.cpp\<close>: a header with the smallest and the largest
  coefficient of every sub-band, behind it the arithmetic code of the coefficients, each with
  the statistics of its own mixture. The theory ends with a decoder for it and the proof that
  the decoder gives the coefficients back.
\<close>

section \<open>codings\<close>

definition SUB_CNT :: nat where [const_defs]: "SUB_CNT = 39"

record CodingResult =
  cr_data :: bytes
  cr_length :: nat

text \<open>
  What surrounds the function: the contents of the two table files (\<open>None\<close> when a file cannot
  be opened), whether \<open>char\<close> is signed, the fresh block of so many bytes that \<open>malloc\<close> returns,
  and what the uninitialised results of a table hold.
\<close>

record coding_env =
  ce_exp_file :: "bytes option"
  ce_cdf_file :: "bytes option"
  ce_char_signed :: bool
  ce_malloc :: "nat \<Rightarrow> bytes option"
  ce_junk :: "u32 \<times> u32 \<times> u32"

text \<open>
  \<open>accumulate\<close> adds in the \<open>int\<close> of its initial value. \<open>max_element\<close> and \<open>min_element\<close> of an
  empty range return its end, which is not an element; so is the range of a length that is
  negative as an \<open>int\<close>.
\<close>

definition accumulate_lens :: "nat list \<Rightarrow> u64" where
  "accumulate_lens lens =
     signed_take_bit 31 (ucast (foldl (\<lambda>acc l. acc + of_nat l) (0 :: u32) (take SUB_CNT lens)))"

definition extrema :: "i16 list \<Rightarrow> nat \<Rightarrow> (int \<times> int) res" where
  "extrema datum len =
     (if len = 0 \<or> 2 ^ 31 \<le> len \<or> length datum < len then Inl OutOfBounds
      else let xs = sint ` set (take len datum) in Inr (Min xs, Max xs))"

text \<open>
  One round of the inner loop: the mixture and the coefficient at \<open>p\<close>. A mixture that has not been
  written is \<open>None\<close>; to read it is a fault.
\<close>

definition code_sample :: "coding_env \<Rightarrow> gmm_t option list \<Rightarrow> i16 list \<Rightarrow> nat \<Rightarrow> enc_table \<times> coder \<Rightarrow>
    (enc_table \<times> coder) res option" where
  "code_sample env gmm datum p st = (case st of (freqs_table, enc) \<Rightarrow>
     bind_opt (Some (and_then (get_at gmm p) (\<lambda>cell. case cell of None \<Rightarrow> Inl Uninit | Some g \<Rightarrow> Inr g))) (\<lambda>g.
     let m_probs = [sint (prob1 g), sint (prob2 g), sint (prob3 g)];
         m_means = [sint (mean1 g), sint (mean2 g), sint (mean3 g)];
         m_stds = [sint (std1 g), sint (std2 g), sint (std3 g)] in
     bind_opt (Some (et_update m_probs m_means m_stds freqs_table)) (\<lambda>freqs_table.
     bind_opt (Some (get_at datum p)) (\<lambda>x.
     bind_opt (Some (get_bound (sint x) freqs_table)) (\<lambda>freqs_table.
     bind_opt (ac_write (ce_char_signed env) (et_total_freqs freqs_table) (et_sym_low freqs_table)
       (et_sym_high freqs_table) enc) (\<lambda>enc. Some (Inr (freqs_table, enc))))))))"

text \<open>
  One round of the outer loop. The block \<open>bins\<close> is in two parts, the header and what \<open>bout\<close>
  writes to.
\<close>

definition code_band :: "coding_env \<Rightarrow> gmm_t option list list \<Rightarrow> i16 list list \<Rightarrow> nat list \<Rightarrow> int \<Rightarrow> nat \<Rightarrow>
    bytes \<times> coder \<Rightarrow> (bytes \<times> coder) res option" where
  "code_band env gmms data lens gmm_scale i st = (case st of (bins, enc) \<Rightarrow>
     bind_opt (Some (get_at lens i)) (\<lambda>len.
     bind_opt (Some (get_at gmms i)) (\<lambda>gmm.
     bind_opt (Some (get_at data i)) (\<lambda>datum.
     bind_opt (Some (extrema datum len)) (\<lambda>(xmin, xmax).
     bind_opt (Some (blit bins (i * 2 * 2) (le16 (word_of_int xmin)))) (\<lambda>bins.
     bind_opt (Some (blit bins ((i * 2 + 1) * 2) (le16 (word_of_int xmax)))) (\<lambda>bins.
     if xmin \<ge> xmax then Some (Inr (bins, enc))
     else
       let freqs_table = EncTable (ce_exp_file env) (ce_cdf_file env) (ce_junk env) 1000000 xmin xmax in
       bind_opt (for_each_opt [0..<len] (code_sample env gmm datum)
           (freqs_table\<lparr> et_scale_pred := gmm_scale \<rparr>, enc))
         (\<lambda>(freqs_table, enc). Some (Inr (bins, enc))))))))))"

definition codings :: "coding_env \<Rightarrow> gmm_t option list list \<Rightarrow> i16 list list \<Rightarrow> nat list \<Rightarrow> int \<Rightarrow>
    CodingResult res option" where
  "codings env gmms data lens gmm_scale =
     (case ce_malloc env (unat (accumulate_lens lens * 8)) of
        None \<Rightarrow> Some (Inl NullDeref)
      | Some bins \<Rightarrow>
          let head = SUB_CNT * 2 * 2; bout = BitOutputStream (drop head bins) in
          bind_opt (Some (ArithmeticEncoder 32 bout)) (\<lambda>enc.
          bind_opt (for_each_opt [0..<SUB_CNT] (code_band env gmms data lens gmm_scale)
            (take head bins, enc)) (\<lambda>(bins, enc).
          bind_opt (Some (ac_finish (ce_char_signed env) enc)) (\<lambda>enc.
          bind_opt (bit_finish (ce_char_signed env) (ac_out enc)) (\<lambda>bout.
          Some (Inr \<lparr> cr_data = bins @ bo_data bout, cr_length = bo_size bout + head \<rparr>))))))"

section \<open>A decoder\<close>

text \<open>
  What a receiver does with the result, knowing the mixtures, the lengths and the tables: it
  reads the range of every sub-band from the header, forms the statistics of every coefficient
  and decodes them in order. A sub-band whose range is one value is that value throughout.
\<close>

definition header_range :: "bytes \<Rightarrow> nat \<Rightarrow> int \<times> int" where
  "header_range out i = (sint (of_le16 (out ! (4 * i)) (out ! (4 * i + 1))),
     sint (of_le16 (out ! (4 * i + 2)) (out ! (4 * i + 3))))"

definition table_of :: "coding_env \<Rightarrow> int \<Rightarrow> int \<times> int \<Rightarrow> gmm_t \<Rightarrow> enc_table res" where
  "table_of env scale rg g =
     et_update [sint (prob1 g), sint (prob2 g), sint (prob3 g)]
       [sint (mean1 g), sint (mean2 g), sint (mean3 g)] [sint (std1 g), sint (std2 g), sint (std3 g)]
       ((EncTable (ce_exp_file env) (ce_cdf_file env) (ce_junk env) 1000000 (fst rg) (snd rg))
         \<lparr> et_scale_pred := scale \<rparr>)"

definition model_of :: "coding_env \<Rightarrow> u32 list \<Rightarrow> int \<Rightarrow> int \<times> int \<Rightarrow> gmm_t option \<Rightarrow> symbol_model" where
  "model_of env cdf scale rg cell = (case (case cell of None \<Rightarrow> Inl Uninit | Some g \<Rightarrow> table_of env scale rg g) of
      Inl _ \<Rightarrow> (0, \<lambda>_. 0, \<lambda>_. 0, fst rg, snd rg)
    | Inr et \<Rightarrow> (total_of cdf et, low_of cdf et, high_of cdf et, fst rg, snd rg))"

definition band_models :: "coding_env \<Rightarrow> u32 list \<Rightarrow> int \<Rightarrow> int \<times> int \<Rightarrow> gmm_t option list \<Rightarrow> symbol_model list" where
  "band_models env cdf scale rg gmm =
     (if fst rg \<ge> snd rg then [] else map (model_of env cdf scale rg) gmm)"

fun split_bands :: "((int \<times> int) \<times> nat) list \<Rightarrow> int list \<Rightarrow> int list list" where
  "split_bands [] xs = []"
| "split_bands ((rg, len) # bands) xs =
     (if fst rg \<ge> snd rg then replicate len (fst rg) # split_bands bands xs
      else take len xs # split_bands bands (drop len xs))"

definition decode_codings :: "coding_env \<Rightarrow> gmm_t option list list \<Rightarrow> nat list \<Rightarrow> int \<Rightarrow> bytes \<Rightarrow>
    int list list option" where
  "decode_codings env gmms lens scale out =
     (let cdf = fullwords (the (ce_cdf_file env)); ranges = map (header_range out) [0..<SUB_CNT] in
      map_option (split_bands (zip ranges lens))
        (decode (drop (SUB_CNT * 2 * 2) out) start_interval
          (concat (map (\<lambda>(rg, len, gmm). band_models env cdf scale rg (take len gmm))
            (zip ranges (zip lens gmms))))))"

section \<open>One sub-band\<close>

text \<open>What the tables and the mixtures have to be.\<close>

definition tables_ok :: "coding_env \<Rightarrow> bool" where
  "tables_ok env \<longleftrightarrow> (\<exists>e c. ce_exp_file env = Some e \<and> exp_ok (halfwords e) \<and>
     ce_cdf_file env = Some c \<and> cdf_ok (fullwords c))"

definition gmm_ok :: "gmm_t \<Rightarrow> bool" where
  "gmm_ok g \<longleftrightarrow> 0 < sint (std1 g) \<and> 0 < sint (std2 g) \<and> 0 < sint (std3 g)"

definition cell_ok :: "gmm_t option \<Rightarrow> bool" where
  "cell_ok cell = (case cell of None \<Rightarrow> False | Some g \<Rightarrow> gmm_ok g)"

definition cdf_of :: "coding_env \<Rightarrow> u32 list" where
  "cdf_of env = fullwords (the (ce_cdf_file env))"

definition fresh_table :: "coding_env \<Rightarrow> int \<Rightarrow> int \<times> int \<Rightarrow> enc_table" where
  "fresh_table env scale rg =
     (EncTable (ce_exp_file env) (ce_cdf_file env) (ce_junk env) 1000000 (fst rg) (snd rg))
       \<lparr> et_scale_pred := scale \<rparr>"

definition good_range :: "int \<times> int \<Rightarrow> bool" where
  "good_range rg \<longleftrightarrow> int16 (fst rg) \<and> int16 (snd rg) \<and> fst rg \<le> snd rg"

lemma int16_sint [simp]: "int16 (sint (x :: i16))"
  using sint_ge [of x] sint_lt [of x] by (simp add: int16_def)

lemma fresh_table_ok:
  assumes "tables_ok env" and "0 < scale" and "scale \<le> 32767" and "good_range rg"
  shows "range_ok (cdf_of env) (fresh_table env scale rg)"
    and "\<exists>e. et_exp_table (fresh_table env scale rg) = Some e \<and> exp_ok e"
  using assms
  by (auto simp add: tables_ok_def cdf_of_def fresh_table_def EncTable_def readBinaryFile_def
      range_ok_def good_range_def)

text \<open>
  \<open>update\<close> of a table of this range gives the statistics the decoder forms, whatever the table
  held before.
\<close>

lemma update_mixture_key:
  assumes "range_key et = range_key et'" and "et_update p m s et = Inr et1" and "et_update p m s et' = Inr et2"
  shows "mixture_key et1 = mixture_key et2"
  using assms by (auto simp add: et_update_def and_then_eq_Inr range_key_def mixture_key_def)

lemma update_statistics:
  assumes "tables_ok env" and "0 < scale" and "scale \<le> 32767" and "good_range rg" and "gmm_ok g"
    and "range_key et = range_key (fresh_table env scale rg)"
  shows "\<exists>et1. et_update [sint (prob1 g), sint (prob2 g), sint (prob3 g)]
      [sint (mean1 g), sint (mean2 g), sint (mean3 g)]
      [sint (std1 g), sint (std2 g), sint (std3 g)] et = Inr et1 \<and>
    range_key et1 = range_key et \<and> range_ok (cdf_of env) et1 \<and> mixture_ok et1 \<and>
    model_of env (cdf_of env) scale rg (Some g) =
      (total_of (cdf_of env) et1, low_of (cdf_of env) et1, high_of (cdf_of env) et1, fst rg, snd rg)"
proof -
  let ?up = "et_update [sint (prob1 g), sint (prob2 g), sint (prob3 g)]
    [sint (mean1 g), sint (mean2 g), sint (mean3 g)] [sint (std1 g), sint (std2 g), sint (std3 g)]"
  let ?f = "fresh_table env scale rg"
  obtain e where f: "range_ok (cdf_of env) ?f" "et_exp_table ?f = Some e" "exp_ok e"
    using fresh_table_ok [OF assms(1-4)] by blast
  have sc: "et_scale_pred ?f = scale" by (simp add: fresh_table_def)
  have k: "et_exp_table et = Some e" "et_scale_pred et = scale"
    using assms(6) f(2) sc by (simp_all add: range_key_def)
  have i: "list_all int16 [sint (prob1 g), sint (prob2 g), sint (prob3 g), sint (mean1 g),
      sint (mean2 g), sint (mean3 g), sint (std1 g), sint (std2 g), sint (std3 g)]" by simp
  obtain et2 where u2: "?up ?f = Inr et2"
    using et_update_eq [OF f(2,3) _ _ i] assms(2,3,5) sc by (auto simp add: gmm_ok_def)
  obtain et1 where u1: "?up et = Inr et1" "mixture_ok et1"
    using et_update_eq [OF k(1) f(3) _ _ i] assms(2,3,5) k(2) by (auto simp add: gmm_ok_def)
  have k1: "range_key et1 = range_key et" by (rule et_update_keeps [OF u1(1)])
  then have r1: "range_ok (cdf_of env) et1" using assms(6) f(1) range_ok_key by metis
  have "range_key et1 = range_key et2" using k1 et_update_keeps [OF u2] assms(6) by simp
  moreover have "mixture_key et1 = mixture_key et2" by (rule update_mixture_key [OF assms(6) u1(1) u2])
  ultimately have "model_of env (cdf_of env) scale rg (Some g) =
      (total_of (cdf_of env) et1, low_of (cdf_of env) et1, high_of (cdf_of env) et1, fst rg, snd rg)"
    using u2 parts_key [of et1 et2] by (simp add: model_of_def table_of_def fresh_table_def)
  with u1 k1 r1 show ?thesis by blast
qed

lemma parts_valid_model:
  assumes "range_ok cdf et" and "mixture_ok et"
  shows "valid_model (total_of cdf et, low_of cdf et, high_of cdf et, et_low_bound et, et_high_bound et)"
  unfolding valid_model_def prod.case valid_step_def
  using part_nonempty [OF assms] part_in_total [OF assms] parts_disjoint [OF assms] total_bound [OF assms]
  by auto

lemma model_of_valid:
  assumes "tables_ok env" and "0 < scale" and "scale \<le> 32767" and "good_range rg" and "cell_ok cell"
  shows "valid_model (model_of env (cdf_of env) scale rg cell)"
proof -
  obtain g where g: "cell = Some g" "gmm_ok g" using assms(5) by (auto simp add: cell_ok_def split: option.splits)
  obtain et1 where e: "range_key et1 = range_key (fresh_table env scale rg)" "range_ok (cdf_of env) et1"
      "mixture_ok et1" "model_of env (cdf_of env) scale rg cell =
        (total_of (cdf_of env) et1, low_of (cdf_of env) et1, high_of (cdf_of env) et1, fst rg, snd rg)"
    using update_statistics [OF assms(1-4) g(2) refl] g(1) by blast
  have "et_low_bound et1 = fst rg" "et_high_bound et1 = snd rg"
    using e(1) by (simp_all add: range_key_def fresh_table_def EncTable_def readBinaryFile_def Let_def
        split: option.splits)
  then show ?thesis using parts_valid_model [OF e(2,3)] e(4) by simp
qed

text \<open>
  The state of the coder after some symbols: it stands for the interval of their steps, which
  has at most 32 digits for each.
\<close>

definition after_steps :: "(nat \<times> nat \<times> nat) list \<Rightarrow> nat \<Rightarrow> coder \<Rightarrow> bool" where
  "after_steps ss n c \<longleftrightarrow> list_all valid_step ss \<and> length ss = n \<and> codes c (code_steps ss start_interval)"

lemma after_steps_facts:
  assumes "after_steps ss n c"
  shows "iv_normal (code_steps ss start_interval)" and "fst (snd (code_steps ss start_interval)) \<le> 32 * n"
proof -
  obtain k where "k \<le> 32 * length ss" "inside k start_interval (code_steps ss start_interval)"
      "iv_normal (code_steps ss start_interval)"
    using code_steps_spec [OF _ start_normal] assms by (auto simp add: after_steps_def)
  then show "iv_normal (code_steps ss start_interval)" "fst (snd (code_steps ss start_interval)) \<le> 32 * n"
    using assms by (auto simp add: after_steps_def inside_def start_interval_def split: prod.splits)
qed

lemma code_sample_step:
  assumes "tables_ok env" and "0 < scale" and "scale \<le> 32767" and "good_range rg" and "cell_ok (gmm ! p)"
    and "p < length gmm" and "p < length datum"
    and "fst rg \<le> sint (datum ! p)" and "sint (datum ! p) \<le> snd rg"
    and "range_key et = range_key (fresh_table env scale rg)" and "after_steps ss n c"
    and "32 * n + 32 \<le> capacity c" and "capacity c < 2 ^ 64"
  shows "\<exists>et' c'. code_sample env gmm datum p (et, c) = Some (Inr (et', c')) \<and>
    range_key et' = range_key et \<and> capacity c' = capacity c \<and>
    after_steps (ss @ [model_step (model_of env (cdf_of env) scale rg (gmm ! p)) (sint (datum ! p))]) (n + 1) c'"
proof -
  obtain g where g: "gmm ! p = Some g" "gmm_ok g" using assms(5) by (auto simp add: cell_ok_def split: option.splits)
  let ?x = "sint (datum ! p)" and ?cdf = "cdf_of env"
  let ?step = "model_step (model_of env ?cdf scale rg (Some g)) ?x"
  obtain et1 where u: "et_update [sint (prob1 g), sint (prob2 g), sint (prob3 g)]
      [sint (mean1 g), sint (mean2 g), sint (mean3 g)]
      [sint (std1 g), sint (std2 g), sint (std3 g)] et = Inr et1"
      "range_key et1 = range_key et" "range_ok ?cdf et1" "mixture_ok et1"
      "model_of env ?cdf scale rg (Some g) =
        (total_of ?cdf et1, low_of ?cdf et1, high_of ?cdf et1, fst rg, snd rg)"
    using update_statistics [OF assms(1-4) g(2) assms(10)] by blast
  have lh: "et_low_bound et1 = fst rg" "et_high_bound et1 = snd rg"
    using u(2) assms(10) by (simp_all add: range_key_def fresh_table_def EncTable_def readBinaryFile_def
        Let_def split: option.splits)
  obtain et2 where b: "get_bound ?x et1 = Inr et2" "unat (et_sym_low et2) = low_of ?cdf et1 ?x"
      "unat (et_sym_high et2) = high_of ?cdf et1 ?x" "unat (et_total_freqs et2) = total_of ?cdf et1"
    using get_bound_eq [OF u(3,4)] assms(8,9) lh by metis
  have st: "?step = step_of (et_total_freqs et2) (et_sym_low et2) (et_sym_high et2)"
    using b(2-4) by (simp add: model_step_def step_of_def u(5))
  have v: "valid_step ?step"
    using model_of_valid [OF assms(1-5)] unfolding g(1) by (rule model_step_valid) (simp add: in_model_def u(5) assms(8,9) case_prod_beta)
  note a = after_steps_facts [OF assms(11)]
  have "fst (snd (code_step ?step (code_steps ss start_interval))) \<le> capacity c"
    using code_step_digits [OF v a(1)] a(2) assms(12) by simp
  then obtain c' where w: "ac_write (ce_char_signed env) (et_total_freqs et2) (et_sym_low et2)
        (et_sym_high et2) c = Some (Inr c')" "capacity c' = capacity c"
      "codes c' (code_step ?step (code_steps ss start_interval))"
    using ac_write_codes [OF _ a(1) _ _ assms(13)] assms(11) v unfolding st after_steps_def by blast
  have "code_sample env gmm datum p (et, c) = Some (Inr (et2, c'))"
    using assms(6,7) g(1) b(1) u(1) w(1) by (simp add: code_sample_def Let_def)
  moreover have "range_key et2 = range_key et" using get_bound_keeps [OF b(1)] u(2) by simp
  moreover have "after_steps (ss @ [?step]) (n + 1) c'"
    using assms(11) v w(3) g(1) by (simp add: after_steps_def code_steps_def)
  ultimately show ?thesis using w(2) g(1) by auto
qed

text \<open>The inner loop, with the coefficients in the range of the sub-band.\<close>

definition band_values :: "nat \<Rightarrow> i16 list \<Rightarrow> int list" where
  "band_values len datum = map sint (take len datum)"

lemma code_samples_steps:
  assumes "tables_ok env" and "0 < scale" and "scale \<le> 32767" and "good_range rg"
    and "list_all cell_ok (take len gmm)" and "len \<le> length gmm" and "len \<le> length datum"
    and "\<forall>x \<in> set (band_values len datum). fst rg \<le> x \<and> x \<le> snd rg"
    and "range_key et = range_key (fresh_table env scale rg)" and "after_steps ss n c"
    and "32 * (n + len) \<le> capacity c" and "capacity c < 2 ^ 64"
  shows "\<exists>et' c'. for_each_opt [0..<len] (code_sample env gmm datum) (et, c) = Some (Inr (et', c')) \<and>
    capacity c' = capacity c \<and>
    after_steps (ss @ map2 model_step (map (model_of env (cdf_of env) scale rg) (take len gmm))
      (band_values len datum)) (n + len) c'"
proof -
  let ?step = "\<lambda>p. model_step (model_of env (cdf_of env) scale rg (gmm ! p)) (sint (datum ! p))"
  let ?I = "\<lambda>p (et', c'). range_key et' = range_key et \<and> capacity c' = capacity c \<and>
    after_steps (ss @ map ?step [0..<p]) (n + p) c'"
  have "\<exists>s'. for_each_opt [0..<len] (code_sample env gmm datum) (et, c) = Some (Inr s') \<and> ?I len s'"
  proof (rule for_each_opt_invariant)
    fix p s
    assume p: "p < len" and I: "?I p s"
    obtain et1 c1 where s: "s = (et1, c1)" by (metis surj_pair)
    have "cell_ok (gmm ! p)" using assms(5,6) p by (auto simp add: list_all_length)
    moreover have "sint (datum ! p) \<in> set (band_values len datum)"
      using p assms(7) nth_mem [of p "band_values len datum"] by (simp add: band_values_def)
    ultimately have "\<exists>et' c'. code_sample env gmm datum p (et1, c1) = Some (Inr (et', c')) \<and>
        range_key et' = range_key et1 \<and> capacity c' = capacity c1 \<and>
        after_steps ((ss @ map ?step [0..<p]) @ [?step p]) (n + p + 1) c'"
      using assms(1-4,6-9,11,12) p I unfolding s by (intro code_sample_step) simp_all
    then show "\<exists>s'. code_sample env gmm datum p s = Some (Inr s') \<and> ?I (Suc p) s'"
      using I unfolding s by auto
  qed (use assms(10) in simp_all)
  moreover have "map ?step [0..<len] = map2 model_step
      (map (model_of env (cdf_of env) scale rg) (take len gmm)) (band_values len datum)"
    using assms(6,7) by (intro nth_equalityI) (simp_all add: band_values_def)
  ultimately show ?thesis by auto
qed

section \<open>The header\<close>

lemma sint_word_of_int_i16: "int16 x \<Longrightarrow> sint (word_of_int x :: i16) = x"
  by (simp add: signed_of_int int16_def signed_take_bit_int_eq_self)

lemma write_header:
  assumes "length hdr = 156" and "i < 39" and "int16 a" and "int16 b"
  shows "\<exists>h1 h2. blit hdr (i * 2 * 2) (le16 (word_of_int a)) = Inr h1 \<and>
    blit h1 ((i * 2 + 1) * 2) (le16 (word_of_int b)) = Inr h2 \<and> length h2 = 156 \<and>
    header_range h2 i = (a, b) \<and> (\<forall>j < 39. j \<noteq> i \<longrightarrow> header_range h2 j = header_range hdr j)"
proof -
  let ?a = "le16 (word_of_int a)" and ?b = "le16 (word_of_int b)"
  define h1 where "h1 = take (4 * i) hdr @ ?a @ drop (4 * i + 2) hdr"
  define h2 where "h2 = take (4 * i) hdr @ (?a @ ?b) @ drop (Suc (Suc (4 * i + 2))) hdr"
  have "blit hdr (i * 2 * 2) ?a = Inr h1" "blit h1 ((i * 2 + 1) * 2) ?b = Inr h2"
    using assms(1,2) by (simp_all add: blit_def h1_def h2_def)
  moreover have "length h2 = 156" using assms(1,2) by (simp add: h2_def)
  moreover have n: "h2 ! (4 * i + k) = (?a @ ?b) ! k" if "k < 4" for k
  proof -
    have "h2 ! (length (take (4 * i) hdr) + k) = ((?a @ ?b) @ drop (Suc (Suc (4 * i + 2))) hdr) ! k"
      unfolding h2_def by (rule nth_append_length_plus)
    also have "\<dots> = (?a @ ?b) ! k" using that by (subst nth_append) simp
    finally show ?thesis using assms(1,2) by simp
  qed
  have "header_range h2 i = (a, b)"
    using n [of 0] n [of 1] n [of 2] n [of 3] assms(3,4)
    by (simp add: header_range_def le16_def sint_word_of_int_i16 nth_append)
  moreover have o: "h2 ! (4 * j + k) = hdr ! (4 * j + k)" if "k < 4" "j < 39" "j \<noteq> i" for j k
  proof -
    have "4 * j + k < 4 * i \<or> 4 * i + 4 \<le> 4 * j + k" using that(1,3) by linarith
    moreover have "hdr ! Suc (Suc (Suc (Suc (4 * j + k - 4)))) = hdr ! (4 * j + k)" if "4 * i + 4 \<le> 4 * j + k"
      using that by (intro arg_cong [of _ _ "(!) hdr"]) simp
    ultimately show ?thesis using assms(1,2) that(1,2) by (auto simp add: h2_def nth_append)
  qed
  have "\<forall>j < 39. j \<noteq> i \<longrightarrow> header_range h2 j = header_range hdr j"
  proof (intro allI impI)
    fix j :: nat
    assume "j < 39" "j \<noteq> i"
    then show "header_range h2 j = header_range hdr j"
      using o [of 0 j] o [of 1 j] o [of 2 j] o [of 3 j] by (simp add: header_range_def)
  qed
  ultimately show ?thesis by blast
qed

section \<open>All sub-bands\<close>

definition value_range :: "int list \<Rightarrow> int \<times> int" where
  "value_range xs = (Min (set xs), Max (set xs))"

definition coded_values :: "int list \<Rightarrow> int list" where
  "coded_values xs = (if fst (value_range xs) \<ge> snd (value_range xs) then [] else xs)"

text \<open>A sub-band that is one value throughout needs no mixtures.\<close>

definition constant_band :: "i16 list \<Rightarrow> nat \<Rightarrow> bool" where
  "constant_band datum len \<longleftrightarrow>
     snd (value_range (band_values len datum)) \<le> fst (value_range (band_values len datum))"

definition band_ok :: "gmm_t option list \<Rightarrow> i16 list \<Rightarrow> nat \<Rightarrow> bool" where
  "band_ok gmm datum len \<longleftrightarrow> 0 < len \<and> len < 2 ^ 31 \<and> len \<le> length datum \<and>
     (constant_band datum len \<or> len \<le> length gmm \<and> list_all cell_ok (take len gmm))"

lemma value_range_facts:
  assumes "xs \<noteq> []" and "list_all int16 xs"
  shows "good_range (value_range xs)"
    and "\<forall>x \<in> set xs. fst (value_range xs) \<le> x \<and> x \<le> snd (value_range xs)"
proof -
  have "Min (set xs) \<in> set xs" "Max (set xs) \<in> set xs" using assms(1) by simp_all
  then have "int16 (Min (set xs))" "int16 (Max (set xs))" using assms(2) by (auto simp add: list_all_iff)
  moreover show "\<forall>x \<in> set xs. fst (value_range xs) \<le> x \<and> x \<le> snd (value_range xs)"
    by (simp add: value_range_def)
  ultimately show "good_range (value_range xs)"
    using \<open>Max (set xs) \<in> set xs\<close> by (simp add: good_range_def value_range_def)
qed

lemma code_band_step:
  assumes "tables_ok env" and "0 < scale" and "scale \<le> 32767" and "i < 39"
    and "length gmms = 39" and "length data = 39" and "length lens = 39"
    and "band_ok (gmms ! i) (data ! i) (lens ! i)" and "length hdr = 156" and "after_steps ss n c"
    and "32 * (n + lens ! i) \<le> capacity c" and "capacity c < 2 ^ 64"
  defines "xs \<equiv> band_values (lens ! i) (data ! i)"
  shows "\<exists>hdr' c' m. code_band env gmms data lens scale i (hdr, c) = Some (Inr (hdr', c')) \<and>
    length hdr' = 156 \<and> header_range hdr' i = value_range xs \<and>
    (\<forall>j < 39. j \<noteq> i \<longrightarrow> header_range hdr' j = header_range hdr j) \<and> capacity c' = capacity c \<and>
    m \<le> lens ! i \<and>
    after_steps (ss @ map2 model_step
      (band_models env (cdf_of env) scale (value_range xs) (take (lens ! i) (gmms ! i)))
      (coded_values xs)) (n + m) c'"
proof -
  let ?len = "lens ! i" and ?gmm = "gmms ! i" and ?datum = "data ! i"
  let ?rg = "value_range xs"
  have b: "0 < ?len" "?len < 2 ^ 31" "?len \<le> length ?datum" using assms(8) by (simp_all add: band_ok_def)
  have "xs \<noteq> []" using b(1,3) by (auto simp add: xs_def band_values_def)
  moreover have "list_all int16 xs" by (simp add: xs_def band_values_def list_all_iff)
  ultimately have r: "good_range ?rg" "\<forall>x \<in> set xs. fst ?rg \<le> x \<and> x \<le> snd ?rg"
    using value_range_facts by blast+
  have ex: "extrema ?datum ?len = Inr (fst ?rg, snd ?rg)"
    using b by (simp add: extrema_def value_range_def xs_def band_values_def)
  obtain h1 h2 where h: "blit hdr (i * 2 * 2) (le16 (word_of_int (fst ?rg))) = Inr h1"
      "blit h1 ((i * 2 + 1) * 2) (le16 (word_of_int (snd ?rg))) = Inr h2" "length h2 = 156"
      "header_range h2 i = ?rg" "\<forall>j < 39. j \<noteq> i \<longrightarrow> header_range h2 j = header_range hdr j"
    using write_header [OF assms(9,4), of "fst ?rg" "snd ?rg"] r(1) by (auto simp add: good_range_def)
  have i: "i < length lens" "i < length gmms" "i < length data" using assms(4-7) by simp_all
  show ?thesis
  proof (cases "fst ?rg \<ge> snd ?rg")
    case True
    then have "code_band env gmms data lens scale i (hdr, c) = Some (Inr (h2, c))"
      using i ex h(1,2) by (simp add: code_band_def Let_def case_prod_beta)
    then show ?thesis
      using h(3-5) assms(10) True
      by (intro exI [of _ h2] exI [of _ c] exI [of _ 0]) (simp add: coded_values_def band_models_def)
  next
    case False
    then have m: "list_all cell_ok (take ?len ?gmm)" "?len \<le> length ?gmm"
      using assms(8) by (simp_all add: band_ok_def constant_band_def xs_def)
    obtain et' c' where l: "for_each_opt [0..<?len] (code_sample env ?gmm ?datum)
          (fresh_table env scale ?rg, c) = Some (Inr (et', c'))"
        "capacity c' = capacity c"
        "after_steps (ss @ map2 model_step (map (model_of env (cdf_of env) scale ?rg) (take ?len ?gmm)) xs)
           (n + ?len) c'"
      using code_samples_steps [OF assms(1-3) r(1) [unfolded xs_def] m b(3) r(2) [unfolded xs_def] refl assms(10-12)]
      unfolding xs_def by blast
    have "code_band env gmms data lens scale i (hdr, c) = Some (Inr (h2, c'))"
      using i ex h(1,2) l(1) False by (simp add: code_band_def Let_def fresh_table_def case_prod_beta)
    then show ?thesis
      using h(3-5) l(2,3) False
      by (intro exI [of _ h2] exI [of _ c'] exI [of _ ?len]) (simp add: coded_values_def band_models_def)
  qed
qed

section \<open>The result\<close>

lemma accumulate_lens_eq:
  assumes "length lens = 39" and "sum_list lens < 2 ^ 31"
  shows "unat (accumulate_lens lens * 8) = 8 * sum_list lens"
proof -
  have "foldl (\<lambda>acc l. acc + of_nat l) (a :: u32) ls = a + of_nat (sum_list ls)" for a ls
    by (induction ls arbitrary: a) simp_all
  then have "accumulate_lens lens = signed_take_bit 31 (ucast (of_nat (sum_list lens) :: u32))"
    using assms(1) by (simp add: accumulate_lens_def SUB_CNT_def)
  also have "\<dots> = signed_take_bit 31 (of_nat (sum_list lens) :: u64)" using assms(2) by simp
  also have "\<dots> = of_nat (sum_list lens)"
  proof -
    have s: "unat (of_nat (sum_list lens) :: u64) < 2 ^ 31" using assms(2) by simp
    then have "\<not> bit (of_nat (sum_list lens) :: u64) 31" by (rule not_bit_above) simp
    then have "signed_take_bit 31 (of_nat (sum_list lens) :: u64) = take_bit 31 (of_nat (sum_list lens))"
      by (rule signed_take_bit_eq_if_positive)
    also have "\<dots> = of_nat (sum_list lens)"
      using assms(2) by (simp add: take_bit_of_nat take_bit_nat_eq_self)
    finally show ?thesis .
  qed
  finally have "accumulate_lens lens * 8 = of_nat (sum_list lens * 8)" by simp
  moreover have "unat (of_nat (sum_list lens * 8) :: u64) = sum_list lens * 8"
    using assms(2) by (intro unat_of_nat_word) simp
  ultimately show ?thesis by (simp only: mult.commute)
qed

lemma zip_concat_map:
  assumes "\<forall>i \<in> set is. length (f i) = length (g i)"
  shows "zip (concat (map f is)) (concat (map g is)) = concat (map (\<lambda>i. zip (f i) (g i)) is)"
  using assms by (induction "is") (simp_all add: zip_append)

lemma list_all2_concat_map:
  assumes "\<forall>i \<in> set is. list_all2 P (f i) (g i)"
  shows "list_all2 P (concat (map f is)) (concat (map g is))"
  using assms by (induction "is") (auto intro: list_all2_appendI)

lemma constant_values:
  assumes "xs \<noteq> []" and "fst (value_range xs) \<ge> snd (value_range xs)"
  shows "replicate (length xs) (fst (value_range xs)) = xs"
proof -
  have "x = Min (set xs)" if "x \<in> set xs" for x
  proof -
    have "Min (set xs) \<le> x" "x \<le> Max (set xs)" using that by simp_all
    then show ?thesis using assms(2) by (simp add: value_range_def)
  qed
  then show ?thesis
    by (intro replicate_eqI [symmetric]) (simp_all add: value_range_def)
qed

lemma split_bands_coded:
  assumes "\<forall>j \<in> set js. v j \<noteq> []"
  shows "split_bands (map (\<lambda>j. (value_range (v j), length (v j))) js)
    (concat (map (\<lambda>j. coded_values (v j)) js)) = map v js"
  using assms
proof (induction js)
  case (Cons j js)
  then show ?case
    using constant_values [of "v j"]
    by (cases "fst (value_range (v j)) \<ge> snd (value_range (v j))") (simp_all add: coded_values_def)
qed simp

text \<open>The header and the steps of all sub-bands.\<close>

definition bands_ok :: "gmm_t option list list \<Rightarrow> i16 list list \<Rightarrow> nat list \<Rightarrow> bool" where
  "bands_ok gmms data lens \<longleftrightarrow> length gmms = 39 \<and> length data = 39 \<and> length lens = 39 \<and>
     (\<forall>i < 39. band_ok (gmms ! i) (data ! i) (lens ! i))"

definition band_value :: "i16 list list \<Rightarrow> nat list \<Rightarrow> nat \<Rightarrow> int list" where
  "band_value data lens i = band_values (lens ! i) (data ! i)"

definition models_at :: "coding_env \<Rightarrow> gmm_t option list list \<Rightarrow> i16 list list \<Rightarrow> nat list \<Rightarrow> int \<Rightarrow> nat \<Rightarrow>
    symbol_model list" where
  "models_at env gmms data lens scale i = band_models env (cdf_of env) scale
     (value_range (band_value data lens i)) (take (lens ! i) (gmms ! i))"

lemma all_bands_steps:
  assumes "tables_ok env" and "0 < scale" and "scale \<le> 32767" and "bands_ok gmms data lens"
    and "length hdr = 156" and "codes c start_interval" and "32 * sum_list lens \<le> capacity c"
    and "capacity c < 2 ^ 64"
  defines "v \<equiv> band_value data lens" and "m \<equiv> models_at env gmms data lens scale"
  shows "\<exists>hdr' c' n. for_each_opt [0..<39] (code_band env gmms data lens scale) (hdr, c) =
      Some (Inr (hdr', c')) \<and> length hdr' = 156 \<and> (\<forall>j < 39. header_range hdr' j = value_range (v j)) \<and>
    capacity c' = capacity c \<and> n \<le> sum_list lens \<and>
    after_steps (concat (map (\<lambda>i. map2 model_step (m i) (coded_values (v i))) [0..<39])) n c'"
proof -
  let ?steps = "\<lambda>i. concat (map (\<lambda>i. map2 model_step (m i) (coded_values (v i))) [0..<i])"
  let ?I = "\<lambda>i (hdr, c'). length hdr = 156 \<and> (\<forall>j < i. header_range hdr j = value_range (v j)) \<and>
    capacity c' = capacity c \<and> (\<exists>n \<le> sum_list (take i lens). after_steps (?steps i) n c')"
  have l: "length gmms = 39" "length data = 39" "length lens = 39"
    using assms(4) by (simp_all add: bands_ok_def)
  have "\<exists>s'. for_each_opt [0..<39] (code_band env gmms data lens scale) (hdr, c) = Some (Inr s') \<and> ?I 39 s'"
  proof (rule for_each_opt_invariant)
    fix i s
    assume i: "i < (39 :: nat)" and I: "?I i s"
    obtain h c1 where s: "s = (h, c1)" by (metis surj_pair)
    from I obtain n where n: "n \<le> sum_list (take i lens)" "after_steps (?steps i) n c1"
      and h: "length h = 156" "\<forall>j < i. header_range h j = value_range (v j)" "capacity c1 = capacity c"
      unfolding s by auto
    have sm: "sum_list (take (Suc i) lens) = sum_list (take i lens) + lens ! i"
      using i l by (simp add: take_Suc_conv_app_nth)
    moreover have "sum_list (take (Suc i) lens) \<le> sum_list lens"
      by (metis append_take_drop_id le_add1 sum_list_append)
    ultimately have room: "32 * (n + lens ! i) \<le> capacity c1" "capacity c1 < 2 ^ 64"
      using n(1) assms(7,8) h(3) by simp_all
    have "band_ok (gmms ! i) (data ! i) (lens ! i)" using assms(4) i by (simp add: bands_ok_def)
    from code_band_step [OF assms(1-3) i l this h(1) n(2) room] obtain h' c' k where r: "code_band env gmms data lens scale i (h, c1) = Some (Inr (h', c'))"
        "length h' = 156" "header_range h' i = value_range (v i)"
        "\<forall>j < 39. j \<noteq> i \<longrightarrow> header_range h' j = header_range h j" "capacity c' = capacity c1"
        "k \<le> lens ! i" "after_steps (?steps i @ map2 model_step (m i) (coded_values (v i))) (n + k) c'"
      unfolding v_def m_def band_value_def models_at_def by blast
    have "\<forall>j < Suc i. header_range h' j = value_range (v j)"
      using r(3,4) h(2) i by (auto simp add: less_Suc_eq)
    moreover have "n + k \<le> sum_list (take (Suc i) lens)" using n(1) r(6) sm by simp
    ultimately show "\<exists>s'. code_band env gmms data lens scale i s = Some (Inr s') \<and> ?I (Suc i) s'"
      using r h(3) unfolding s by (intro exI [of _ "(h', c')"]) auto
  qed (use assms(5,6) in \<open>simp_all add: after_steps_def\<close>)
  then show ?thesis using l by (auto split: prod.splits)
qed

lemma in_model_of: "in_model (model_of env cdf scale rg cell) x \<longleftrightarrow> fst rg \<le> x \<and> x \<le> snd rg"
  by (simp add: in_model_def model_of_def case_prod_beta split: sum.split option.split)

lemma band_ok_values:
  assumes "band_ok gmm datum len"
  shows "band_values len datum \<noteq> []" and "length (band_values len datum) = len"
    and "list_all int16 (band_values len datum)"
  using assms by (auto simp add: band_values_def band_ok_def list_all_iff)

lemma band_models_fit:
  assumes "tables_ok env" and "0 < scale" and "scale \<le> 32767" and "band_ok gmm datum len"
  defines "rg \<equiv> value_range (band_values len datum)"
  defines "ms \<equiv> band_models env (cdf_of env) scale rg (take len gmm)"
  shows "list_all2 in_model ms (coded_values (band_values len datum))" and "list_all valid_model ms"
proof -
  note v = band_ok_values [OF assms(4)]
  note r = value_range_facts [OF v(1,3), folded rg_def]
  have g: "snd rg \<le> fst rg \<or> len \<le> length gmm \<and> list_all cell_ok (take len gmm)"
    using assms(4) by (auto simp add: band_ok_def constant_band_def rg_def)
  show "list_all valid_model ms"
    using g model_of_valid [OF assms(1-3) r(1)] by (auto simp add: ms_def band_models_def list_all_iff)
  show "list_all2 in_model ms (coded_values (band_values len datum))"
    using r(2) v(2) g nth_mem [of _ "band_values len datum"]
    by (auto simp add: ms_def band_models_def coded_values_def rg_def [symmetric] list_all2_conv_all_nth
        in_model_of)
qed

text \<open>The decoder on a header and a stream that names the interval of the steps.\<close>

lemma decode_bands:
  assumes "tables_ok env" and "0 < scale" and "scale \<le> 32767" and "bands_ok gmms data lens"
    and "length hdr = 156" and "\<forall>j < 39. header_range hdr j = value_range (band_value data lens j)"
    and "names stream (code_steps (concat (map (\<lambda>i. map2 model_step (models_at env gmms data lens scale i)
      (coded_values (band_value data lens i))) [0..<39])) start_interval)"
  shows "decode_codings env gmms lens scale (hdr @ stream) = Some (map2 band_values lens data)"
proof -
  let ?v = "band_value data lens" and ?m = "models_at env gmms data lens scale"
  let ?ms = "concat (map ?m [0..<39])" and ?xs = "concat (map (\<lambda>i. coded_values (?v i)) [0..<39])"
  have l: "length gmms = 39" "length data = 39" "length lens = 39"
    and bo: "\<And>i. i < 39 \<Longrightarrow> band_ok (gmms ! i) (data ! i) (lens ! i)"
    using assms(4) by (simp_all add: bands_ok_def)
  note v = band_ok_values [OF bo, folded band_value_def]
  have rg: "map (header_range (hdr @ stream)) [0..<39] = map (\<lambda>j. value_range (?v j)) [0..<39]"
    using assms(5,6) by (intro map_cong refl) (auto simp add: header_range_def nth_append)
  have ms: "concat (map (\<lambda>(rg, len, gmm). band_models env (cdf_of env) scale rg (take len gmm))
      (zip (map (\<lambda>j. value_range (?v j)) [0..<39]) (zip lens gmms))) = ?ms"
    using l by (intro arg_cong [of _ _ concat] nth_equalityI) (simp_all add: models_at_def)
  have fit: "list_all2 in_model (?m i) (coded_values (?v i))" "list_all valid_model (?m i)" if "i < 39" for i
    using band_models_fit [OF assms(1-3) bo [OF that]] by (simp_all add: models_at_def band_value_def)
  have "list_all2 in_model ?ms ?xs" using fit(1) by (intro list_all2_concat_map) simp
  moreover have "list_all valid_model ?ms" using fit(2) by (auto simp add: list_all_iff)
  moreover have "map2 model_step ?ms ?xs =
      concat (map (\<lambda>i. map2 model_step (?m i) (coded_values (?v i))) [0..<39])"
    using fit(1) [THEN list_all2_lengthD] by (subst zip_concat_map) (simp_all add: map_concat comp_def)
  ultimately have "decode stream start_interval ?ms = Some ?xs"
    using decode_coded [OF _ _ start_normal] assms(7) by simp
  moreover have "zip (map (\<lambda>j. value_range (?v j)) [0..<39]) lens =
      map (\<lambda>j. (value_range (?v j), length (?v j))) [0..<39]"
    using l v(2) by (intro nth_equalityI) simp_all
  moreover have "map ?v [0..<39] = map2 band_values lens data"
    using l by (intro nth_equalityI) (simp_all add: band_value_def)
  ultimately show ?thesis
    using split_bands_coded [of "[0..<39]" ?v] v(1) assms(5)
    unfolding decode_codings_def SUB_CNT_def Let_def cdf_of_def [symmetric] rg ms by simp
qed

text \<open>How many coefficients are coded: those of a sub-band that is one value throughout are not.\<close>

definition coded_count :: "i16 list list \<Rightarrow> nat list \<Rightarrow> nat" where
  "coded_count data lens = sum_list (map (\<lambda>i. length (coded_values (band_value data lens i))) [0..<39])"

lemma coded_count_le:
  assumes "bands_ok gmms data lens"
  shows "coded_count data lens \<le> sum_list lens"
proof -
  have l: "length lens = 39" using assms by (simp add: bands_ok_def)
  have "coded_count data lens \<le> sum_list (map (\<lambda>i. lens ! i) [0..<39])"
    unfolding coded_count_def
    by (intro sum_list_mono) (simp add: coded_values_def band_value_def band_values_def)
  also have "map (\<lambda>i. lens ! i) [0..<39] = lens" using map_nth [of lens] l by simp
  finally show ?thesis .
qed

lemma coded_count_constant:
  assumes "\<forall>i < 39. constant_band (data ! i) (lens ! i)"
  shows "coded_count data lens = 0"
proof -
  have "map (\<lambda>i. length (coded_values (band_value data lens i))) [0..<39] = map (\<lambda>i. 0) [0..<39]"
    using assms by (intro map_cong refl) (simp add: constant_band_def coded_values_def band_value_def)
  then show ?thesis by (simp only: coded_count_def sum_list_0)
qed

text \<open>Where every sub-band is one value, the mixtures do not matter to the decoder.\<close>

lemma decode_constant:
  assumes "\<forall>j < 39. snd (header_range out j) \<le> fst (header_range out j)"
    and "length gmms = 39" and "length gmms' = 39" and "length lens = 39"
  shows "decode_codings env gmms lens scale out = decode_codings env gmms' lens scale out"
proof -
  have "map (\<lambda>(rg, len, gmm). band_models env cdf scale rg (take len gmm))
      (zip (map (header_range out) [0..<39]) (zip lens gs)) = replicate 39 []" if "length gs = 39" for gs cdf
    using assms(1,4) that by (intro nth_equalityI) (simp_all add: band_models_def)
  then show ?thesis using assms(2,3) by (simp add: decode_codings_def SUB_CNT_def Let_def)
qed

text \<open>The round trip as a fact for the clients of the coder.\<close>

lemma codings_invertible:
  assumes "tables_ok env" and "0 < scale" and "scale \<le> 32767" and "bands_ok gmms data lens"
    and "40 \<le> sum_list lens" and "sum_list lens < 2 ^ 31"
    and "ce_malloc env (8 * sum_list lens) = Some bins" and "length bins = 8 * sum_list lens"
  shows "\<exists>r. codings env gmms data lens scale = Some (Inr r) \<and>
    156 \<le> cr_length r \<and> cr_length r \<le> length (cr_data r) \<and>
    cr_length r \<le> 4 * coded_count data lens + 157 \<and> coded_count data lens \<le> sum_list lens \<and>
    (\<forall>j < 39. header_range (take (cr_length r) (cr_data r)) j = value_range (band_value data lens j)) \<and>
    decode_codings env gmms lens scale (take (cr_length r) (cr_data r)) = Some (map2 band_values lens data)"
proof -
  let ?ss = "concat (map (\<lambda>i. map2 model_step (models_at env gmms data lens scale i)
    (coded_values (band_value data lens i))) [0..<39])"
  have l: "length lens = 39" using assms(4) by (simp add: bands_ok_def)
  obtain c where c: "ArithmeticEncoder 32 (BitOutputStream (drop 156 bins)) = Inr c"
      "codes c start_interval" "capacity c = 8 * length (drop 156 bins)"
    using ArithmeticEncoder_codes by blast
  have room: "32 * sum_list lens + 1 \<le> capacity c" "capacity c < 2 ^ 64"
    using assms(5,6,8) by (simp_all add: c(3))
  obtain hdr c1 n where b: "for_each_opt [0..<39] (code_band env gmms data lens scale) (take 156 bins, c)
        = Some (Inr (hdr, c1))" "length hdr = 156" "\<forall>j < 39. header_range hdr j = value_range (band_value data lens j)"
      "capacity c1 = capacity c" "n \<le> sum_list lens" "after_steps ?ss n c1"
    using all_bands_steps [OF assms(1-4) _ c(2) _ room(2), of "take 156 bins"] room(1) assms(5,8) by auto
  note a = after_steps_facts [OF b(6)]
  have "codes c1 (code_steps ?ss start_interval)" using b(6) by (simp add: after_steps_def)
  moreover have "fst (snd (code_steps ?ss start_interval)) + 1 \<le> capacity c1"
    using a(2) b(4,5) room(1) by simp
  ultimately obtain c2 bo where f: "ac_finish (ce_char_signed env) c1 = Inr c2"
      "bit_finish (ce_char_signed env) (ac_out c2) = Some (Inr bo)" "bo_size bo \<le> length (bo_data bo)"
      "8 * bo_size bo \<le> fst (snd (code_steps ?ss start_interval)) + 8"
      "names (take (bo_size bo) (bo_data bo)) (code_steps ?ss start_interval)"
    using finish_names [OF _ a(1)] by blast
  define r where "r = \<lparr> cr_data = hdr @ bo_data bo, cr_length = bo_size bo + 156 \<rparr>"
  have "codings env gmms data lens scale = Some (Inr r)"
    using accumulate_lens_eq [OF l assms(6)] assms(7) c(1) b(1) f(1,2)
    by (simp add: codings_def SUB_CNT_def Let_def r_def)
  moreover have "cr_length r \<le> length (cr_data r)" using b(2) f(3) by (simp add: r_def)
  moreover have "length ?ss \<le> coded_count data lens"
    unfolding coded_count_def length_concat map_map comp_def by (rule sum_list_mono) simp
  then have "cr_length r \<le> 4 * coded_count data lens + 157" using f(4) a(2) b(6) by (simp add: r_def after_steps_def)
  moreover have "coded_count data lens \<le> sum_list lens" by (rule coded_count_le [OF assms(4)])
  moreover have "156 \<le> cr_length r" by (simp add: r_def)
  moreover have "\<forall>j < 39. header_range (take (cr_length r) (cr_data r)) j = value_range (band_value data lens j)"
    using b(2,3) by (auto simp add: r_def header_range_def nth_append)
  moreover have "decode_codings env gmms lens scale (take (cr_length r) (cr_data r)) =
      Some (map2 band_values lens data)"
    using decode_bands [OF assms(1-4) b(2,3) f(5)] b(2) by (simp add: r_def)
  ultimately show ?thesis by blast
qed

section \<open>Mixtures that were never written\<close>

text \<open>
  What a sub-band of more than one value needs its mixtures for: the first that has not been written
  ends the coder, when those before it are in order.
\<close>

definition unwritten_band :: "gmm_t option list \<Rightarrow> nat \<Rightarrow> bool" where
  "unwritten_band gmm len \<longleftrightarrow>
     (\<exists>k < len. k < length gmm \<and> gmm ! k = None \<and> list_all cell_ok (take k gmm))"

definition sized_bands :: "gmm_t option list list \<Rightarrow> i16 list list \<Rightarrow> nat list \<Rightarrow> bool" where
  "sized_bands gmms data lens \<longleftrightarrow> length gmms = 39 \<and> length data = 39 \<and> length lens = 39 \<and>
     (\<forall>i < 39. 0 < lens ! i \<and> lens ! i < 2 ^ 31 \<and> lens ! i \<le> length (data ! i))"

lemma code_samples_uninit:
  assumes "tables_ok env" and "0 < scale" and "scale \<le> 32767" and "good_range rg"
    and "unwritten_band gmm len" and "len \<le> length datum"
    and "\<forall>x \<in> set (band_values len datum). fst rg \<le> x \<and> x \<le> snd rg"
    and "after_steps ss n c" and "32 * (n + len) \<le> capacity c" and "capacity c < 2 ^ 64"
  shows "for_each_opt [0..<len] (code_sample env gmm datum) (fresh_table env scale rg, c) = Some (Inl Uninit)"
proof -
  obtain k where k: "k < len" "k < length gmm" "gmm ! k = None" "list_all cell_ok (take k gmm)"
    using assms(5) by (auto simp add: unwritten_band_def)
  have "set (band_values k datum) \<subseteq> set (band_values len datum)"
    using set_take_subset_set_take [of k len datum] k(1) by (auto simp add: band_values_def)
  then obtain et' c' where l: "for_each_opt [0..<k] (code_sample env gmm datum) (fresh_table env scale rg, c) =
      Some (Inr (et', c'))"
    using code_samples_steps [OF assms(1-4) k(4) _ _ _ refl assms(8) _ assms(10), of datum] k assms(6,7,9) by force
  have "[0..<len] = [0..<k] @ k # [Suc k..<len]"
    using k(1) by (metis add_0 le_add_diff_inverse less_imp_le_nat upt_add_eq_append upt_conv_Cons zero_le)
  moreover have "code_sample env gmm datum k (et', c') = Some (Inl Uninit)"
    using k(2,3) by (simp add: code_sample_def)
  ultimately show ?thesis using l by (simp add: for_each_opt_append)
qed

lemma code_band_head:
  assumes "sized_bands gmms data lens" and "i < 39" and "length hdr = 156"
  defines "rg \<equiv> value_range (band_values (lens ! i) (data ! i))"
  shows "\<exists>h. length h = 156 \<and> code_band env gmms data lens scale i (hdr, c) =
    (if constant_band (data ! i) (lens ! i) then Some (Inr (h, c))
     else bind_opt (for_each_opt [0..<lens ! i] (code_sample env (gmms ! i) (data ! i)) (fresh_table env scale rg, c))
       (\<lambda>(freqs_table, enc). Some (Inr (h, enc))))"
proof -
  let ?len = "lens ! i" and ?datum = "data ! i"
  have b: "0 < ?len" "?len < 2 ^ 31" "?len \<le> length ?datum" and i: "i < length lens" "i < length gmms" "i < length data"
    using assms(1,2) by (simp_all add: sized_bands_def)
  have "band_values ?len ?datum \<noteq> []" "list_all int16 (band_values ?len ?datum)"
    using b(1,3) by (auto simp add: band_values_def list_all_iff)
  then have r: "good_range rg" using value_range_facts unfolding rg_def by blast
  have ex: "extrema ?datum ?len = Inr (fst rg, snd rg)"
    using b by (simp add: extrema_def value_range_def rg_def band_values_def)
  obtain h1 h2 where "blit hdr (i * 2 * 2) (le16 (word_of_int (fst rg))) = Inr h1"
      "blit h1 ((i * 2 + 1) * 2) (le16 (word_of_int (snd rg))) = Inr h2" "length h2 = 156"
    using write_header [OF assms(3,2), of "fst rg" "snd rg"] r by (auto simp add: good_range_def)
  then show ?thesis
    using i ex unfolding rg_def
    by (intro exI [of _ h2]) (simp add: code_band_def Let_def case_prod_beta constant_band_def fresh_table_def)
qed

lemma codings_uninit:
  assumes "tables_ok env" and "0 < scale" and "scale \<le> 32767" and "sized_bands gmms data lens"
    and "40 \<le> sum_list lens" and "sum_list lens < 2 ^ 31"
    and "ce_malloc env (8 * sum_list lens) = Some bins" and "length bins = 8 * sum_list lens"
    and "\<And>i. i < 39 \<Longrightarrow> constant_band (data ! i) (lens ! i) \<or> unwritten_band (gmms ! i) (lens ! i)"
    and "\<exists>i < 39. \<not> constant_band (data ! i) (lens ! i)"
  shows "codings env gmms data lens scale = Some (Inl Uninit)"
proof -
  define k where "k = (LEAST i. i < 39 \<and> \<not> constant_band (data ! i) (lens ! i))"
  have k: "k < 39" "\<not> constant_band (data ! k) (lens ! k)"
    using LeastI_ex [OF assms(10)] by (auto simp add: k_def)
  have before: "constant_band (data ! i) (lens ! i)" if "i < k" for i
    using not_less_Least [of i "\<lambda>i. i < 39 \<and> \<not> constant_band (data ! i) (lens ! i)"] that k(1)
    by (simp add: k_def)
  have l: "length lens = 39" using assms(4) by (simp add: sized_bands_def)
  obtain c where c: "ArithmeticEncoder 32 (BitOutputStream (drop 156 bins)) = Inr c"
      "codes c start_interval" "capacity c = 8 * length (drop 156 bins)"
    using ArithmeticEncoder_codes by blast
  have "lens ! k \<le> sum_list lens" using k(1) l by (simp add: elem_le_sum_list)
  then have room: "32 * (0 + lens ! k) \<le> capacity c" "capacity c < 2 ^ 64"
    using assms(5,6,8) by (simp_all add: c(3))
  let ?rg = "value_range (band_values (lens ! k) (data ! k))"
  have b: "0 < lens ! k" "lens ! k \<le> length (data ! k)" using assms(4) k(1) by (simp_all add: sized_bands_def)
  then have "band_values (lens ! k) (data ! k) \<noteq> []" "list_all int16 (band_values (lens ! k) (data ! k))"
    by (auto simp add: band_values_def list_all_iff)
  note r = value_range_facts [OF this]
  have "after_steps [] 0 c" using c(2) by (simp add: after_steps_def code_steps_def)
  then have stop: "for_each_opt [0..<lens ! k] (code_sample env (gmms ! k) (data ! k)) (fresh_table env scale ?rg, c) =
      Some (Inl Uninit)"
    using code_samples_uninit [OF assms(1-3) r(1) _ b(2) r(2) _ room] assms(9) [OF k(1)] k(2) by blast
  have "for_each_opt [0..<39] (code_band env gmms data lens scale) (take 156 bins, c) = Some (Inl Uninit)"
  proof (rule for_each_opt_stops [where k = k and I = "\<lambda>_ (h :: bytes, c'). length h = 156 \<and> c' = c"])
    fix i and st :: "bytes \<times> coder"
    assume "i < k" and "case st of (h, c') \<Rightarrow> length h = 156 \<and> c' = c"
    then show "\<exists>s'. code_band env gmms data lens scale i st = Some (Inr s') \<and>
        (case s' of (h, c') \<Rightarrow> length h = 156 \<and> c' = c)"
      using code_band_head [OF assms(4), of i "fst st" env scale c] before k(1) by (cases st) auto
  next
    fix st :: "bytes \<times> coder"
    assume "case st of (h, c') \<Rightarrow> length h = 156 \<and> c' = c"
    then show "code_band env gmms data lens scale k st = Some (Inl Uninit)"
      using code_band_head [OF assms(4) k(1), of "fst st" env scale c] k(2) stop by (cases st) auto
  qed (use k(1) assms(5,8) in simp_all)
  then show ?thesis
    using accumulate_lens_eq [OF l assms(6)] assms(7) c(1)
    by (simp add: codings_def SUB_CNT_def Let_def)
qed

section \<open>Properties\<close>

text \<open>
  C5: the entropy coder loses nothing. For 39 sub-bands of at least one coefficient each, with
  mixtures whose deviations are positive, tables of their full size, and at least 40 coefficients
  in all, \<open>codings\<close> returns, with at most four bytes for a coefficient behind the header and one
  at the end, and the decoder gives all the coefficients back.
\<close>

theorem codings_roundtrip:
  assumes "tables_ok env" and "0 < scale" and "scale \<le> 32767" and "bands_ok gmms data lens"
    and "40 \<le> sum_list lens" and "sum_list lens < 2 ^ 31"
    and "ce_malloc env (8 * sum_list lens) = Some bins" and "length bins = 8 * sum_list lens"
  shows "\<exists>r. codings env gmms data lens scale = Some (Inr r) \<and>
    cr_length r \<le> length (cr_data r) \<and> cr_length r \<le> 4 * sum_list lens + 157 \<and>
    decode_codings env gmms lens scale (take (cr_length r) (cr_data r)) = Some (map2 band_values lens data)"
  using codings_invertible [OF assms] by (metis add_le_mono1 le_trans mult_le_mono2)

text \<open>
  For instance 39 times two coefficients under the same mixture, with constant tables.
\<close>

lemma halfwords_replicate: "halfwords (replicate (2 * n) b) = replicate n (of_le16 b b)"
  by (induction n) simp_all

lemma fullwords_replicate: "fullwords (replicate (4 * n) b) = replicate n (of_le32 b b b b)"
  by (induction n) (simp_all add: numeral_eq_Suc)

definition flat_env :: coding_env where
  "flat_env = \<lparr> ce_exp_file = Some (replicate (2 * 12001) 1), ce_cdf_file = Some (replicate (4 * 100001) 1),
     ce_char_signed = False, ce_malloc = (\<lambda>n. Some (replicate n 0)), ce_junk = (0, 0, 0) \<rparr>"

definition flat_gmm :: gmm_t where
  "flat_gmm = \<lparr> prob1 = 1, prob2 = 2, prob3 = 3, mean1 = 0, mean2 = 1000, mean3 = 2000,
     std1 = 10, std2 = 20, std3 = 30 \<rparr>"

lemma flat_tables_ok: "tables_ok flat_env"
proof -
  have "exp_ok (halfwords (replicate (2 * 12001) 1))"
    unfolding halfwords_replicate exp_ok_def length_replicate by (simp add: nth_replicate of_le16_def)
  moreover have "cdf_ok (fullwords (replicate (4 * 100001) 1))"
    unfolding fullwords_replicate cdf_ok_def length_replicate by (simp add: sorted_replicate)
  ultimately show ?thesis unfolding tables_ok_def flat_env_def by (auto simp only: coding_env.simps)
qed

theorem codings_roundtrip_witness:
  "\<exists>r. codings flat_env (replicate 39 [Some flat_gmm, Some flat_gmm]) (replicate 39 [3, 65534]) (replicate 39 2) 10000
      = Some (Inr r) \<and> cr_length r \<le> length (cr_data r) \<and> cr_length r \<le> 4 * 78 + 157 \<and>
    decode_codings flat_env (replicate 39 [Some flat_gmm, Some flat_gmm]) (replicate 39 2) 10000
      (take (cr_length r) (cr_data r)) = Some (replicate 39 [3, -2])"
proof -
  have "bands_ok (replicate 39 [Some flat_gmm, Some flat_gmm]) (replicate 39 [3, 65534]) (replicate 39 2)"
    by (simp add: bands_ok_def band_ok_def cell_ok_def gmm_ok_def flat_gmm_def)
  moreover have "ce_malloc flat_env (8 * sum_list (replicate 39 2)) = Some (replicate 624 0)"
    by (simp add: flat_env_def sum_list_replicate)
  moreover have "map2 band_values (replicate 39 2) (replicate 39 [3, 65534]) = replicate 39 [3, -2]"
    by (simp add: band_values_def zip_replicate)
  ultimately show ?thesis
    using codings_roundtrip [OF flat_tables_ok, of 10000 "replicate 39 [Some flat_gmm, Some flat_gmm]"
        "replicate 39 [3, 65534]" "replicate 39 2" "replicate 624 0"]
    by (simp add: sum_list_replicate)
qed

end
