(* ===== verification/Encoding.thy ===== *)
theory Encoding
  imports Slave Codings
begin

text \<open>
  \<open>process_data_frames\<close> of \<^verbatim>\<open>main.c\<close> with the entropy coder of \<^verbatim>\<open>coding.cpp\<close> in its place: the
  theory joins \<open>Slave\<close>, where the coder is a parameter, and \<open>Codings\<close>, where the sub-bands are
  arguments. The coder needs a mixture for every coefficient of a sub-band that is not one value
  throughout, but only every ninth is written: on such a sub-band it reads memory that nobody has
  written. On all other pictures the stream holds all the coefficients of the accelerator.
\<close>

section \<open>Cutting a channel into sub-bands\<close>

lemma concat_bands:
  "length xs = sum_list ls \<Longrightarrow>
    concat (map (\<lambda>i. take (ls ! i) (drop (sum_list (take i ls)) xs)) [0..<length ls]) = xs"
proof (induction ls arbitrary: xs)
  case (Cons l ls)
  have "concat (map (\<lambda>i. take (ls ! i) (drop (sum_list (take i ls)) (drop l xs))) [0..<length ls]) = drop l xs"
    using Cons.prems by (intro Cons.IH) simp
  moreover have "(\<lambda>i. take (ls ! i) (drop (l + sum_list (take i ls)) xs)) =
      (\<lambda>i. take (ls ! i) (drop (sum_list (take i ls)) (drop l xs)))"
    by (simp add: add.commute)
  ultimately show ?case by (simp add: map_upt_Suc del: upt_Suc drop_drop)
qed simp

definition channel_lens :: "nat \<Rightarrow> nat list" where
  "channel_lens k = take 13 (drop (13 * k) lens)"

definition channel_len :: "nat \<Rightarrow> nat" where
  "channel_len k = sum_list (channel_lens k)"

lemma lens_channels: "lens = channel_lens 0 @ channel_lens 1 @ channel_lens 2"
  by (simp add: channel_lens_def lens_def)

lemma channel_lens_length: "k < 3 \<Longrightarrow> length (channel_lens k) = 13"
  by (simp add: channel_lens_def lens_def)

lemma channel_len_values: "channel_len 0 = 8294400" "channel_len 1 = 2088960" "channel_len 2 = 2088960"
  by (simp_all add: channel_len_def channel_lens_def lens_def)

lemma channel_len_sum: "sum_list lens = channel_len 0 + channel_len 1 + channel_len 2"
  by (subst lens_channels) (simp add: channel_len_def)

lemma channel_len_pos:
  assumes "k < 3"
  shows "0 < channel_len k \<and> channel_len k \<le> 8294400"
proof -
  have "k = 0 \<or> k = 1 \<or> k = 2" using assms by linarith
  then show ?thesis using channel_len_values by auto
qed

lemma channel_lens_pos: "k < 3 \<Longrightarrow> i < 13 \<Longrightarrow> 0 < channel_lens k ! i"
proof -
  have "list_all (\<lambda>l. 0 < l) lens" by (simp add: lens_def)
  then show "k < 3 \<Longrightarrow> i < 13 \<Longrightarrow> ?thesis"
    by (auto simp add: channel_lens_def lens_def list_all_length)
qed

text \<open>The offset of a sub-band and its length stay inside the channel.\<close>

lemma channel_offset:
  assumes "k < 3" and "i < 13"
  shows "sum_list (take i (channel_lens k)) + channel_lens k ! i \<le> channel_len k"
proof -
  have "channel_lens k = take i (channel_lens k) @ channel_lens k ! i # drop (Suc i) (channel_lens k)"
    using assms by (intro id_take_nth_drop) (simp add: channel_lens_length)
  then have "channel_len k = sum_list (take i (channel_lens k) @ channel_lens k ! i # drop (Suc i) (channel_lens k))"
    by (simp only: channel_len_def)
  then show ?thesis by simp
qed

lemma sub_bands_eq:
  assumes "k < 3"
  shows "sub_bands k gmm cs = (map (\<lambda>i. drop (sum_list (take i (channel_lens k))) gmm) [0..<13],
    map (\<lambda>i. drop (sum_list (take i (channel_lens k))) cs) [0..<13])"
  by (simp add: sub_bands_def channel_lens_def Let_def comp_def min_def)

lemma band_values_sub_bands:
  assumes "k < 3" and "length cs = channel_len k"
  shows "concat (map2 band_values (channel_lens k) (snd (sub_bands k gmm cs))) = map sint cs"
proof -
  have "map2 band_values (channel_lens k) (snd (sub_bands k gmm cs)) = map (map sint)
      (map (\<lambda>i. take (channel_lens k ! i) (drop (sum_list (take i (channel_lens k))) cs)) [0..<13])"
    using assms(1) by (intro nth_equalityI)
      (simp_all add: sub_bands_eq channel_lens_length band_values_def)
  then show ?thesis
    using concat_bands [of cs "channel_lens k"] assms
    by (simp add: map_concat [symmetric] channel_lens_length channel_len_def del: map_map)
qed

lemma sub_band_sized:
  assumes "k < 3" and "i < 13" and "length cs = channel_len k"
  shows "0 < channel_lens k ! i \<and> channel_lens k ! i < 2 ^ 31 \<and>
    channel_lens k ! i \<le> length (snd (sub_bands k gmm cs) ! i)"
proof -
  have "channel_lens k ! i \<le> 8294400"
    using channel_offset [OF assms(1,2)] channel_len_pos [OF assms(1)] by linarith
  then show ?thesis
    using channel_offset [OF assms(1,2)] channel_lens_pos [OF assms(1,2)] assms
    by (auto simp add: sub_bands_eq)
qed

section \<open>The channels and their mixtures\<close>

text \<open>
  \<open>process_data_frames\<close> up to the entropy coding: the addresses of the two results of every
  channel with the registers that came with them, \<open>status\<close> and the device.
\<close>

definition picture_channels :: "env_t \<Rightarrow> data_frame_t list \<Rightarrow> u16 \<Rightarrow> u16 \<Rightarrow> pl_dev \<Rightarrow>
    ((u64 \<times> u64 \<times> network_acc_reg) list \<times> u16 \<times> pl_dev) res" where
  "picture_channels env frames n_frame status dev =
     and_then (data_frame_to_data_len frames n_frame) (\<lambda>yuv_len.
     and_then (if 0 < yuv_len \<and> \<not> e_malloc env yuv_len then Inl NullDeref
               else data_frames_to_data frames n_frame (replicate yuv_len 0)) (\<lambda>addr.
     and_then (make_yuv addr dev) (\<lambda>(yuv, dev).
     and_then (encode_channel env (yuv ! 0) (status, e_reg env, dev)) (\<lambda>(t0, e0, status, reg0, dev).
     and_then (encode_channel env (yuv ! 1) (status, reg0, dev)) (\<lambda>(t1, e1, status, reg1, dev).
     and_then (encode_channel env (yuv ! 2) (status, reg1, dev)) (\<lambda>(t2, e2, status, reg2, dev).
     Inr ([(t0, e0, reg0), (t1, e1, reg1), (t2, e2, reg2)], status, dev)))))))"

text \<open>The channels depend on the bytes the frames carry only.\<close>

definition data_channels :: "env_t \<Rightarrow> bytes \<Rightarrow> u16 \<Rightarrow> pl_dev \<Rightarrow>
    ((u64 \<times> u64 \<times> network_acc_reg) list \<times> u16 \<times> pl_dev) res" where
  "data_channels env data status dev =
     and_then (make_yuv data dev) (\<lambda>(yuv, dev).
     and_then (encode_channel env (yuv ! 0) (status, e_reg env, dev)) (\<lambda>(t0, e0, status, reg0, dev).
     and_then (encode_channel env (yuv ! 1) (status, reg0, dev)) (\<lambda>(t1, e1, status, reg1, dev).
     and_then (encode_channel env (yuv ! 2) (status, reg1, dev)) (\<lambda>(t2, e2, status, reg2, dev).
     Inr ([(t0, e0, reg0), (t1, e1, reg1), (t2, e2, reg2)], status, dev)))))"

lemma picture_channels_data:
  assumes "list_all fits fs" and "unat n = length fs" and "\<And>n. e_malloc env n"
  shows "picture_channels env fs n status dev = data_channels env (concat (map payload fs)) status dev"
proof -
  have n: "n = of_nat (length fs)" "length fs < 65536"
    using assms(2) unat_u16_less [of n] by (auto simp flip: assms(2))
  have "data_frame_to_data_len fs n = Inr (payloads_len fs)"
    and "data_frames_to_data fs n (replicate (payloads_len fs) 0) = Inr (concat (map payload fs))"
    using assms(1) n data_frame_to_data_len_ok [of "length fs" fs]
      data_frames_to_data_ok [of "length fs" fs "replicate (payloads_len fs) 0"] by simp_all
  then show ?thesis using assms(3) by (simp add: picture_channels_def data_channels_def)
qed

lemma process_data_frames_split:
  assumes "picture_channels env frames n status dev = Inr ([c0, c1, c2], status1, dev1)"
  shows "process_data_frames env frames n p_addr status dev =
    (let status = status1 OR TP_STATUS_ENTROPY_ENCODING in
     and_then (entropy_channel env 0 c0 dev1) (\<lambda>(g0, d0).
     and_then (entropy_channel env 1 c1 dev1) (\<lambda>(g1, d1).
     and_then (entropy_channel env 2 c2 dev1) (\<lambda>(g2, d2).
     and_then (e_codings env (g0 @ g1 @ g2) (d0 @ d1 @ d2) lens 10000) (\<lambda>enc_data.
     let status = status AND NOT TP_STATUS_ENTROPY_ENCODING; len = length enc_data in
     case p_addr of
       None \<Rightarrow> if e_malloc env len then Inr (len, Some enc_data, status, dev1) else Inl ErrExit
     | Some old \<Rightarrow> and_then (blit old 0 enc_data) (\<lambda>new. Inr (len, Some new, status, dev1)))))))"
  using assms unfolding picture_channels_def process_data_frames_def
  by (auto simp add: and_then_eq_Inr split: prod.splits)

text \<open>
  The mixtures of a channel as \<open>entropy_to_gmm\<close> leaves them: every ninth is what the accelerator
  reported, the others have not been written.
\<close>

definition mixtures :: "nat \<Rightarrow> i16 list \<Rightarrow> gmm_t option list" where
  "mixtures len entropy = map (\<lambda>i. if 9 dvd i then Some (gmm_of entropy i) else None) [0..<len]"

definition coefficients :: "pl_dev \<Rightarrow> u64 \<times> u64 \<times> network_acc_reg \<Rightarrow> i16 list" where
  "coefficients dev channel = halves (block dev (fst channel))"

definition channel_mixtures :: "pl_dev \<Rightarrow> nat \<Rightarrow> u64 \<times> u64 \<times> network_acc_reg \<Rightarrow> gmm_t option list" where
  "channel_mixtures dev k channel = mixtures (channel_len k) (halves (block dev (fst (snd channel))))"

text \<open>
  What the accelerator has to deliver for channel \<open>k\<close>: as many coefficients as the sub-bands have,
  nine parameters for each, and positive deviations in the mixtures that are read from them.
\<close>

definition channel_fits :: "pl_dev \<Rightarrow> nat \<Rightarrow> u64 \<times> u64 \<times> network_acc_reg \<Rightarrow> bool" where
  "channel_fits dev k channel = (case channel of (trans_addr, entropy_addr, reg) \<Rightarrow>
     unat (na_trans_size reg) = 2 * channel_len k \<and> length (block dev trans_addr) = 2 * channel_len k \<and>
     unat (na_entropy_size reg) = 18 * channel_len k \<and>
     length (block dev entropy_addr) = 18 * channel_len k \<and>
     list_all (\<lambda>cell. cell = None \<or> cell_ok cell) (channel_mixtures dev k channel))"

lemma length_halves: "length (halves bs) = length bs div 2"
  by (induction bs rule: halves.induct) simp_all

lemma entropy_channel_ok:
  assumes "k < 3" and "channel_fits dev k channel" and "\<And>n. e_malloc env n"
  shows "entropy_channel env k channel dev =
    Inr (sub_bands k (channel_mixtures dev k channel) (coefficients dev channel))"
proof -
  obtain t e reg where c: "channel = (t, e, reg)" by (cases channel)
  let ?n = "channel_len k"
  have f: "unat (na_trans_size reg) = 2 * ?n" "unat (na_entropy_size reg) = 18 * ?n"
      "length (block dev e) = 18 * ?n"
    using assms(2) by (simp_all add: channel_fits_def c)
  have "unat (na_trans_size reg div 2) = ?n" "unat (na_entropy_size reg div 2) div 9 = ?n"
    using f(1,2) by (simp_all add: unat_div)
  moreover have "entropy_to_gmm (halves (block dev e)) (replicate ?n None) ?n =
      Inr (mixtures ?n (halves (block dev e)))"
    using entropy_to_gmm_ok [of ?n "replicate ?n None" "halves (block dev e)"] f(3) channel_len_pos [OF assms(1)]
    by (simp add: length_halves mixtures_def cong: map_cong if_cong)
  ultimately show ?thesis
    using assms(3) by (simp add: entropy_channel_def c channel_mixtures_def coefficients_def)
qed

text \<open>No sub-band has the mixtures of its first two coefficients.\<close>

lemma sub_band_unwritten:
  assumes "k < 3" and "i < 13" and "channel_fits dev k c"
  shows "unwritten_band (fst (sub_bands k (channel_mixtures dev k c) cs) ! i) (channel_lens k ! i)"
proof -
  let ?o = "sum_list (take i (channel_lens k))" and ?cells = "channel_mixtures dev k c"
  let ?b = "fst (sub_bands k ?cells cs) ! i"
  have l: "length ?cells = channel_len k" by (simp add: channel_mixtures_def mixtures_def)
  have b: "?b = drop ?o ?cells" using assms(1,2) by (simp add: sub_bands_eq)
  have "list_all (\<lambda>l. 2 \<le> l) lens" by (simp add: lens_def)
  then have two: "2 \<le> channel_lens k ! i"
    using assms(1,2) by (auto simp add: channel_lens_def lens_def list_all_length)
  have o: "?o + channel_lens k ! i \<le> channel_len k" by (rule channel_offset [OF assms(1,2)])
  have cell: "?b ! j = None" if "\<not> 9 dvd ?o + j" "j < channel_lens k ! i" for j
    unfolding b using that o by (simp add: channel_mixtures_def mixtures_def)
  show ?thesis
  proof (cases "9 dvd ?o")
    case False
    then show ?thesis using cell [of 0] two o l b by (auto simp add: unwritten_band_def intro!: exI [of _ 0])
  next
    case True
    then have "\<not> 9 dvd ?o + 1" by presburger
    then have n: "?b ! 1 = None" using cell [of 1] two by simp
    have "?b ! 0 \<noteq> None" unfolding b using True two o by (simp add: channel_mixtures_def mixtures_def)
    moreover have "?b ! 0 \<in> set ?cells" using two o l by (simp add: b)
    ultimately have "cell_ok (?b ! 0)"
      using assms(3) by (cases c) (auto simp add: channel_fits_def list_all_iff)
    moreover have "take 1 ?b = [?b ! 0]" using two o l by (simp add: b take_Suc_conv_app_nth)
    ultimately show ?thesis
      using n two o l unfolding unwritten_band_def by (intro exI [of _ 1]) (simp add: b)
  qed
qed

section \<open>The slave's stream\<close>

text \<open>The slave's coder is \<open>codings\<close>: where that returns, the bytes of its result.\<close>

definition coder_linked :: "env_t \<Rightarrow> coding_env \<Rightarrow> bool" where
  "coder_linked env cenv \<longleftrightarrow> (\<forall>gmms data ls scale result. codings cenv gmms data ls scale = Some result \<longrightarrow>
     e_codings env gmms data ls scale =
       and_then result (\<lambda>r. Inr (take (cr_length r) (cr_data r))))"

text \<open>All sub-bands of a picture: their mixtures and their coefficients.\<close>

definition picture_bands :: "pl_dev \<Rightarrow> (u64 \<times> u64 \<times> network_acc_reg) list \<Rightarrow>
    gmm_t option list list \<times> i16 list list" where
  "picture_bands dev channels =
     (let bands = map (\<lambda>k. sub_bands k (channel_mixtures dev k (channels ! k)) (coefficients dev (channels ! k)))
        [0..<3]
      in (concat (map fst bands), concat (map snd bands)))"

definition constant_bands :: "pl_dev \<Rightarrow> (u64 \<times> u64 \<times> network_acc_reg) list \<Rightarrow> bool" where
  "constant_bands dev channels \<longleftrightarrow> (\<forall>i < 39. constant_band (snd (picture_bands dev channels) ! i) (lens ! i))"

lemma picture_bands_three: "picture_bands dev [c0, c1, c2] =
    (let b = \<lambda>k c. sub_bands k (channel_mixtures dev k c) (coefficients dev c)
     in (fst (b 0 c0) @ fst (b 1 c1) @ fst (b 2 c2), snd (b 0 c0) @ snd (b 1 c1) @ snd (b 2 c2)))"
  by (simp add: picture_bands_def Let_def upt_rec numeral_2_eq_2)

lemma coefficients_length:
  "channel_fits dev k c \<Longrightarrow> length (coefficients dev c) = channel_len k"
  by (cases c) (simp add: channel_fits_def coefficients_def length_halves)

text \<open>What holds of every sub-band of the three channels holds of the sub-bands of the picture.\<close>

lemma picture_band_cases:
  assumes "channel_fits dev 0 c0" and "channel_fits dev 1 c1" and "channel_fits dev 2 c2"
    and "\<And>k c i. k < 3 \<Longrightarrow> i < 13 \<Longrightarrow> channel_fits dev k c \<Longrightarrow>
      P (fst (sub_bands k (channel_mixtures dev k c) (coefficients dev c)) ! i)
        (snd (sub_bands k (channel_mixtures dev k c) (coefficients dev c)) ! i) (channel_lens k ! i)"
    and "i < 39"
  shows "P (fst (picture_bands dev [c0, c1, c2]) ! i) (snd (picture_bands dev [c0, c1, c2]) ! i) (lens ! i)"
proof -
  let ?b = "\<lambda>k c. sub_bands k (channel_mixtures dev k c) (coefficients dev c)"
  have l: "length (fst (?b k c)) = 13" "length (snd (?b k c)) = 13" if "k < 3" for k c
    using that by (simp_all add: sub_bands_eq)
  show ?thesis
    using assms(5) assms(4) [OF _ _ assms(1), of i] assms(4) [OF _ _ assms(2), of "i - 13"]
      assms(4) [OF _ _ assms(3), of "i - 26"]
    by (subst lens_channels) (simp add: picture_bands_three Let_def nth_append l channel_lens_length)
qed

lemma picture_bands_lengths:
  "length (fst (picture_bands dev [c0, c1, c2])) = 39" "length (snd (picture_bands dev [c0, c1, c2])) = 39"
  by (simp_all add: picture_bands_three Let_def sub_bands_eq)

lemma picture_bands_sized:
  assumes "channel_fits dev 0 c0" and "channel_fits dev 1 c1" and "channel_fits dev 2 c2"
  shows "sized_bands (fst (picture_bands dev [c0, c1, c2])) (snd (picture_bands dev [c0, c1, c2])) lens"
proof -
  have "0 < lens ! i \<and> lens ! i < 2 ^ 31 \<and> lens ! i \<le> length (snd (picture_bands dev [c0, c1, c2]) ! i)"
    if "i < 39" for i
    by (rule picture_band_cases [where P = "\<lambda>_ d l. 0 < l \<and> l < 2 ^ 31 \<and> l \<le> length d", OF assms _ that])
       (rule sub_band_sized, simp_all add: coefficients_length)
  moreover have "length lens = 39" by (simp add: lens_def)
  ultimately show ?thesis by (simp add: sized_bands_def picture_bands_lengths)
qed

lemma picture_bands_unwritten:
  assumes "channel_fits dev 0 c0" and "channel_fits dev 1 c1" and "channel_fits dev 2 c2" and "i < 39"
  shows "unwritten_band (fst (picture_bands dev [c0, c1, c2]) ! i) (lens ! i)"
  by (rule picture_band_cases [where P = "\<lambda>g _ l. unwritten_band g l", OF assms(1-3) _ assms(4)])
     (rule sub_band_unwritten)

lemma picture_bands_values:
  assumes "channel_fits dev 0 c0" and "channel_fits dev 1 c1" and "channel_fits dev 2 c2"
  shows "concat (map2 band_values lens (snd (picture_bands dev [c0, c1, c2]))) =
    map sint (concat (map (coefficients dev) [c0, c1, c2]))"
proof -
  let ?b = "\<lambda>k c. sub_bands k (channel_mixtures dev k c) (coefficients dev c)"
  have l: "length (snd (?b k c)) = length (channel_lens k)" if "k < 3" for k c
    using that by (simp add: sub_bands_eq channel_lens_length)
  note v = band_values_sub_bands [OF _ coefficients_length]
  show ?thesis
    using v [OF _ assms(1)] v [OF _ assms(2)] v [OF _ assms(3)]
    by (subst lens_channels) (simp add: picture_bands_three Let_def zip_append l)
qed

lemma lens_size: "40 \<le> sum_list lens" "sum_list lens < 2 ^ 31"
  by (simp_all add: channel_len_sum channel_len_values del: One_nat_def)

text \<open>What the coder makes of the sub-bands of a picture.\<close>

lemma picture_coded:
  assumes "channel_fits dev 0 c0" and "channel_fits dev 1 c1" and "channel_fits dev 2 c2"
    and "coder_linked env cenv" and "tables_ok cenv"
    and "ce_malloc cenv (8 * sum_list lens) = Some bins" and "length bins = 8 * sum_list lens"
  defines "b \<equiv> picture_bands dev [c0, c1, c2]"
  shows "if constant_bands dev [c0, c1, c2]
    then \<exists>stream. e_codings env (fst b) (snd b) lens 10000 = Inr stream \<and> 156 \<le> length stream \<and> length stream \<le> 157 \<and>
      (\<forall>gmms. length gmms = 39 \<longrightarrow> decode_codings cenv gmms lens 10000 stream = Some (map2 band_values lens (snd b)))
    else e_codings env (fst b) (snd b) lens 10000 = Inl Uninit"
proof (cases "constant_bands dev [c0, c1, c2]")
  case True
  then have const: "\<forall>i < 39. constant_band (snd b ! i) (lens ! i)" by (simp add: constant_bands_def b_def)
  then have "bands_ok (fst b) (snd b) lens"
    using picture_bands_sized [OF assms(1-3)] by (simp add: b_def bands_ok_def sized_bands_def band_ok_def)
  from codings_invertible [OF assms(5) _ _ this lens_size assms(6,7), of 10000] obtain r
  where r: "codings cenv (fst b) (snd b) lens 10000 = Some (Inr r)" "156 \<le> cr_length r"
      "cr_length r \<le> length (cr_data r)" "cr_length r \<le> 4 * coded_count (snd b) lens + 157"
      "\<forall>j < 39. header_range (take (cr_length r) (cr_data r)) j = value_range (band_value (snd b) lens j)"
      "decode_codings cenv (fst b) lens 10000 (take (cr_length r) (cr_data r)) = Some (map2 band_values lens (snd b))"
    by auto
  define stream where "stream = take (cr_length r) (cr_data r)"
  have "e_codings env (fst b) (snd b) lens 10000 = Inr stream"
    using assms(4) r(1) by (simp add: coder_linked_def stream_def)
  moreover have "156 \<le> length stream" "length stream \<le> 157"
    using r(2-4) coded_count_constant [OF const] by (simp_all add: stream_def)
  moreover have "decode_codings cenv gmms lens 10000 stream = Some (map2 band_values lens (snd b))"
    if "length gmms = 39" for gmms
    using decode_constant [of stream gmms "fst b" lens cenv 10000] r(5,6) const that
      picture_bands_lengths [of dev c0 c1 c2]
    by (simp add: stream_def constant_band_def band_value_def b_def lens_def)
  ultimately show ?thesis using True by auto
next
  case False
  have "codings cenv (fst b) (snd b) lens 10000 = Some (Inl Uninit)"
    using codings_uninit [OF assms(5) _ _ picture_bands_sized [OF assms(1-3)] lens_size assms(6,7)]
      picture_bands_unwritten [OF assms(1-3)] False by (auto simp add: constant_bands_def b_def)
  then show ?thesis using False assms(4) by (simp add: coder_linked_def)
qed

text \<open>
  C3: what the slave makes of a picture when the three channels have come back in the sizes of the
  sub-bands, with positive deviations in the mixtures that are written and tables of their full
  size. When every sub-band is one value throughout, \<open>process_data_frames\<close> returns a stream of at
  most 157 bytes in a block of its own, from which a receiver without any mixture decodes every
  coefficient of every channel, in the order in which the accelerator delivered them. On all other
  pictures the coder reads a mixture that nobody has written, because \<open>entropy_to_gmm\<close> fills
  only every ninth.
\<close>

theorem slave_stream_or_uninit:
  assumes "picture_channels env frames n status dev = Inr ([c0, c1, c2], status1, dev1)"
    and "channel_fits dev1 0 c0" and "channel_fits dev1 1 c1" and "channel_fits dev1 2 c2"
    and "coder_linked env cenv" and "tables_ok cenv" and "\<And>n. e_malloc env n"
    and "ce_malloc cenv (8 * sum_list lens) = Some bins" and "length bins = 8 * sum_list lens"
  shows "if constant_bands dev1 [c0, c1, c2]
    then \<exists>stream status' bands. process_data_frames env frames n None status dev =
          Inr (length stream, Some stream, status', dev1)
      \<and> status' AND TP_STATUS_ENTROPY_ENCODING = 0 \<and> stream \<noteq> [] \<and> length stream \<le> 157
      \<and> (\<forall>gmms. length gmms = 39 \<longrightarrow> decode_codings cenv gmms lens 10000 stream = Some bands)
      \<and> concat bands = map sint (concat (map (coefficients dev1) [c0, c1, c2]))
    else process_data_frames env frames n None status dev = Inl Uninit"
proof -
  let ?b = "picture_bands dev1 [c0, c1, c2]"
  let ?status = "(status1 OR TP_STATUS_ENTROPY_ENCODING) AND NOT TP_STATUS_ENTROPY_ENCODING"
  note coded = picture_coded [OF assms(2-6,8,9)]
  have p: "process_data_frames env frames n None status dev =
      and_then (e_codings env (fst ?b) (snd ?b) lens 10000) (\<lambda>bs. Inr (length bs, Some bs, ?status, dev1))"
    using assms(7) entropy_channel_ok [OF _ assms(2)] entropy_channel_ok [OF _ assms(3)]
      entropy_channel_ok [OF _ assms(4)]
    by (simp add: process_data_frames_split [OF assms(1)] picture_bands_three Let_def case_prod_beta)
  show ?thesis
  proof (cases "constant_bands dev1 [c0, c1, c2]")
    case True
    then obtain stream where "e_codings env (fst ?b) (snd ?b) lens 10000 = Inr stream" "156 \<le> length stream"
        "length stream \<le> 157"
        "\<forall>gmms. length gmms = 39 \<longrightarrow> decode_codings cenv gmms lens 10000 stream = Some (map2 band_values lens (snd ?b))"
      using coded by auto
    moreover have "?status AND TP_STATUS_ENTROPY_ENCODING = 0"
      by (rule bit_word_eqI) (simp add: bit_simps)
    moreover have "stream \<noteq> []" using calculation(2) by auto
    ultimately show ?thesis using True p picture_bands_values [OF assms(2-4)] by auto
  next
    case False
    then show ?thesis using coded p by simp
  qed
qed

text \<open>For instance a picture of six bytes, with constant coefficients and parameters.\<close>

definition flat_coder :: "gmm_t option list list \<Rightarrow> i16 list list \<Rightarrow> nat list \<Rightarrow> int \<Rightarrow> bytes res" where
  "flat_coder gmms data ls scale = (case codings flat_env gmms data ls scale of
      Some (Inr r) \<Rightarrow> Inr (take (cr_length r) (cr_data r))
    | Some (Inl e) \<Rightarrow> Inl e
    | None \<Rightarrow> Inl ErrExit)"

definition flat_slave :: env_t where
  "flat_slave = sample_env\<lparr> e_codings := flat_coder, e_dry_run := False \<rparr>"

definition flat_reg :: "nat \<Rightarrow> network_acc_reg" where
  "flat_reg k = blank_reg\<lparr> na_trans_addr := 0x30000000, na_trans_size := of_nat (2 * channel_len k),
     na_entropy_addr := 0x40000000, na_entropy_size := of_nat (18 * channel_len k) \<rparr>"

definition flat_results :: "nat \<Rightarrow> bytes list" where
  "flat_results k = [replicate (2 * channel_len k) 7, replicate (18 * channel_len k) 1]"

definition flat_dev :: pl_dev where
  "flat_dev = sample_dev\<lparr> pd_mmaps := map (\<lambda>a. Some (a, []))
       [0x1000, 0x2000, 0x3000, 0x4000, 0x5000, 0x6000, 0x7000, 0x8000, 0x9000],
     pd_results := [flat_reg 0, flat_reg 1, flat_reg 2],
     pd_data := flat_results 0 @ flat_results 1 @ flat_results 2 \<rparr>"

definition six_bytes :: data_frame_t where
  "six_bytes = sample_data_frame\<lparr> df_data_len := 6 \<rparr>"

lemma flat_reg_sizes:
  "k < 3 \<Longrightarrow> unat (na_trans_size (flat_reg k)) = 2 * channel_len k"
  "k < 3 \<Longrightarrow> unat (na_entropy_size (flat_reg k)) = 18 * channel_len k"
  unfolding flat_reg_def using channel_len_pos [of k]
  by (simp_all add: unat_of_nat_word del: of_nat_mult)

lemma halves_replicate: "halves (replicate (2 * n) b) = replicate n (of_le16 b b)"
  by (induction n) simp_all

lemma flat_channel_fits:
  assumes "k < 3" and "block dev t = replicate (2 * channel_len k) 7"
    and "block dev e = replicate (18 * channel_len k) 1"
  shows "channel_fits dev k (t, e, flat_reg k)"
proof -
  have h: "halves (block dev e) = replicate (9 * channel_len k) (of_le16 1 1)"
    using halves_replicate [of "9 * channel_len k" 1] by (simp add: assms(3))
  have "gmm_ok (gmm_of (halves (block dev e)) i)" if "i < channel_len k" "9 dvd i" for i
    using that by (simp add: gmm_ok_def gmm_of_def h of_le16_def)
  then show ?thesis
    by (auto simp add: channel_fits_def flat_reg_sizes [OF assms(1)] assms(2,3) cell_ok_def
        channel_mixtures_def mixtures_def list_all_iff)
qed


lemma flat_channel:
  assumes "k < 3" and "list_all id (pd_ok dev)" and "addr \<noteq> 0" and "addr \<noteq> MAP_FAILED"
    and "pd_results dev = flat_reg k # rs" and "pd_mmaps dev = Some (a1, b1) # Some (a2, b2) # ms"
    and "a1 \<notin> {0, MAP_FAILED}" and "a2 \<notin> {0, MAP_FAILED}" and "a1 \<noteq> a2"
    and "pd_data dev = flat_results k @ ds"
  shows "\<exists>dev' status'. encode_channel flat_slave (addr, len) (status, reg, dev) =
      Inr (a1, a2, status', flat_reg k, dev')
    \<and> block dev' a1 = replicate (2 * channel_len k) 7 \<and> block dev' a2 = replicate (18 * channel_len k) 1
    \<and> (\<forall>a. a \<notin> {a1, a2, addr} \<longrightarrow> pd_blocks dev' a = pd_blocks dev a)
    \<and> pd_mmaps dev' = ms \<and> pd_results dev' = rs \<and> pd_data dev' = ds \<and> list_all id (pd_ok dev')"
  using encode_channel_ok [OF assms(2-5) _ _ assms(6-9), of "replicate (2 * channel_len k) 7"
      "replicate (18 * channel_len k) 1" ds flat_slave len status reg]
    assms(10) flat_reg_sizes [OF assms(1)] channel_len_pos [OF assms(1)]
  by (auto simp add: flat_results_def)

lemma flat_data_channels:
  assumes "length xs = 6"
  shows "\<exists>status1 dev1. data_channels flat_slave xs 0 flat_dev = Inr
      ([(0x4000, 0x5000, flat_reg 0), (0x6000, 0x7000, flat_reg 1), (0x8000, 0x9000, flat_reg 2)], status1, dev1)
    \<and> channel_fits dev1 0 (0x4000, 0x5000, flat_reg 0)
    \<and> channel_fits dev1 1 (0x6000, 0x7000, flat_reg 1)
    \<and> channel_fits dev1 2 (0x8000, 0x9000, flat_reg 2)
    \<and> (\<forall>c \<in> {(0x4000, 0x5000, flat_reg 0), (0x6000, 0x7000, flat_reg 1), (0x8000, 0x9000, flat_reg 2)}.
        set (coefficients dev1 c) \<subseteq> {of_le16 7 7})"
proof -
  obtain d0 where y: "make_yuv xs flat_dev = Inr ([(0x1000, 1 * 4), (0x2000, 1), (0x3000, 1)], d0)"
    and d0: "pd_mmaps d0 = map (\<lambda>a. Some (a, [])) [0x4000, 0x5000, 0x6000, 0x7000, 0x8000, 0x9000]"
      "pd_ok d0 = []" "pd_results d0 = [flat_reg 0, flat_reg 1, flat_reg 2]"
      "pd_data d0 = flat_results 0 @ flat_results 1 @ flat_results 2"
    using make_yuv_ok [of 1 xs 0 flat_dev "0x1000" "[]" "0x2000" "[]" "0x3000" "[]"] assms
    by (auto simp add: flat_dev_def sample_dev_def MAP_FAILED_def)
  obtain s1 d1 where c0: "encode_channel flat_slave (0x1000, 4) (0, e_reg flat_slave, d0) =
        Inr (0x4000, 0x5000, s1, flat_reg 0, d1)"
    and d1: "block d1 0x4000 = replicate (2 * channel_len 0) 7" "block d1 0x5000 = replicate (18 * channel_len 0) 1"
      "pd_mmaps d1 = map (\<lambda>a. Some (a, [])) [0x6000, 0x7000, 0x8000, 0x9000]" "list_all id (pd_ok d1)"
      "pd_results d1 = [flat_reg 1, flat_reg 2]" "pd_data d1 = flat_results 1 @ flat_results 2"
    using flat_channel [of 0 d0 "0x1000" _ "0x4000" "[]" "0x5000" "[]" _ _ 4 0 "e_reg flat_slave"] d0
    by (force simp add: MAP_FAILED_def)
  obtain s2 d2 where c1: "encode_channel flat_slave (0x2000, 1) (s1, flat_reg 0, d1) =
        Inr (0x6000, 0x7000, s2, flat_reg 1, d2)"
    and d2: "block d2 0x6000 = replicate (2 * channel_len 1) 7" "block d2 0x7000 = replicate (18 * channel_len 1) 1"
      "\<forall>a. a \<notin> {0x6000, 0x7000, 0x2000} \<longrightarrow> pd_blocks d2 a = pd_blocks d1 a"
      "pd_mmaps d2 = map (\<lambda>a. Some (a, [])) [0x8000, 0x9000]" "list_all id (pd_ok d2)"
      "pd_results d2 = [flat_reg 2]" "pd_data d2 = flat_results 2"
    using flat_channel [of 1 d1 "0x2000" _ "0x6000" "[]" "0x7000" "[]" _ _ 1 s1 "flat_reg 0"] d1
    by (force simp add: MAP_FAILED_def)
  obtain s3 d3 where c2: "encode_channel flat_slave (0x3000, 1) (s2, flat_reg 1, d2) =
        Inr (0x8000, 0x9000, s3, flat_reg 2, d3)"
    and d3: "block d3 0x8000 = replicate (2 * channel_len 2) 7" "block d3 0x9000 = replicate (18 * channel_len 2) 1"
      "\<forall>a. a \<notin> {0x8000, 0x9000, 0x3000} \<longrightarrow> pd_blocks d3 a = pd_blocks d2 a"
    using flat_channel [of 2 d2 "0x3000" _ "0x8000" "[]" "0x9000" "[]" _ "[]" 1 s2 "flat_reg 1"] d2
    by (force simp add: MAP_FAILED_def)
  have "data_channels flat_slave xs 0 flat_dev = Inr
      ([(0x4000, 0x5000, flat_reg 0), (0x6000, 0x7000, flat_reg 1), (0x8000, 0x9000, flat_reg 2)], s3, d3)"
    using y c0 c1 c2 by (simp add: data_channels_def)
  moreover have "block d3 0x4000 = block d1 0x4000" "block d3 0x5000 = block d1 0x5000"
      "block d3 0x6000 = block d2 0x6000" "block d3 0x7000 = block d2 0x7000"
    using d2(3) d3(3) by (simp_all add: block_def)
  moreover have "set (coefficients d (t, e, g)) \<subseteq> {of_le16 7 7}" if "block d t = replicate (2 * n) 7" for d t e g n
    using that by (auto simp add: coefficients_def halves_replicate)
  ultimately show ?thesis using d1(1,2) d2(1,2) d3(1,2) by (auto intro!: flat_channel_fits)
qed

lemma flat_channels:
  "\<exists>status1 dev1. picture_channels flat_slave [six_bytes] 1 0 flat_dev = Inr
      ([(0x4000, 0x5000, flat_reg 0), (0x6000, 0x7000, flat_reg 1), (0x8000, 0x9000, flat_reg 2)], status1, dev1)
    \<and> channel_fits dev1 0 (0x4000, 0x5000, flat_reg 0)
    \<and> channel_fits dev1 1 (0x6000, 0x7000, flat_reg 1)
    \<and> channel_fits dev1 2 (0x8000, 0x9000, flat_reg 2)
    \<and> (\<forall>c \<in> {(0x4000, 0x5000, flat_reg 0), (0x6000, 0x7000, flat_reg 1), (0x8000, 0x9000, flat_reg 2)}.
        set (coefficients dev1 c) \<subseteq> {of_le16 7 7})"
proof -
  have fits: "list_all fits [six_bytes]" and l: "length (payload six_bytes) = 6"
    by (simp_all add: fits_def six_bytes_def sample_data_frame_def blank_data_frame_def const_defs payload_def)
  have "picture_channels flat_slave [six_bytes] 1 0 flat_dev = data_channels flat_slave (payload six_bytes) 0 flat_dev"
    using picture_channels_data [OF fits, of 1 flat_slave 0 flat_dev]
    by (simp add: flat_slave_def sample_env_def)
  then show ?thesis using flat_data_channels [OF l] by simp
qed

lemma flat_coder_linked: "coder_linked flat_slave flat_env"
  by (simp add: coder_linked_def flat_slave_def flat_coder_def and_then_def split: sum.split)

definition flat_channels_of :: "(u64 \<times> u64 \<times> network_acc_reg) list" where
  "flat_channels_of = [(0x4000, 0x5000, flat_reg 0), (0x6000, 0x7000, flat_reg 1), (0x8000, 0x9000, flat_reg 2)]"

lemma flat_constant_bands:
  assumes "channel_fits dev 0 c0" and "channel_fits dev 1 c1" and "channel_fits dev 2 c2"
    and "\<forall>c \<in> {c0, c1, c2}. set (coefficients dev c) \<subseteq> {v}"
  shows "constant_bands dev [c0, c1, c2]"
proof -
  have all: "\<forall>d \<in> set (snd (picture_bands dev [c0, c1, c2])). \<forall>x \<in> set d. x = v"
    using assms(4) by (auto simp add: picture_bands_three Let_def sub_bands_eq dest!: in_set_dropD)
  have "constant_band (snd (picture_bands dev [c0, c1, c2]) ! i) (lens ! i)" if "i < 39" for i
  proof -
    let ?d = "snd (picture_bands dev [c0, c1, c2]) ! i"
    have "?d \<in> set (snd (picture_bands dev [c0, c1, c2]))" using that by (simp add: picture_bands_lengths)
    then have "\<forall>x \<in> set ?d. x = v" using all by blast
    then have "band_values (lens ! i) ?d = replicate (length (band_values (lens ! i) ?d)) (sint v)"
      unfolding band_values_def by (intro replicate_eqI) (auto dest: in_set_takeD)
    moreover have "0 < length (band_values (lens ! i) ?d)"
      using picture_bands_sized [OF assms(1-3)] that by (auto simp add: sized_bands_def band_values_def)
    ultimately have "set (band_values (lens ! i) ?d) = {sint v}" by (metis set_replicate less_numeral_extra(3))
    then show ?thesis by (simp add: constant_band_def value_range_def)
  qed
  then show ?thesis by (simp add: constant_bands_def)
qed

theorem slave_stream_or_uninit_witness:
  "\<exists>stream status' bands dev1. process_data_frames flat_slave [six_bytes] 1 None 0 flat_dev =
        Inr (length stream, Some stream, status', dev1)
    \<and> status' AND TP_STATUS_ENTROPY_ENCODING = 0 \<and> stream \<noteq> [] \<and> length stream \<le> 157
    \<and> decode_codings flat_env (replicate 39 []) lens 10000 stream = Some bands
    \<and> concat bands = map sint (concat (map (coefficients dev1) flat_channels_of))"
proof -
  obtain status1 dev1 where f: "picture_channels flat_slave [six_bytes] 1 0 flat_dev = Inr
      ([(0x4000, 0x5000, flat_reg 0), (0x6000, 0x7000, flat_reg 1), (0x8000, 0x9000, flat_reg 2)], status1, dev1)"
      "channel_fits dev1 0 (0x4000, 0x5000, flat_reg 0)"
      "channel_fits dev1 1 (0x6000, 0x7000, flat_reg 1)"
      "channel_fits dev1 2 (0x8000, 0x9000, flat_reg 2)"
    and c: "\<forall>c \<in> {(0x4000, 0x5000, flat_reg 0), (0x6000, 0x7000, flat_reg 1), (0x8000, 0x9000, flat_reg 2)}.
        set (coefficients dev1 c) \<subseteq> {of_le16 7 7}"
    using flat_channels by blast
  have "e_malloc flat_slave m" for m by (simp add: flat_slave_def sample_env_def)
  moreover have "ce_malloc flat_env (8 * sum_list lens) = Some (replicate (8 * sum_list lens) 0)"
    by (simp add: flat_env_def)
  ultimately obtain stream status' bands where "process_data_frames flat_slave [six_bytes] 1 None 0 flat_dev =
        Inr (length stream, Some stream, status', dev1)" "status' AND TP_STATUS_ENTROPY_ENCODING = 0" "stream \<noteq> []"
      "length stream \<le> 157"
      "\<forall>gmms. length gmms = 39 \<longrightarrow> decode_codings flat_env gmms lens 10000 stream = Some bands"
      "concat bands = map sint (concat (map (coefficients dev1) flat_channels_of))"
    using slave_stream_or_uninit [OF f flat_coder_linked flat_tables_ok, of "replicate (8 * sum_list lens) 0"]
      flat_constant_bands [OF f(2-4) c]
    unfolding length_replicate flat_channels_of_def by auto
  moreover have "length (replicate 39 [] :: gmm_t option list list) = 39" by simp
  ultimately show ?thesis by blast
qed

end
