(* ===== verification/Downlink.thy ===== *)
theory Downlink
  imports Link Encoding
begin

text \<open>
  From the camera to the ground: the exchange of \<open>Link\<close> with a slave that encodes. The picture goes
  up in data frames, through the accelerator and \<open>codings\<close> into a stream, and the stream comes down
  in data frames; from the master's file all coefficients of the accelerator are decoded, unless the
  coder has to read a mixture that was never written.
\<close>

section \<open>The whole way\<close>

text \<open>
  C1: what the accelerator makes of a picture reaches the ground, when nothing of it needs a
  mixture that is never written. The master's \<open>main\<close> runs with one file; the slave, which has nothing
  of picture 0, sends the planes through the accelerator and the entropy coder. The channels have to
  have the sizes of the sub-bands, positive deviations in the mixtures that are written, and tables of
  their full size. When every sub-band is one value throughout, both programs return, and from the bytes
  in the master's output file, with no mixture at all, all coefficients of all channels are decoded. On
  all other pictures the slave, having received the last frame, reads uninitialised memory.
\<close>

theorem coefficients_reach_the_ground:
  assumes run: "faithful line" "one_operand menv opt" "operand menv xs" "tx_idle mt" "unused 0 s"
    and env: "\<not> e_dry_run env" "\<And>n. e_malloc env n" "\<And>n. length (e_frames env n) = n"
    and channels: "data_channels env (loaded xs) (sl_status s) (sl_dev s) = Inr ([c0, c1, c2], status1, dev1)"
      "channel_fits dev1 0 c0" "channel_fits dev1 1 c1" "channel_fits dev1 2 c2"
    and coder: "coder_linked env cenv" "tables_ok cenv" "ce_malloc cenv (8 * sum_list lens) = Some bins"
      "length bins = 8 * sum_list lens"
  shows "if constant_bands dev1 [c0, c1, c2]
    then \<exists>stream bands. exchange env line menv opt s mt stream
      \<and> (\<forall>gmms. length gmms = 39 \<longrightarrow> decode_codings cenv gmms lens 10000 stream = Some bands)
      \<and> concat bands = map sint (concat (map (coefficients dev1) [c0, c1, c2]))
    else \<exists>fs s0. operand_frames menv fs
      \<and> slave_step env (slave_hears (frame_image (query_request (picture_command fs))) [] s) = Inr s0
      \<and> slave_step env (slave_hears (frame_image (send_request (picture_command fs)))
          (line (concat (map wire (number_frames (n_total_frame mt) fs)))) s0) = Inl Uninit"
proof -
  obtain fs where fs: "operand_frames menv fs" "list_all sendable fs" "list_all fits fs"
      "concat (map payload fs) = loaded xs"
    using operand_loads [OF run(3)] .
  let ?fs = "number_frames (n_total_frame mt) fs" and ?out = "picture_command fs"
  let ?gs = "map data_frame_received ?fs"
  have n: "length fs < 65536" using fs(1) by (simp add: operand_frames_def)
  have "list_all fits ?fs" using fs(3) by (simp add: fits_number_frames)
  then have "list_all fits ?gs" "concat (map payload ?gs) = loaded xs"
    using fs(4) by (simp_all add: list.pred_map comp_def payload_number_frames)
  then have c: "picture_channels env ?gs (of_nat (length fs)) (sl_status s) (sl_dev s) = Inr ([c0, c1, c2], status1, dev1)"
    using picture_channels_data [of ?gs "of_nat (length fs)" env] env(2) n channels(1) by simp
  have d: "process_data_frames_dry_run env ?gs (of_nat (length fs)) None (sl_status s) (sl_dev s) =
      process_data_frames env ?gs (of_nat (length fs)) None (sl_status s) (sl_dev s)"
    using env(1) by (simp add: process_data_frames_dry_run_def)
  note made = slave_stream_or_uninit [OF c channels(2-4) coder(1,2) env(2) coder(3,4)]
  show ?thesis
  proof (cases "constant_bands dev1 [c0, c1, c2]")
    case True
    with made obtain stream status' bands where p: "process_data_frames env ?gs (of_nat (length fs)) None
          (sl_status s) (sl_dev s) = Inr (length stream, Some stream, status', dev1)" "stream \<noteq> []" "length stream \<le> 157"
      and b: "\<forall>gmms. length gmms = 39 \<longrightarrow> decode_codings cenv gmms lens 10000 stream = Some bands"
        "concat bands = map sint (concat (map (coefficients dev1) [c0, c1, c2]))"
      by auto
    have "fs \<noteq> []" using fs(4) loaded_nonempty [of xs] run(3) by (auto simp add: operand_def readable_file_def)
    then have "0 < length fs" by simp
    then have "length stream \<le> length fs * TP_FRAME_DATA_LEN_MAX"
      using p(3) unfolding TP_FRAME_DATA_LEN_MAX_def by linarith
    then have "exchange env line menv opt s mt stream"
      using stream_survives [OF run(1,2) fs(1,2) run(4,5) env(2,3)] p(1,2) d by simp
    then show ?thesis using True b by auto
  next
    case False
    have out: "f_address ?out = TP_ADDRESS_MASTER" "f_n_file ?out = 0" "f_n_frame ?out = of_nat (length fs)"
      by (simp_all add: picture_command_def zero_frame_def)
    have i: "unat (f_n_file ?out) < PICTURES_NUMBER_MAX" "unused (unat (f_n_file ?out)) s"
      using out(2) run(5) by (simp_all add: PICTURES_NUMBER_MAX_def)
    obtain s0 where s0: "slave_step env (slave_hears (frame_image (query_request ?out)) [] s) = Inr s0"
        "keeps s s0" "unused (unat (f_n_file ?out)) s0"
      using unused_query [OF i(2) out(1) i(1)] by blast
    have "process_data_frames_dry_run env ?gs (f_n_frame ?out) None (sl_status s0) (sl_dev s0) = Inl Uninit"
      using made False d s0(2) out(3) by (simp add: keeps_def)
    then have "slave_step env (slave_hears (frame_image (send_request ?out)) (line (concat (map wire ?fs))) s0) = Inl Uninit"
      using slave_send_fault [OF out(1) i(1) s0(3) env(2), of ?fs] fs(2) run(1) n out(3)
      by (simp add: sendable_number_frames faithful_def)
    then show ?thesis using False fs(1) s0(1) by auto
  qed
qed

text \<open>For instance the six bytes of \<open>Link\<close>, with the constant channels of \<open>Encoding\<close>.\<close>

theorem coefficients_reach_the_ground_witness:
  "\<exists>stream bands dev1. exchange flat_slave whole_line six_file_env one_file_opt (init_slave idle_tty flat_dev)
        idle_tty stream
    \<and> decode_codings flat_env (replicate 39 []) lens 10000 stream = Some bands
    \<and> concat bands = map sint (concat (map (coefficients dev1) flat_channels_of))"
proof -
  let ?s = "init_slave idle_tty flat_dev" and ?xs = "[1, 2, 3, 4, 5, 6] :: bytes"
  obtain status1 dev1 where f: "data_channels flat_slave (loaded ?xs) (sl_status ?s) (sl_dev ?s) = Inr
      ([(0x4000, 0x5000, flat_reg 0), (0x6000, 0x7000, flat_reg 1), (0x8000, 0x9000, flat_reg 2)], status1, dev1)"
      "channel_fits dev1 0 (0x4000, 0x5000, flat_reg 0)"
      "channel_fits dev1 1 (0x6000, 0x7000, flat_reg 1)"
      "channel_fits dev1 2 (0x8000, 0x9000, flat_reg 2)"
    and c: "\<forall>c \<in> {(0x4000, 0x5000, flat_reg 0), (0x6000, 0x7000, flat_reg 1), (0x8000, 0x9000, flat_reg 2)}.
        set (coefficients dev1 c) \<subseteq> {of_le16 7 7}"
    using flat_data_channels [of ?xs] loaded_id [of ?xs] by (auto simp add: TP_FRAME_DATA_LEN_MAX_def init_slave_def)
  have env: "\<not> e_dry_run flat_slave" "e_malloc flat_slave m" "length (e_frames flat_slave m) = m" for m
    by (simp_all add: flat_slave_def sample_env_def)
  have bins: "ce_malloc flat_env (8 * sum_list lens) = Some (replicate (8 * sum_list lens) 0)"
    by (simp add: flat_env_def)
  obtain stream bands where "exchange flat_slave whole_line six_file_env one_file_opt ?s idle_tty stream"
      "\<forall>gmms. length gmms = 39 \<longrightarrow> decode_codings flat_env gmms lens 10000 stream = Some bands"
      "concat bands = map sint (concat (map (coefficients dev1) flat_channels_of))"
    using coefficients_reach_the_ground [OF faithful_whole_line six_file tx_idle_sample(1)
        unused_init [OF tx_idle_sample(1)] env f flat_coder_linked flat_tables_ok bins]
      flat_constant_bands [OF f(2-4) c]
    unfolding length_replicate flat_channels_of_def by auto
  moreover have "length (replicate 39 [] :: gmm_t option list list) = 39" by simp
  ultimately show ?thesis by blast
qed

end
