(* ===== verification/Bare.thy ===== *)
theory Bare
  imports Dma
begin

text \<open>
  \<^verbatim>\<open>hw/src/axi_tangxi.c\<close>, the driver of the test program that runs on the board without an
  operating system: it writes the registers itself and its interrupt handler talks to the loops
  through four flags. What shares its name with a function of the kernel module begins with
  \<open>bm_\<close>.
\<close>

section \<open>The board\<close>

definition reg_at :: "hw_reg \<Rightarrow> u64" where
  "reg_at r = (case r of
       DMA_MM2S_PS_ADDR \<Rightarrow> 0x80000000 | DMA_MM2S_PS_SIZE \<Rightarrow> 0x80000004
     | NOC_DATA_PKG_ADDR \<Rightarrow> 0x80000008 | NOC_DATA_PKG_CTL \<Rightarrow> 0x8000000C
     | NOC_CTL_PKG_CTL \<Rightarrow> 0x80000010 | CSRAM_WRITE_CTL \<Rightarrow> 0x80000014
     | DMA_S2MM_PS_ADDR \<Rightarrow> 0x80000018 | DMA_S2MM_PS_SIZE \<Rightarrow> 0x8000001C
     | RESULT_READ_ADDR \<Rightarrow> 0x80000020 | RESULT_READ_CTL \<Rightarrow> 0x80000024
     | TX_RISCV_RESET_CTL \<Rightarrow> 0x80000028 | PL_IRQ_TASK_NUM \<Rightarrow> 0x8000002C
     | DMA_MM2S_PL_ADDR \<Rightarrow> 0x80000030 | DMA_MM2S_PL_SIZE \<Rightarrow> 0x80000034
     | DMA_S2MM_PL_ADDR \<Rightarrow> 0x80000038 | DMA_S2MM_PL_SIZE \<Rightarrow> 0x8000003C
     | ENGINE_CR \<Rightarrow> 0x80000100
     | ENGINE_WA \<Rightarrow> 0x80000104 | ENGINE_WS \<Rightarrow> 0x80000108
     | ENGINE_QA \<Rightarrow> 0x8000010C | ENGINE_QS \<Rightarrow> 0x80000110
     | ENGINE_PA \<Rightarrow> 0x80000114 | ENGINE_PS \<Rightarrow> 0x80000118
     | ENGINE_TA \<Rightarrow> 0x8000011C | ENGINE_TS \<Rightarrow> 0x80000120
     | ENGINE_EA \<Rightarrow> 0x80000124 | ENGINE_ES \<Rightarrow> 0x80000128)"

definition BM_BURST_SIZE :: int where "BM_BURST_SIZE = 65536"

definition BM_S2MM_PS_DONE :: u32 where [const_defs]: "BM_S2MM_PS_DONE = 257"
definition BM_REQ_DATA_DONE :: u32 where [const_defs]: "BM_REQ_DATA_DONE = 260"
definition BM_NETWORK_ACC_DONE :: u32 where [const_defs]: "BM_NETWORK_ACC_DONE = 263"

text \<open>
  The registers as they read, the writes of \<open>WR_u32\<close> in order, the four flags, and the words of
  the memory. \<open>bd_irqs\<close> says with which task numbers interrupts come at the places where
  the program can tell: before each test of a loop and before each test of a flag.
\<close>

record board =
  bd_regs :: "u64 \<Rightarrow> u32"
  bd_writes :: "(u64 \<times> u32) list"
  bd_ps_conf_done :: bool
  bd_pl_conf_done :: bool
  bd_ps_transfer_done :: bool
  bd_pl_transfer_done :: bool
  bd_irqs :: "u32 list list"
  bd_mem :: "u64 \<Rightarrow> u32"

definition WR_u32 :: "u32 \<Rightarrow> u64 \<Rightarrow> board \<Rightarrow> board" where
  "WR_u32 data addr st = st\<lparr> bd_regs := (bd_regs st)(addr := data),
     bd_writes := bd_writes st @ [(addr, data)] \<rparr>"

definition RD_u32 :: "u64 \<Rightarrow> board \<Rightarrow> u32" where
  "RD_u32 addr st = bd_regs st addr"

definition get_irq :: "board \<Rightarrow> u32" where
  "get_irq st = bd_regs st (reg_at PL_IRQ_TASK_NUM)"

definition bm_clean_irq :: "board \<Rightarrow> board" where
  "bm_clean_irq st = st\<lparr> bd_regs := (bd_regs st)(reg_at PL_IRQ_TASK_NUM := 0) \<rparr>"

definition interrupt_handler :: "board \<Rightarrow> board" where
  "interrupt_handler st =
     (let irq = get_irq st;
          st = (if irq = BM_S2MM_PS_DONE
                then if bd_pl_conf_done st then st\<lparr> bd_pl_transfer_done := True \<rparr> else st
                else if irq = BM_REQ_DATA_DONE
                then if bd_ps_conf_done st then st\<lparr> bd_ps_transfer_done := True \<rparr> else st
                else st)
      in bm_clean_irq st)"

text \<open>The hardware stores a task number and the handler runs.\<close>

definition interrupt :: "u32 \<Rightarrow> board \<Rightarrow> board" where
  "interrupt n st = interrupt_handler (st\<lparr> bd_regs := (bd_regs st)(reg_at PL_IRQ_TASK_NUM := n) \<rparr>)"

definition interrupts :: "board \<Rightarrow> board" where
  "interrupts st = (case bd_irqs st of [] \<Rightarrow> st
     | ns # later \<Rightarrow> fold interrupt ns (st\<lparr> bd_irqs := later \<rparr>))"

text \<open>
  The controller is Xilinx code: what the lookup of its configuration finds and what the two
  calls return. \<open>XST_SUCCESS\<close> is 0, \<open>XST_FAILURE\<close> 1.
\<close>

record intc_env =
  ic_lookup :: bool
  ic_initialize :: int
  ic_connect :: int

definition initInterruptSystem :: "intc_env \<Rightarrow> int" where
  "initInterruptSystem ic = (if \<not> ic_lookup ic then 1 else if ic_initialize ic \<noteq> 0 then 1
     else if ic_connect ic \<noteq> 0 then ic_connect ic else 0)"

definition set_intc :: "intc_env \<Rightarrow> int" where
  "set_intc ic = (let status = initInterruptSystem ic in if status \<noteq> 0 then 1 else status)"

section \<open>One burst\<close>

text \<open>A left shift of an \<open>int\<close>: the value has to fit and must not be negative.\<close>

definition shl_int :: "u32 \<Rightarrow> nat \<Rightarrow> u32 res" where
  "shl_int x k = (if sint x < 0 \<or> 2 ^ 31 \<le> sint x * 2 ^ k then Inl Overflow else Inr (push_bit k x))"

definition int_minus_1 :: "u32 \<Rightarrow> u32 res" where
  "int_minus_1 x = (if sint x = - (2 ^ 31) then Inl Overflow else Inr (x - 1))"

definition bm_mm2s_ps_data_tangxi :: "u32 \<Rightarrow> u32 \<Rightarrow> u32 \<Rightarrow> u32 \<Rightarrow> u8 \<Rightarrow> board \<Rightarrow> board res" where
  "bm_mm2s_ps_data_tangxi tx_data_ps_addr rx_data_pl_addr burst_size chip_position node st =
     and_then (int_minus_1 burst_size) (\<lambda>beats.
     and_then (shl_int beats 10) (\<lambda>shifted.
     let noc_data_size_addr =
           push_bit 28 chip_position OR push_bit 20 (ucast node) OR rx_data_pl_addr;
         noc_data_node_type_cmd = shifted OR 0b0000000010;
         st = WR_u32 tx_data_ps_addr (reg_at DMA_MM2S_PS_ADDR) st;
         st = WR_u32 beats (reg_at DMA_MM2S_PS_SIZE) st;
         st = WR_u32 noc_data_size_addr (reg_at NOC_DATA_PKG_ADDR) st;
         st = WR_u32 noc_data_node_type_cmd (reg_at NOC_DATA_PKG_CTL) st
     in Inr st))"

definition bm_s2mm_ps_data_tangxi :: "u32 \<Rightarrow> u32 \<Rightarrow> board \<Rightarrow> board res" where
  "bm_s2mm_ps_data_tangxi rx_data_ps_addr burst_size st =
     and_then (int_minus_1 burst_size) (\<lambda>beats.
     and_then (shl_int beats 20) (\<lambda>shifted.
     let noc_data_size_addr = shifted OR 0x00100;
         st = WR_u32 noc_data_size_addr (reg_at RESULT_READ_ADDR) st;
         st = WR_u32 beats (reg_at RESULT_READ_CTL) st;
         st = WR_u32 rx_data_ps_addr (reg_at DMA_S2MM_PS_ADDR) st;
         st = WR_u32 beats (reg_at DMA_S2MM_PS_SIZE) st
     in Inr st))"

definition bm_mm2s_ps_data_s2mm_pl :: "u32 \<Rightarrow> u32 \<Rightarrow> u32 \<Rightarrow> board \<Rightarrow> board res" where
  "bm_mm2s_ps_data_s2mm_pl tx_data_ps_addr rx_data_pl_addr burst_size st =
     and_then (int_minus_1 burst_size) (\<lambda>beats.
     let st = WR_u32 tx_data_ps_addr (reg_at DMA_MM2S_PS_ADDR) st;
         st = WR_u32 beats (reg_at DMA_MM2S_PS_SIZE) st;
         st = WR_u32 rx_data_pl_addr (reg_at DMA_S2MM_PL_ADDR) st;
         st = WR_u32 beats (reg_at DMA_S2MM_PL_SIZE) st
     in Inr st)"

definition bm_s2mm_ps_data_mm2s_pl :: "u32 \<Rightarrow> u32 \<Rightarrow> u32 \<Rightarrow> board \<Rightarrow> board res" where
  "bm_s2mm_ps_data_mm2s_pl rx_data_ps_addr tx_data_pl_addr burst_size st =
     and_then (int_minus_1 burst_size) (\<lambda>beats.
     let st = WR_u32 tx_data_pl_addr (reg_at DMA_MM2S_PL_ADDR) st;
         st = WR_u32 beats (reg_at DMA_MM2S_PL_SIZE) st;
         st = WR_u32 rx_data_ps_addr (reg_at DMA_S2MM_PS_ADDR) st;
         st = WR_u32 beats (reg_at DMA_S2MM_PS_SIZE) st
     in Inr st)"

section \<open>Transfers\<close>

text \<open>The members of type \<open>int\<close> are words here and are read with \<open>sint\<close>.\<close>

record AxiTangxi_args =
  aa_tx_data_size :: u32
  aa_rx_data_size :: u32
  aa_burst_size :: u32
  aa_burst_count :: u32
  aa_burst_data :: u32
  aa_tx_data_ps_ptr :: u64
  aa_rx_data_ps_ptr :: u64
  aa_tx_data_pl_ptr :: u64
  aa_rx_data_pl_ptr :: u64
  aa_node :: u8

text \<open>
  The three batch loops are this one: the burst they issue at a PS address, and the flag they
  set when the last burst is a short one. Only the PS address advances. The block for the last
  burst is the one of the kernel module.
\<close>

partial_function (option) batch_loop :: "(u32 \<Rightarrow> u32 \<Rightarrow> board \<Rightarrow> board res) \<Rightarrow> (board \<Rightarrow> board) \<Rightarrow>
    u32 \<Rightarrow> u32 \<Rightarrow> u32 \<Rightarrow> u32 \<Rightarrow> board \<Rightarrow> board res option" where
  "batch_loop issue conf_done data_remaining burst_size burst_data ps_next st =
     (let st = interrupts st in
      if data_remaining = 0 then Some (Inr st)
      else let st = (if data_remaining < burst_data then conf_done st else st) in
        case last_burst data_remaining burst_size burst_data of
          (data_remaining, burst_size, burst_data) \<Rightarrow>
            (case issue ps_next burst_size st of
               Inl f \<Rightarrow> Some (Inl f)
             | Inr st \<Rightarrow> batch_loop issue conf_done (data_remaining - burst_data) burst_size
                 burst_data (ps_next + burst_data) st))"

definition bm_batch_mm2s_ps_data_tangxi :: "AxiTangxi_args \<Rightarrow> board \<Rightarrow> board res option" where
  "bm_batch_mm2s_ps_data_tangxi a =
     batch_loop (\<lambda>ps n. bm_mm2s_ps_data_tangxi ps (ucast (aa_rx_data_pl_ptr a)) n 0 3)
       (bd_ps_conf_done_update (\<lambda>_. True)) (aa_tx_data_size a) (aa_burst_size a) (aa_burst_data a)
       (ucast (aa_tx_data_ps_ptr a))"

definition batch_mm2s_ps_data_s2mm_pl :: "AxiTangxi_args \<Rightarrow> board \<Rightarrow> board res option" where
  "batch_mm2s_ps_data_s2mm_pl a =
     batch_loop (\<lambda>ps n. bm_mm2s_ps_data_s2mm_pl ps (ucast (aa_rx_data_pl_ptr a)) n)
       (bd_pl_conf_done_update (\<lambda>_. True)) (aa_tx_data_size a) (aa_burst_size a) (aa_burst_data a)
       (ucast (aa_tx_data_ps_ptr a))"

definition bm_batch_s2mm_ps_data_mm2s_pl :: "AxiTangxi_args \<Rightarrow> board \<Rightarrow> board res option" where
  "bm_batch_s2mm_ps_data_mm2s_pl a =
     batch_loop (\<lambda>ps n. bm_s2mm_ps_data_mm2s_pl ps (ucast (aa_tx_data_pl_ptr a)) n)
       (bd_pl_conf_done_update (\<lambda>_. True)) (aa_rx_data_size a) (aa_burst_size a) (aa_burst_data a)
       (ucast (aa_rx_data_ps_ptr a))"

text \<open>
  The comparison of the received words with the sent ones; the number that is printed. The
  length is an \<open>int\<close> divided by a \<open>size_t\<close>.
\<close>

definition words_of :: "u32 \<Rightarrow> int" where
  "words_of data_size = sint (ucast ((scast data_size :: u64) div 4) :: u32)"

definition differences :: "AxiTangxi_args \<Rightarrow> board \<Rightarrow> nat" where
  "differences a st = length (filter (\<lambda>i. bd_mem st (aa_rx_data_ps_ptr a + 4 * of_nat i) \<noteq>
       bd_mem st (aa_tx_data_ps_ptr a + 4 * of_nat i)) [0..<nat (words_of (aa_tx_data_size a))])"

text \<open>The second component is the printed count, when the code gets that far.\<close>

definition bm_axi_tangxi_loopback :: "AxiTangxi_args \<Rightarrow> board \<Rightarrow> (nat option \<times> board) res option" where
  "bm_axi_tangxi_loopback a st =
     bind_opt (bm_batch_mm2s_ps_data_tangxi a st) (\<lambda>st.
     let st = interrupts st in
     bind_opt (if bd_ps_transfer_done st then bm_batch_s2mm_ps_data_mm2s_pl a st else Some (Inr st)) (\<lambda>st.
     let st = interrupts st in
     Some (Inr (if bd_pl_transfer_done st then Some (differences a st) else None, st))))"

definition ADDR_ALIGNED_4096 :: "u64 \<Rightarrow> u64" where
  "ADDR_ALIGNED_4096 addr = (addr + 0x0FFF) AND NOT 0x0FFF"

text \<open>Division of an \<open>int\<close> rounds towards 0.\<close>

definition int_div :: "int \<Rightarrow> int \<Rightarrow> int" where
  "int_div x y = sgn x * sgn y * (\<bar>x\<bar> div \<bar>y\<bar>)"

definition init_axi :: "AxiTangxi_args \<Rightarrow> board \<Rightarrow> (AxiTangxi_args \<times> board) res" where
  "init_axi a st =
     (if sint (aa_tx_data_size a) = - (2 ^ 31) then Inl Overflow
      else Inr
       (a\<lparr> aa_burst_size := word_of_int BM_BURST_SIZE,
          aa_burst_count := word_of_int
            (int_div (sint (aa_tx_data_size a) - 1) (BM_BURST_SIZE * 16) + 1),
          aa_burst_data := word_of_int (BM_BURST_SIZE * 16),
          aa_rx_data_ps_ptr := ADDR_ALIGNED_4096
            (aa_tx_data_ps_ptr a + scast (aa_tx_data_size a) + 0x1000000),
          aa_tx_data_pl_ptr := aa_rx_data_pl_ptr a \<rparr>,
        st\<lparr> bd_ps_conf_done := False, bd_pl_conf_done := False,
          bd_ps_transfer_done := False, bd_pl_transfer_done := False \<rparr>))"

text \<open>The offset of a burst, \<open>BURST_SIZE * 16 * burst_count_temp\<close>, is an \<open>int\<close>.\<close>

definition burst_offset :: "nat \<Rightarrow> u64 res" where
  "burst_offset k = (if 2 ^ 31 \<le> BM_BURST_SIZE * 16 * int k then Inl Overflow
     else Inr (word_of_int (BM_BURST_SIZE * 16 * int k)))"

definition axi_ps_pl_ddr :: "AxiTangxi_args \<Rightarrow> board \<Rightarrow> board res" where
  "axi_ps_pl_ddr a = for_each [0..<nat (sint (aa_burst_count a))] (\<lambda>k st.
     and_then (burst_offset k) (\<lambda>offset.
       bm_mm2s_ps_data_s2mm_pl (ucast (aa_tx_data_ps_ptr a + offset))
         (ucast (aa_rx_data_pl_ptr a + offset)) (word_of_int BM_BURST_SIZE) st))"

definition axi_pl_ps_ddr :: "AxiTangxi_args \<Rightarrow> board \<Rightarrow> (nat \<times> board) res" where
  "axi_pl_ps_ddr a st = and_then (for_each [0..<nat (sint (aa_burst_count a))] (\<lambda>k st.
     and_then (burst_offset k) (\<lambda>offset.
       bm_s2mm_ps_data_mm2s_pl (ucast (aa_rx_data_ps_ptr a + offset))
         (ucast (aa_tx_data_pl_ptr a + offset)) (word_of_int BM_BURST_SIZE) st)) st)
     (\<lambda>st. Inr (differences a st, st))"

section \<open>The accelerator's registers\<close>

text \<open>\<open>iwave_args\<close> has the members of \<open>network_acc_reg\<close>, under the same names.\<close>

type_synonym iwave_args = network_acc_reg

definition iwave_args_config :: "iwave_args \<Rightarrow> board \<Rightarrow> board" where
  "iwave_args_config args st =
     (let st = WR_u32 (na_weight_addr args) (reg_at ENGINE_WA) st;
          st = WR_u32 (na_weight_size args) (reg_at ENGINE_WS) st;
          st = WR_u32 (na_quantify_addr args) (reg_at ENGINE_QA) st;
          st = WR_u32 (na_quantify_size args) (reg_at ENGINE_QS) st;
          st = WR_u32 (na_picture_addr args) (reg_at ENGINE_PA) st
      in WR_u32 (na_picture_size args) (reg_at ENGINE_PS) st)"

definition get_iwave_args :: "iwave_args \<Rightarrow> board \<Rightarrow> iwave_args" where
  "get_iwave_args args st = args\<lparr> na_trans_addr := RD_u32 (reg_at ENGINE_TA) st,
     na_trans_size := RD_u32 (reg_at ENGINE_TS) st, na_entropy_addr := RD_u32 (reg_at ENGINE_EA) st,
     na_entropy_size := RD_u32 (reg_at ENGINE_ES) st \<rparr>"

definition iwave_start :: "iwave_args \<Rightarrow> board \<Rightarrow> iwave_args \<times> board" where
  "iwave_start args st = (let args = args\<lparr> na_control := 1 \<rparr> in
     (args, WR_u32 (na_control args) (reg_at ENGINE_CR) st))"

section \<open>What interrupts change\<close>

lemma interrupt_fields [simp]:
  "bd_writes (interrupt n st) = bd_writes st" "bd_mem (interrupt n st) = bd_mem st"
  "bd_ps_conf_done (interrupt n st) = bd_ps_conf_done st"
  "bd_pl_conf_done (interrupt n st) = bd_pl_conf_done st"
  "get_irq (interrupt n st) = 0" "bd_irqs (interrupt n st) = bd_irqs st"
  by (simp_all add: interrupt_def interrupt_handler_def bm_clean_irq_def get_irq_def Let_def)

lemma interrupt_transfer_done:
  "bd_ps_transfer_done (interrupt n st) \<longleftrightarrow>
     bd_ps_transfer_done st \<or> n = BM_REQ_DATA_DONE \<and> bd_ps_conf_done st"
  "bd_pl_transfer_done (interrupt n st) \<longleftrightarrow>
     bd_pl_transfer_done st \<or> n = BM_S2MM_PS_DONE \<and> bd_pl_conf_done st"
  by (auto simp add: interrupt_def interrupt_handler_def bm_clean_irq_def get_irq_def Let_def const_defs)

lemma fold_interrupt_fields:
  "bd_writes (fold interrupt ns st) = bd_writes st" "bd_mem (fold interrupt ns st) = bd_mem st"
  "bd_ps_conf_done (fold interrupt ns st) = bd_ps_conf_done st"
  "bd_pl_conf_done (fold interrupt ns st) = bd_pl_conf_done st"
  by (induction ns arbitrary: st) simp_all

lemma interrupts_fields [simp]:
  "bd_writes (interrupts st) = bd_writes st" "bd_mem (interrupts st) = bd_mem st"
  "bd_ps_conf_done (interrupts st) = bd_ps_conf_done st"
  "bd_pl_conf_done (interrupts st) = bd_pl_conf_done st"
  by (simp_all add: interrupts_def fold_interrupt_fields split: list.split)

lemma fold_interrupt_transfer_done:
  "bd_ps_transfer_done (fold interrupt ns st) \<Longrightarrow> bd_ps_transfer_done st \<or> bd_ps_conf_done st"
  "bd_pl_transfer_done (fold interrupt ns st) \<Longrightarrow> bd_pl_transfer_done st \<or> bd_pl_conf_done st"
  by (induction ns arbitrary: st) (force simp add: interrupt_transfer_done)+

lemma interrupts_transfer_done:
  "bd_ps_transfer_done (interrupts st) \<Longrightarrow> bd_ps_transfer_done st \<or> bd_ps_conf_done st"
  "bd_pl_transfer_done (interrupts st) \<Longrightarrow> bd_pl_transfer_done st \<or> bd_pl_conf_done st"
  by (auto simp add: interrupts_def split: list.splits dest!: fold_interrupt_transfer_done)

section \<open>The bursts of the board and of the kernel module\<close>

definition put_writes :: "(u64 \<times> u32) list \<Rightarrow> board \<Rightarrow> board" where
  "put_writes = fold (\<lambda>(a, d). WR_u32 d a)"

lemma put_writes_fields [simp]:
  "bd_writes (put_writes ws st) = bd_writes st @ ws" "bd_mem (put_writes ws st) = bd_mem st"
  "bd_ps_conf_done (put_writes ws st) = bd_ps_conf_done st"
  "bd_pl_conf_done (put_writes ws st) = bd_pl_conf_done st"
  "bd_ps_transfer_done (put_writes ws st) = bd_ps_transfer_done st"
  "bd_pl_transfer_done (put_writes ws st) = bd_pl_transfer_done st"
  "bd_irqs (put_writes ws st) = bd_irqs st"
  unfolding put_writes_def by (induction ws arbitrary: st) (auto simp add: WR_u32_def)

text \<open>The register writes of a list of the kernel module's events.\<close>

definition board_writes :: "hw_event list \<Rightarrow> (u64 \<times> u32) list" where
  "board_writes es = concat (map (\<lambda>e. case e of Writel d r \<Rightarrow> [(reg_at r, d)] | Wait_completion \<Rightarrow> []) es)"

lemma board_writes_append [simp]: "board_writes (es @ fs) = board_writes es @ board_writes fs"
  by (simp add: board_writes_def)

lemma sint_of_nat_u32: "n < 2 ^ 31 \<Longrightarrow> sint (of_nat n :: u32) = int n"
  by (simp add: sint_uint signed_take_bit_int_eq_self_iff signed_take_bit_int_eq_self unsigned_of_nat take_bit_nat_eq_self)

lemma int_minus_1_ok: "0 < m \<Longrightarrow> m < 2 ^ 31 \<Longrightarrow> int_minus_1 (of_nat m) = Inr (of_nat m - 1)"
  by (simp add: int_minus_1_def sint_of_nat_u32)

lemma bursts_as_in_the_kernel:
  assumes "0 < m" and "m < 2 ^ 31"
  shows "bm_mm2s_ps_data_s2mm_pl ps pl (of_nat m) st =
      Inr (put_writes (board_writes (mm2s_ps_data_s2mm_pl ps pl (of_nat m))) st)"
    and "bm_s2mm_ps_data_mm2s_pl ps pl (of_nat m) st =
      Inr (put_writes (board_writes (s2mm_ps_data_mm2s_pl ps pl (of_nat m))) st)"
    and "m \<le> 2 ^ 21 \<Longrightarrow> bm_mm2s_ps_data_tangxi ps pl (of_nat m) chip node st =
      Inr (put_writes (board_writes (mm2s_ps_data_tangxi ps pl (of_nat m) chip node)) st)"
proof -
  have m: "(of_nat m - 1 :: u32) = of_nat (m - 1)" using assms(1) by (simp add: of_nat_diff)
  show "bm_mm2s_ps_data_s2mm_pl ps pl (of_nat m) st =
      Inr (put_writes (board_writes (mm2s_ps_data_s2mm_pl ps pl (of_nat m))) st)"
    "bm_s2mm_ps_data_mm2s_pl ps pl (of_nat m) st =
      Inr (put_writes (board_writes (s2mm_ps_data_mm2s_pl ps pl (of_nat m))) st)"
    using int_minus_1_ok [OF assms]
    by (simp_all add: bm_mm2s_ps_data_s2mm_pl_def bm_s2mm_ps_data_mm2s_pl_def Let_def put_writes_def
        board_writes_def mm2s_ps_data_s2mm_pl_def s2mm_ps_data_mm2s_pl_def)
  assume "m \<le> 2 ^ 21"
  then have "shl_int (of_nat m - 1) 10 = Inr (push_bit 10 (of_nat m - 1))"
    unfolding m by (simp add: shl_int_def sint_of_nat_u32)
  then show "bm_mm2s_ps_data_tangxi ps pl (of_nat m) chip node st =
      Inr (put_writes (board_writes (mm2s_ps_data_tangxi ps pl (of_nat m) chip node)) st)"
    using int_minus_1_ok [OF assms]
    by (simp add: bm_mm2s_ps_data_tangxi_def Let_def put_writes_def board_writes_def mm2s_ps_data_tangxi_def)
qed


lemma burst_events_fixed_pl:
  "burst_events issue False ps pl bs = burst_events (\<lambda>ps _ n. issue ps pl n) False ps pl bs"
  by (simp add: burst_events_def Let_def)

text \<open>
  A batch loop issues the kernel module's bursts, whatever interrupts come. The flag is set only
  by a short last burst, and the PS flag of the handler only after it.
\<close>

lemma batch_loop_plan:
  assumes "0 < B" and "16 dvd B" and "B < 2 ^ 32" and "n < 2 ^ 32"
    and issue: "\<And>ps m st. 0 < m \<Longrightarrow> m \<le> B div 16 \<Longrightarrow>
      issue ps (of_nat m) st = Inr (put_writes (board_writes (kburst ps pl (of_nat m))) st)"
    and conf: "conf = bd_ps_conf_done_update (\<lambda>_. True) \<or> conf = bd_pl_conf_done_update (\<lambda>_. True)"
  shows "\<exists>st'. batch_loop issue conf (of_nat n) (of_nat (B div 16)) (of_nat B) ps st = Some (Inr st') \<and>
    bd_writes st' = bd_writes st @ board_writes (burst_events kburst False ps pl (plan n B)) \<and>
    bd_mem st' = bd_mem st \<and>
    bd_ps_conf_done st' = bd_ps_conf_done (if B dvd n then st else conf st) \<and>
    bd_pl_conf_done st' = bd_pl_conf_done (if B dvd n then st else conf st) \<and>
    (bd_ps_transfer_done st' \<longrightarrow> bd_ps_transfer_done st \<or> bd_ps_conf_done st') \<and>
    (bd_pl_transfer_done st' \<longrightarrow> bd_pl_transfer_done st \<or> bd_pl_conf_done st')"
  using assms(1-4) issue
proof (induction n B arbitrary: ps st rule: plan.induct)
  case (1 n B)
  let ?st = "interrupts st"
  consider "n = 0" | "0 < n" "n < B" | "0 < n" "B \<le> n" by linarith
  then show ?case
  proof cases
    case 1
    then show ?thesis
      using interrupts_transfer_done [of st]
      by (intro exI [of _ ?st]) (subst batch_loop.simps, simp add: plan.simps board_writes_def)
  next
    case 2
    let ?m = "align16 n div 16"
    let ?st1 = "put_writes (board_writes (kburst ps pl (of_nat ?m))) (conf ?st)"
    have p: "plan n B = [align16 n]" using 2 by (simp add: plan.simps)
    have m: "0 < ?m" "?m \<le> B div 16" 
      using align16_bounds [of n] align16_le [OF "1.prems"(2), of n] 2 by (auto intro: div_le_mono)
    have ne: "(of_nat n :: u32) \<noteq> 0" using 2 "1.prems" by (simp add: of_nat_eq_0_u32)
    have less: "(of_nat n :: u32) < of_nat B" using 2 "1.prems" by (simp add: word_less_nat_alt)
    have "batch_loop issue conf (of_nat n) (of_nat (B div 16)) (of_nat B) ps st =
        Some (Inr (interrupts ?st1))"
      using ne less last_burst_short [OF 2(2) "1.prems"(2,3), of "of_nat (B div 16)"]
        "1.prems"(5) [OF m] by (subst batch_loop.simps, simp, subst batch_loop.simps) simp
    moreover have "\<not> B dvd n" using 2 by (simp add: nat_dvd_not_less)
    ultimately show ?thesis
      using conf interrupts_transfer_done [of ?st1] interrupts_transfer_done [of st] p
      by (intro exI [of _ "interrupts ?st1"]) (auto simp add: burst_events_Cons)
  next
    case 3
    let ?st1 = "put_writes (board_writes (kburst ps pl (of_nat (B div 16)))) ?st"
    have p: "plan n B = B # plan (n - B) B" using 3 "1.prems" by (simp add: plan.simps)
    have m: "0 < B div 16" using "1.prems"(1,2) by (auto elim!: dvdE)
    have ne: "(of_nat n :: u32) \<noteq> 0" using 3 "1.prems" by (simp add: of_nat_eq_0_u32)
    have ge: "\<not> (of_nat n :: u32) < of_nat B" using 3 "1.prems" by (simp add: word_less_nat_alt)
    have sub: "(of_nat n - of_nat B :: u32) = of_nat (n - B)" using 3 by (simp add: of_nat_diff)
    have step: "batch_loop issue conf (of_nat n) (of_nat (B div 16)) (of_nat B) ps st =
        batch_loop issue conf (of_nat (n - B)) (of_nat (B div 16)) (of_nat B) (ps + of_nat B) ?st1"
      using ne ge sub last_burst_full [OF 3(2) "1.prems"(4), of "of_nat (B div 16)"]
        "1.prems"(5) [OF m order_refl] by (subst batch_loop.simps) simp
    have dvd: "B dvd n - B \<longleftrightarrow> B dvd n" using 3(2) by (simp add: dvd_minus_self)
    have "\<exists>st'. batch_loop issue conf (of_nat (n - B)) (of_nat (B div 16)) (of_nat B) (ps + of_nat B) ?st1 =
        Some (Inr st') \<and>
      bd_writes st' = bd_writes ?st1 @ board_writes (burst_events kburst False (ps + of_nat B) pl (plan (n - B) B)) \<and>
      bd_mem st' = bd_mem ?st1 \<and>
      bd_ps_conf_done st' = bd_ps_conf_done (if B dvd n - B then ?st1 else conf ?st1) \<and>
    bd_pl_conf_done st' = bd_pl_conf_done (if B dvd n - B then ?st1 else conf ?st1) \<and>
      (bd_ps_transfer_done st' \<longrightarrow> bd_ps_transfer_done ?st1 \<or> bd_ps_conf_done st') \<and>
      (bd_pl_transfer_done st' \<longrightarrow> bd_pl_transfer_done ?st1 \<or> bd_pl_conf_done st')"
      using 3 "1.prems" by (intro "1.IH") auto
    then show ?thesis
      using conf interrupts_transfer_done [of st] unfolding step p burst_events_Cons dvd
      by (auto split: if_splits)
  qed
qed

section \<open>Initialised transfers\<close>

lemma init_axi_Inr:
  assumes "init_axi a0 st0 = Inr (a, st)"
  shows "aa_burst_size a = of_nat (0x100000 div 16)" "aa_burst_data a = of_nat 0x100000"
    and "aa_tx_data_size a = aa_tx_data_size a0" "aa_rx_data_size a = aa_rx_data_size a0"
    and "aa_tx_data_ps_ptr a = aa_tx_data_ps_ptr a0" "aa_rx_data_pl_ptr a = aa_rx_data_pl_ptr a0"
    and "aa_tx_data_pl_ptr a = aa_rx_data_pl_ptr a"
    and "\<not> bd_ps_conf_done st" "\<not> bd_pl_conf_done st" "\<not> bd_ps_transfer_done st"
    and "\<not> bd_pl_transfer_done st" "bd_writes st = bd_writes st0"
  using assms by (auto simp add: init_axi_def BM_BURST_SIZE_def split: if_splits)

text \<open>A transfer of the kernel module with the members of one of the board.\<close>

definition transfer_of :: "AxiTangxi_args \<Rightarrow> axitangxi_transfer" where
  "transfer_of a = \<lparr> at_tx_data_size = ucast (aa_tx_data_size a), at_rx_data_size = ucast (aa_rx_data_size a),
     at_burst_size = ucast (aa_burst_size a), at_burst_count = ucast (aa_burst_count a),
     at_burst_data = ucast (aa_burst_data a), at_tx_data_ps_ptr = ucast (aa_tx_data_ps_ptr a),
     at_rx_data_ps_ptr = ucast (aa_rx_data_ps_ptr a), at_tx_data_pl_ptr = ucast (aa_tx_data_pl_ptr a),
     at_rx_data_pl_ptr = ucast (aa_rx_data_pl_ptr a), at_node = aa_node a \<rparr>"

section \<open>The contract of a batch\<close>

text \<open>
  The three batch functions run the loop with a burst that writes what the kernel module's burst
  writes. On a struct with bursts of 1 MiB each of them returns, whatever interrupts come.
\<close>

definition set_up :: "AxiTangxi_args \<Rightarrow> bool" where
  "set_up a \<longleftrightarrow> aa_burst_size a = of_nat (0x100000 div 16) \<and> aa_burst_data a = of_nat 0x100000"

lemma init_axi_set_up: "init_axi a0 st0 = Inr (a, st) \<Longrightarrow> set_up a"
  using init_axi_Inr(1,2) by (simp add: set_up_def)

locale board_batch =
  fixes run :: "AxiTangxi_args \<Rightarrow> board \<Rightarrow> board res option"
    and issue :: "u32 \<Rightarrow> u32 \<Rightarrow> u32 \<Rightarrow> board \<Rightarrow> board res"
    and kburst :: "u32 \<Rightarrow> u32 \<Rightarrow> u32 \<Rightarrow> hw_event list"
    and conf :: "board \<Rightarrow> board"
    and size_of :: "AxiTangxi_args \<Rightarrow> u32"
    and ps_of pl_of :: "AxiTangxi_args \<Rightarrow> u64"
  assumes run_loop: "run a = batch_loop (\<lambda>ps n. issue ps (ucast (pl_of a)) n) conf (size_of a)
      (aa_burst_size a) (aa_burst_data a) (ucast (ps_of a))"
    and issue_kernel: "0 < m \<Longrightarrow> m \<le> 0x10000 \<Longrightarrow>
      issue ps pl (of_nat m) st = Inr (put_writes (board_writes (kburst ps pl (of_nat m))) st)"
    and conf_flag: "conf = bd_ps_conf_done_update (\<lambda>_. True) \<or> conf = bd_pl_conf_done_update (\<lambda>_. True)"
begin

lemma run_plan:
  assumes "set_up a"
  shows "\<exists>st'. run a st = Some (Inr st') \<and>
    bd_writes st' = bd_writes st @ board_writes (burst_events kburst False (ucast (ps_of a)) (ucast (pl_of a))
      (plan (unat (size_of a)) 0x100000)) \<and>
    bd_ps_conf_done st' = bd_ps_conf_done (if 0x100000 dvd unat (size_of a) then st else conf st) \<and>
    bd_pl_conf_done st' = bd_pl_conf_done (if 0x100000 dvd unat (size_of a) then st else conf st) \<and>
    (bd_ps_transfer_done st' \<longrightarrow> bd_ps_transfer_done st \<or> bd_ps_conf_done st') \<and>
    (bd_pl_transfer_done st' \<longrightarrow> bd_pl_transfer_done st \<or> bd_pl_conf_done st')"
proof -
  have c: "(0::nat) < 0x100000" "16 dvd (0x100000 :: nat)" "(0x100000 :: nat) < 2 ^ 32" by simp_all
  have l: "unat (size_of a) < 2 ^ 32" using unsigned_less [of "size_of a"] by simp
  have i: "issue ps (ucast (pl_of a)) (of_nat m) st =
      Inr (put_writes (board_writes (kburst ps (ucast (pl_of a)) (of_nat m))) st)"
    if "0 < m" "m \<le> 0x100000 div 16" for ps m and st :: board
    using issue_kernel that by simp
  have e: "(of_nat (unat (size_of a)) :: u32) = size_of a" by simp
  show ?thesis
    using batch_loop_plan [OF c l, of "\<lambda>ps n. issue ps (ucast (pl_of a)) n" kburst "ucast (pl_of a)" conf
        "ucast (ps_of a)" st] i conf_flag assms
    unfolding run_loop set_up_def e by auto
qed

text \<open>One burst.\<close>

lemma run_one:
  assumes "set_up a" and "size_of a = 0x100000"
  shows "\<exists>st'. run a st = Some (Inr st') \<and>
    bd_writes st' = bd_writes st @ board_writes (kburst (ucast (ps_of a)) (ucast (pl_of a)) 0x10000)"
  using run_plan [OF assms(1), of st] assms(2) by (auto simp add: plan.simps burst_events_Cons)

end

interpretation chip: board_batch bm_batch_mm2s_ps_data_tangxi "\<lambda>ps pl n. bm_mm2s_ps_data_tangxi ps pl n 0 3"
    "\<lambda>ps pl n. mm2s_ps_data_tangxi ps pl n 0 3" "bd_ps_conf_done_update (\<lambda>_. True)"
    aa_tx_data_size aa_tx_data_ps_ptr aa_rx_data_pl_ptr
  by unfold_locales (simp_all add: bm_batch_mm2s_ps_data_tangxi_def bursts_as_in_the_kernel)

interpretation to_pl: board_batch batch_mm2s_ps_data_s2mm_pl bm_mm2s_ps_data_s2mm_pl mm2s_ps_data_s2mm_pl
    "bd_pl_conf_done_update (\<lambda>_. True)" aa_tx_data_size aa_tx_data_ps_ptr aa_rx_data_pl_ptr
  by unfold_locales (simp_all add: batch_mm2s_ps_data_s2mm_pl_def bursts_as_in_the_kernel)

interpretation to_ps: board_batch bm_batch_s2mm_ps_data_mm2s_pl bm_s2mm_ps_data_mm2s_pl s2mm_ps_data_mm2s_pl
    "bd_pl_conf_done_update (\<lambda>_. True)" aa_rx_data_size aa_rx_data_ps_ptr aa_tx_data_pl_ptr
  by unfold_locales (simp_all add: bm_batch_s2mm_ps_data_mm2s_pl_def bursts_as_in_the_kernel)

section \<open>Properties\<close>

text \<open>
  C18: the board's program drives the hardware like the kernel module. For a transfer that
  \<open>init_axi\<close> has set up, whatever interrupts come, both batch loops return and write to the
  registers exactly what the loops of the kernel module write for the same transfer.
\<close>

theorem board_bursts_equal_kernel_bursts:
  assumes "init_axi a0 st0 = Inr (a, st1)"
  shows "(\<exists>st' es. bm_batch_mm2s_ps_data_tangxi a st = Some (Inr st') \<and>
      batch_mm2s_ps_data_tangxi (transfer_of a) = Some es \<and> bd_writes st' = bd_writes st @ board_writes es) \<and>
    (\<exists>st' es. bm_batch_s2mm_ps_data_mm2s_pl a st = Some (Inr st') \<and>
      batch_s2mm_ps_data_mm2s_pl (transfer_of a) = Some es \<and> bd_writes st' = bd_writes st @ board_writes es)"
proof -
  note i = init_axi_Inr [OF assms]
  have "whole_beats (transfer_of a) 0x100000" by (simp add: whole_beats_def transfer_of_def i(1,2))
  moreover have "low32 (ucast (n :: u32)) = unat n" for n
  proof -
    have "unat n < 2 ^ 32" using unsigned_less [of n] by simp
    then show ?thesis by (simp add: low32_def unsigned_ucast_eq take_bit_nat_eq_self)
  qed
  ultimately have "batch_mm2s_ps_data_tangxi (transfer_of a) = Some (burst_events
      (\<lambda>ps pl n. mm2s_ps_data_tangxi ps pl n 0 3) False (ucast (aa_tx_data_ps_ptr a))
      (ucast (aa_rx_data_pl_ptr a)) (plan (unat (aa_tx_data_size a)) 0x100000))"
    "batch_s2mm_ps_data_mm2s_pl (transfer_of a) = Some (burst_events s2mm_ps_data_mm2s_pl False
      (ucast (aa_rx_data_ps_ptr a)) (ucast (aa_tx_data_pl_ptr a)) (plan (unat (aa_rx_data_size a)) 0x100000))"
    using ps_to_chip.run_plan chip_to_ps.run_plan i(7) by (simp_all add: transfer_of_def)
  then show ?thesis
    using chip.run_plan [OF init_axi_set_up [OF assms], of st]
      to_ps.run_plan [OF init_axi_set_up [OF assms], of st] by blast
qed

definition sample_args :: AxiTangxi_args where
  "sample_args = \<lparr> aa_tx_data_size = 0x180010, aa_rx_data_size = 0x100000, aa_burst_size = 0,
     aa_burst_count = 0, aa_burst_data = 0, aa_tx_data_ps_ptr = 0x10000000, aa_rx_data_ps_ptr = 0,
     aa_tx_data_pl_ptr = 0, aa_rx_data_pl_ptr = 0x20000000, aa_node = 0 \<rparr>"

definition idle_board :: board where
  "idle_board = \<lparr> bd_regs = (\<lambda>_. 0), bd_writes = [], bd_ps_conf_done = False, bd_pl_conf_done = False,
     bd_ps_transfer_done = False, bd_pl_transfer_done = False,
     bd_irqs = [[], [256, 260], [260], [257]], bd_mem = (\<lambda>_. 0) \<rparr>"

theorem board_bursts_equal_kernel_bursts_witness:
  "\<exists>a st1. init_axi sample_args idle_board = Inr (a, st1) \<and>
    (\<exists>st' es. bm_batch_mm2s_ps_data_tangxi a idle_board = Some (Inr st') \<and>
      batch_mm2s_ps_data_tangxi (transfer_of a) = Some es \<and> bd_writes st' = [] @ board_writes es)"
proof -
  obtain a st1 where "init_axi sample_args idle_board = Inr (a, st1)"
    by (auto simp add: init_axi_def sample_args_def)
  with board_bursts_equal_kernel_bursts [OF this, of idle_board] show ?thesis
    by (auto simp add: idle_board_def)
qed

text \<open>
  A loopback of whole bursts is never read back. The flag that tells the interrupt handler
  that everything has been sent is only set by a last burst that is shorter than the others; for
  a size that is a multiple of 1 MiB the loopback returns after sending, whatever interrupts
  come, and neither reads the data back nor compares it.
\<close>

theorem whole_bursts_are_never_read_back:
  assumes "init_axi a0 st0 = Inr (a, st)" and "0x100000 dvd unat (aa_tx_data_size a0)"
  shows "\<exists>st'. bm_axi_tangxi_loopback a st = Some (Inr (None, st')) \<and>
    bd_writes st' = bd_writes st @ board_writes (burst_events (\<lambda>ps pl n. mm2s_ps_data_tangxi ps pl n 0 3) False
      (ucast (aa_tx_data_ps_ptr a0)) (ucast (aa_rx_data_pl_ptr a0)) (plan (unat (aa_tx_data_size a0)) 0x100000))"
proof -
  note i = init_axi_Inr [OF assms(1)]
  obtain st' where s: "bm_batch_mm2s_ps_data_tangxi a st = Some (Inr st')"
      "bd_writes st' = bd_writes st @ board_writes (burst_events (\<lambda>ps pl n. mm2s_ps_data_tangxi ps pl n 0 3) False
        (ucast (aa_tx_data_ps_ptr a0)) (ucast (aa_rx_data_pl_ptr a0)) (plan (unat (aa_tx_data_size a0)) 0x100000))"
      "\<not> bd_ps_conf_done st'" "\<not> bd_pl_conf_done st'" "\<not> bd_ps_transfer_done st'" "\<not> bd_pl_transfer_done st'"
    using chip.run_plan [OF init_axi_set_up [OF assms(1)], of st] i assms(2) by auto
  let ?st1 = "interrupts st'"
  have "\<not> bd_ps_transfer_done ?st1" "\<not> bd_pl_transfer_done ?st1" "\<not> bd_pl_conf_done ?st1"
    using s(3-6) interrupts_transfer_done [of st'] by auto
  moreover from this have "\<not> bd_pl_transfer_done (interrupts ?st1)"
    using interrupts_transfer_done(2) [of ?st1] by auto
  ultimately show ?thesis
    using s(1,2) by (simp add: bm_axi_tangxi_loopback_def)
qed

theorem whole_bursts_are_never_read_back_witness:
  "\<exists>a st st'. init_axi (sample_args\<lparr> aa_tx_data_size := 0x200000 \<rparr>) idle_board = Inr (a, st) \<and>
    bm_axi_tangxi_loopback a st = Some (Inr (None, st')) \<and> length (bd_writes st') = 8"
proof -
  let ?a = "sample_args\<lparr> aa_tx_data_size := 0x200000 \<rparr>"
  obtain a st where a: "init_axi ?a idle_board = Inr (a, st)" by (auto simp add: init_axi_def)
  have "bd_writes st = []" using init_axi_Inr(12) [OF a] by (simp add: idle_board_def)
  with whole_bursts_are_never_read_back [OF a] a show ?thesis
    by (auto simp add: plan.simps burst_events_Cons mm2s_ps_data_tangxi_def board_writes_def)
qed

section \<open>Copying in whole bursts\<close>

text \<open>What a list of register writes copies, read as \<open>moved\<close> reads the kernel module's events.\<close>

fun bm_moved :: "hw_reg \<times> hw_reg \<times> hw_reg \<times> hw_reg \<Rightarrow> (u64 \<times> u32) list \<Rightarrow> (u32 \<times> u32) list" where
  "bm_moved (ra, rs, rb, rt) ((r1, a) # (r2, n) # (r3, b) # (r4, m) # ws) =
     (if r1 = reg_at ra \<and> r2 = reg_at rs \<and> r3 = reg_at rb \<and> r4 = reg_at rt \<and> n = m
      then map (\<lambda>i. (a + of_nat i, b + of_nat i)) [0..<16 * (unat n + 1)] @ bm_moved (ra, rs, rb, rt) ws
      else [])"
| "bm_moved _ _ = []"

lemma bm_moved_bursts:
  assumes "\<And>ps pl n. issue ps pl n =
      [Writel (if from_ps then ps else pl) ra, Writel (n - 1) rs,
       Writel (if from_ps then pl else ps) rb, Writel (n - 1) rt]"
  shows "bm_moved (ra, rs, rb, rt) (board_writes (burst_events issue True ps pl (replicate k 0x100000))) =
    map (\<lambda>i. (if from_ps then ps + of_nat i else pl + of_nat i,
              if from_ps then pl + of_nat i else ps + of_nat i)) [0..<k * 0x100000]"
proof (induction k arbitrary: ps pl)
  case 0
  then show ?case by (simp add: board_writes_def)
next
  case (Suc k)
  have l: "16 * (unat (0x10000 - 1 :: u32) + 1) = 0x100000" by simp
  have "bm_moved (ra, rs, rb, rt) (board_writes (burst_events issue True ps pl (replicate (Suc k) 0x100000))) =
      map (\<lambda>i. (if from_ps then ps + of_nat i else pl + of_nat i,
                if from_ps then pl + of_nat i else ps + of_nat i)) [0..<0x100000] @
      bm_moved (ra, rs, rb, rt)
        (board_writes (burst_events issue True (ps + of_nat 0x100000) (pl + of_nat 0x100000) (replicate k 0x100000)))"
    by (simp add: burst_events_Cons assms board_writes_def del: upt_Suc)
  also have "\<dots> = map (\<lambda>i. (if from_ps then ps + of_nat i else pl + of_nat i,
              if from_ps then pl + of_nat i else ps + of_nat i)) [0..<0x100000 + k * 0x100000]"
    by (simp only: Suc map_upt_add of_nat_add add.assoc)
  finally show ?case by (simp only: mult_Suc)
qed

lemma burst_events_snoc:
  "burst_events issue True ps pl (bs @ [b]) = burst_events issue True ps pl bs
     @ issue (ps + of_nat (sum_list bs)) (pl + of_nat (sum_list bs)) (of_nat (b div 16))"
  by (induction bs arbitrary: ps pl) (simp_all add: burst_events_Cons add.assoc)

lemma take_bit_32_64: "take_bit 32 (take_bit 64 x + take_bit 64 y :: int) = take_bit 32 (x + y)"
proof -
  have "take_bit 32 (take_bit 64 x + take_bit 64 y) = take_bit 32
      (take_bit 32 (take_bit 64 x) + take_bit 32 (take_bit 64 y))"
    by (simp only: take_bit_add)
  then show ?thesis by (simp add: take_bit_take_bit take_bit_add)
qed

lemma ucast_plus: "(ucast (x + y :: u64) :: u32) = ucast x + ucast y"
  by transfer (simp add: take_bit_take_bit take_bit_add take_bit_32_64)

lemma put_writes_append: "put_writes (xs @ ys) st = put_writes ys (put_writes xs st)"
  by (simp add: put_writes_def)

text \<open>The loop over whole bursts, for either direction.\<close>

lemma whole_bursts_loop:
  assumes "k \<le> 2048"
    and "\<And>ps pl st. issue ps pl (word_of_int BM_BURST_SIZE) st =
      Inr (put_writes (board_writes (kburst ps pl 0x10000)) st)"
  shows "for_each [0..<k] (\<lambda>i st. and_then (burst_offset i) (\<lambda>offset.
      issue (ucast (ps + offset)) (ucast (pl + offset)) (word_of_int BM_BURST_SIZE) st)) st =
    Inr (put_writes (board_writes (burst_events kburst True (ucast ps) (ucast pl) (replicate k 0x100000))) st)"
proof -
  let ?I = "\<lambda>i st'. st' = put_writes (board_writes
    (burst_events kburst True (ucast ps) (ucast pl) (replicate i 0x100000))) st"
  have "\<exists>st'. for_each [0..<k] (\<lambda>i st. and_then (burst_offset i) (\<lambda>offset.
      issue (ucast (ps + offset)) (ucast (pl + offset)) (word_of_int BM_BURST_SIZE) st)) st = Inr st' \<and> ?I k st'"
  proof (rule for_each_invariant [where I = ?I])
    fix i st'
    assume i: "i < k" and I: "?I i st'"
    have "burst_offset i = Inr (of_nat (i * 0x100000))"
      using i assms(1) by (simp add: burst_offset_def BM_BURST_SIZE_def mult.commute)
    moreover have "(ucast (p + of_nat (i * 0x100000)) :: u32) = ucast p + of_nat (i * 0x100000)" for p :: u64
      by (simp add: ucast_plus ucast_of_nat_u64_u32 del: of_nat_mult)
    moreover have "replicate (Suc i) 0x100000 = replicate i 0x100000 @ [0x100000 :: nat]"
      by (simp add: replicate_append_same)
    ultimately show "\<exists>s'. and_then (burst_offset i) (\<lambda>offset. issue (ucast (ps + offset))
        (ucast (pl + offset)) (word_of_int BM_BURST_SIZE) st') = Inr s' \<and> ?I (Suc i) s'"
      using I assms(2) by (simp add: burst_events_snoc put_writes_append sum_list_replicate del: of_nat_mult)
  qed (simp_all add: put_writes_def board_writes_def)
  then show ?thesis by auto
qed

lemma init_axi_burst_count:
  assumes "init_axi a0 st0 = Inr (a, st)" and "0 \<le> sint (aa_tx_data_size a0)"
  shows "nat (sint (aa_burst_count a)) = max 1 (ceil_div (nat (sint (aa_tx_data_size a0))) 0x100000)"
    and "nat (sint (aa_burst_count a)) \<le> 2048"
proof -
  obtain n where n: "sint (aa_tx_data_size a0) = int n" using assms(2) nonneg_int_cases by blast
  have "n < 2 ^ 31" using sint_lt [of "aa_tx_data_size a0"] n by simp
  then have k: "max 1 (ceil_div n 0x100000) \<le> 2048"
    using ceil_div_bounds(2) [of "0x100000" n] by (cases "n = 0") (auto simp add: ceil_div_def)
  have "int_div (int n - 1) (BM_BURST_SIZE * 16) + 1 = int (max 1 (ceil_div n 0x100000))"
  proof (cases n)
    case 0
    then show ?thesis by (simp add: int_div_def BM_BURST_SIZE_def)
  next
    case (Suc m)
    then show ?thesis
      by (cases m) (simp_all add: int_div_def BM_BURST_SIZE_def ceil_div_def zdiv_int)
  qed
  then have "aa_burst_count a = of_nat (max 1 (ceil_div n 0x100000))"
    using assms(1) n by (auto simp add: init_axi_def split: if_splits)
  then have "sint (aa_burst_count a) = int (max 1 (ceil_div n 0x100000))"
    using sint_of_nat_u32 [OF le_less_trans [OF k]] by (simp only:) simp
  then show "nat (sint (aa_burst_count a)) = max 1 (ceil_div (nat (sint (aa_tx_data_size a0))) 0x100000)"
    and "nat (sint (aa_burst_count a)) \<le> 2048"
    using k n by simp_all
qed

text \<open>
  C19: the copies of the board's program move whole bursts, each where the one before it ended.
  After \<open>init_axi\<close> for \<open>n\<close> bytes both return without an overflow, and what they copy is one
  contiguous range, of at least \<open>n\<close> bytes and at most 1 MiB more; even for no bytes it is one
  whole burst. The way back ends at the receive address that \<open>init_axi\<close> has chosen.
\<close>

theorem whole_bursts_copied:
  assumes "init_axi a0 st0 = Inr (a, st)" and "sint (aa_tx_data_size a0) = int n"
  shows "\<exists>k st1 ws1 d st2 ws2. n \<le> k * 0x100000 \<and> k * 0x100000 \<le> n + 0x100000 \<and> 0 < k \<and>
    axi_ps_pl_ddr a st = Inr st1 \<and> bd_writes st1 = bd_writes st @ ws1 \<and>
    bm_moved (DMA_MM2S_PS_ADDR, DMA_MM2S_PS_SIZE, DMA_S2MM_PL_ADDR, DMA_S2MM_PL_SIZE) ws1 =
      map (\<lambda>i. (ucast (aa_tx_data_ps_ptr a0) + of_nat i, ucast (aa_rx_data_pl_ptr a0) + of_nat i))
        [0..<k * 0x100000] \<and>
    axi_pl_ps_ddr a st1 = Inr (d, st2) \<and> bd_writes st2 = bd_writes st1 @ ws2 \<and>
    bm_moved (DMA_MM2S_PL_ADDR, DMA_MM2S_PL_SIZE, DMA_S2MM_PS_ADDR, DMA_S2MM_PS_SIZE) ws2 =
      map (\<lambda>i. (ucast (aa_rx_data_pl_ptr a0) + of_nat i, ucast (aa_rx_data_ps_ptr a) + of_nat i))
        [0..<k * 0x100000]"
proof -
  note i = init_axi_Inr [OF assms(1)]
  define k where "k = max 1 (ceil_div n 0x100000)"
  have k: "nat (sint (aa_burst_count a)) = k" "k \<le> 2048"
    using init_axi_burst_count [OF assms(1)] assms(2) by (simp_all add: k_def)
  have b: "n \<le> k * 0x100000" "k * 0x100000 \<le> n + 0x100000" "0 < k"
    using ceil_div_bounds [of "0x100000" n] by (cases "n = 0"; simp add: k_def)+
  let ?to = "board_writes (burst_events mm2s_ps_data_s2mm_pl True (ucast (aa_tx_data_ps_ptr a0))
    (ucast (aa_rx_data_pl_ptr a0)) (replicate k 0x100000))"
  let ?home = "board_writes (burst_events s2mm_ps_data_mm2s_pl True (ucast (aa_rx_data_ps_ptr a))
    (ucast (aa_rx_data_pl_ptr a0)) (replicate k 0x100000))"
  have burst: "word_of_int BM_BURST_SIZE = (of_nat 0x10000 :: u32)" by (simp add: BM_BURST_SIZE_def)
  have "axi_ps_pl_ddr a st = Inr (put_writes ?to st)"
    unfolding axi_ps_pl_ddr_def k(1) i(5,6)
    by (rule whole_bursts_loop [OF k(2)]) (use burst bursts_as_in_the_kernel(1) [of "0x10000"] in simp)
  moreover have "bm_moved (DMA_MM2S_PS_ADDR, DMA_MM2S_PS_SIZE, DMA_S2MM_PL_ADDR, DMA_S2MM_PL_SIZE) ?to =
      map (\<lambda>i. (ucast (aa_tx_data_ps_ptr a0) + of_nat i, ucast (aa_rx_data_pl_ptr a0) + of_nat i))
        [0..<k * 0x100000]"
    using bm_moved_bursts [of mm2s_ps_data_s2mm_pl True] by (simp add: mm2s_ps_data_s2mm_pl_def)
  moreover have "for_each [0..<k] (\<lambda>j st. and_then (burst_offset j) (\<lambda>offset.
      bm_s2mm_ps_data_mm2s_pl (ucast (aa_rx_data_ps_ptr a + offset)) (ucast (aa_rx_data_pl_ptr a0 + offset))
        (word_of_int BM_BURST_SIZE) st)) st' = Inr (put_writes ?home st')" for st'
    by (rule whole_bursts_loop [OF k(2)]) (use burst bursts_as_in_the_kernel(2) [of "0x10000"] in simp)
  then have "axi_pl_ps_ddr a st' = Inr (differences a (put_writes ?home st'), put_writes ?home st')" for st'
    unfolding axi_pl_ps_ddr_def k(1) i(6,7) by simp
  moreover have "bm_moved (DMA_MM2S_PL_ADDR, DMA_MM2S_PL_SIZE, DMA_S2MM_PS_ADDR, DMA_S2MM_PS_SIZE) ?home =
      map (\<lambda>i. (ucast (aa_rx_data_pl_ptr a0) + of_nat i, ucast (aa_rx_data_ps_ptr a) + of_nat i))
        [0..<k * 0x100000]"
    using bm_moved_bursts [of s2mm_ps_data_mm2s_pl False] by (simp add: s2mm_ps_data_mm2s_pl_def)
  ultimately show ?thesis
    using b put_writes_fields(1) by blast
qed

theorem whole_bursts_copied_witness:
  "\<exists>a st k st1 ws1. init_axi (sample_args\<lparr> aa_tx_data_size := 0 \<rparr>) idle_board = Inr (a, st) \<and>
    axi_ps_pl_ddr a st = Inr st1 \<and> bd_writes st1 = bd_writes st @ ws1 \<and> 0 < k \<and>
    length (bm_moved (DMA_MM2S_PS_ADDR, DMA_MM2S_PS_SIZE, DMA_S2MM_PL_ADDR, DMA_S2MM_PL_SIZE) ws1) = k * 0x100000"
proof -
  let ?a = "sample_args\<lparr> aa_tx_data_size := 0 \<rparr>"
  obtain a st where a: "init_axi ?a idle_board = Inr (a, st)" by (auto simp add: init_axi_def)
  have "sint (aa_tx_data_size ?a) = int 0" by simp
  then obtain k st1 ws1 where "0 < k" "axi_ps_pl_ddr a st = Inr st1" "bd_writes st1 = bd_writes st @ ws1"
      "bm_moved (DMA_MM2S_PS_ADDR, DMA_MM2S_PS_SIZE, DMA_S2MM_PL_ADDR, DMA_S2MM_PL_SIZE) ws1 =
        map (\<lambda>i. (ucast (aa_tx_data_ps_ptr ?a) + of_nat i, ucast (aa_rx_data_pl_ptr ?a) + of_nat i))
          [0..<k * 0x100000]"
    using whole_bursts_copied [OF a] by blast
  then show ?thesis
    using a by (intro exI [of _ a] exI [of _ st] exI [of _ k] exI [of _ st1] exI [of _ ws1])
      (simp del: upt_Suc)
qed

lemma aligned_4096: "unat (ADDR_ALIGNED_4096 x) = unat (x + 0xFFF) div 4096 * 4096"
proof -
  let ?y = "x + 0xFFF"
  have "(0x0FFF :: u64) = mask 12" by (simp add: mask_numeral)
  moreover have "?y AND NOT (mask 12) = push_bit 12 (drop_bit 12 ?y)"
    by (rule bit_word_eqI) (auto simp add: bit_simps)
  ultimately have "ADDR_ALIGNED_4096 x = push_bit 12 (drop_bit 12 ?y)"
    by (simp only: ADDR_ALIGNED_4096_def)
  moreover have less: "unat ?y < 2 ^ 64" using unsigned_less [of ?y] by simp
  then have "take_bit 64 (unat ?y) = unat ?y" by (rule take_bit_nat_eq_self)
  ultimately have "unat (ADDR_ALIGNED_4096 x) = take_bit 64 (unat ?y div 4096 * 4096)"
    by (simp only: unsigned_push_bit_eq unsigned_drop_bit_eq)
      (simp add: push_bit_eq_mult drop_bit_eq_div)
  moreover have "unat ?y div 4096 * 4096 < 2 ^ 64"
    by (rule le_less_trans [OF div_times_less_eq_dividend]) (use less in simp)
  ultimately show ?thesis by (simp only: take_bit_nat_eq_self)
qed

text \<open>
  The area \<open>init_axi\<close> chooses for the received data begins at a page, at least 16 MiB
  behind the end of the data that are sent, and less than a page further.
\<close>

theorem receive_area_apart:
  assumes "init_axi a0 st0 = Inr (a, st)" and "sint (aa_tx_data_size a0) = int n"
    and "unat (aa_tx_data_ps_ptr a0) + n + 0x1001000 \<le> 2 ^ 64"
  shows "4096 dvd unat (aa_rx_data_ps_ptr a) \<and>
    unat (aa_tx_data_ps_ptr a0) + n + 0x1000000 \<le> unat (aa_rx_data_ps_ptr a) \<and>
    unat (aa_rx_data_ps_ptr a) < unat (aa_tx_data_ps_ptr a0) + n + 0x1001000"
proof -
  let ?p = "unat (aa_tx_data_ps_ptr a0)" and ?q = "unat (aa_rx_data_ps_ptr a)"
  have "(scast (aa_tx_data_size a0) :: u64) = of_nat n"
    using assms(2) by (metis of_int_of_nat_eq scast_eq)
  moreover have "aa_rx_data_ps_ptr a = ADDR_ALIGNED_4096
      (aa_tx_data_ps_ptr a0 + scast (aa_tx_data_size a0) + 0x1000000)"
    using assms(1) by (auto simp add: init_axi_def split: if_splits)
  moreover have "aa_tx_data_ps_ptr a0 + of_nat n + 0x1000000 + 0xFFF = of_nat (?p + n + 0x1000FFF)" by simp
  ultimately have "?q = unat (of_nat (?p + n + 0x1000FFF) :: u64) div 4096 * 4096"
    by (simp only: aligned_4096)
  moreover have "unat (of_nat (?p + n + 0x1000FFF) :: u64) = ?p + n + 0x1000FFF"
    using assms(3) by (intro unat_of_nat_word) simp
  ultimately have q: "?q = (?p + n + 0x1000FFF) div 4096 * 4096" by simp
  have "r \<le> m \<and> m < r + 4096" if "r = m div 4096 * 4096" for m r :: nat
    using div_mult_mod_eq [of m 4096] mod_less_divisor [of 4096 m] that by linarith
  from this [OF q] show ?thesis by (simp add: q)
qed

theorem receive_area_apart_witness:
  "\<exists>a st. init_axi sample_args idle_board = Inr (a, st) \<and> 4096 dvd unat (aa_rx_data_ps_ptr a) \<and>
    0x11180010 \<le> unat (aa_rx_data_ps_ptr a)"
proof -
  obtain a st where a: "init_axi sample_args idle_board = Inr (a, st)"
    by (auto simp add: init_axi_def sample_args_def)
  have "sint (aa_tx_data_size sample_args) = int 0x180010"
    "unat (aa_tx_data_ps_ptr sample_args) + 0x180010 + 0x1001000 \<le> 2 ^ 64"
    "unat (aa_tx_data_ps_ptr sample_args) + 0x180010 + 0x1000000 = 0x11180010"
    by (simp_all add: sample_args_def)
  with receive_area_apart [OF a this(1,2)] a show ?thesis by auto
qed

end
