(* ===== verification/Board.thy ===== *)
theory Board
  imports Bare
begin

text \<open>
  \<^verbatim>\<open>hw/src/main.c\<close>, the test program on the board: it reads weights and a picture from the
  card, moves them to the PL memory and back, starts the network, waits for it, and writes the
  result to the card. The file system is Xilinx code; what its calls return is a parameter, and
  the calls that read and write files are kept in order.
\<close>

section \<open>Constants\<close>

definition BM_WEIGHT_ADDR :: u32 where [const_defs]: "BM_WEIGHT_ADDR = 0x15000000"
definition BM_WEIGHT_SIZE :: u32 where [const_defs]: "BM_WEIGHT_SIZE = 0x8d2e00"
definition BM_QUANTIFY_ADDR_PL :: u32 where [const_defs]: "BM_QUANTIFY_ADDR_PL = 0x10010000"
definition BM_QUANTIFY_SIZE :: u32 where [const_defs]: "BM_QUANTIFY_SIZE = 0xC800"
definition PICTURE_BASE_ADDR2 :: u32 where [const_defs]: "PICTURE_BASE_ADDR2 = 0x10000000"
definition PICTURE_BASE_ADDR_PL :: u32 where [const_defs]: "PICTURE_BASE_ADDR_PL = 0x10000000"
definition PICTURE_BASE_SIZE :: u32 where [const_defs]: "PICTURE_BASE_SIZE = 0xfd2000"

section \<open>The card\<close>

datatype sd_op = Sd_read string u32 u32 | Sd_write string u32 u32

text \<open>
  \<open>bt_mounts\<close> says which of the next calls of \<open>f_mount\<close> succeed (all when it is used up),
  \<open>bt_mkfs\<close> whether formatting does. The structs are the program's global variables.
\<close>

record board_t =
  bt_board :: board
  bt_weight :: AxiTangxi_args
  bt_picture :: AxiTangxi_args
  bt_iargs :: iwave_args
  bt_mounts :: "bool list"
  bt_mkfs :: bool
  bt_sd :: "sd_op list"

definition f_mount :: "board_t \<Rightarrow> bool \<times> board_t" where
  "f_mount st = (case bt_mounts st of [] \<Rightarrow> (True, st) | ok # oks \<Rightarrow> (ok, st\<lparr> bt_mounts := oks \<rparr>))"

definition platform_init_fs :: "board_t \<Rightarrow> int \<times> board_t" where
  "platform_init_fs st = (case f_mount st of (ok, st) \<Rightarrow>
     if ok then (0, st)
     else if \<not> bt_mkfs st then (- 1, st)
     else case f_mount st of (ok, st) \<Rightarrow> (if ok then 0 else - 1, st))"

definition sd_mount :: "board_t \<Rightarrow> int \<times> board_t" where
  "sd_mount st = (case platform_init_fs st of (status, st) \<Rightarrow> (if status \<noteq> 0 then 1 else 0, st))"

text \<open>The results of the four calls inside are not looked at.\<close>

definition sd_write_data :: "string \<Rightarrow> u32 \<Rightarrow> u32 \<Rightarrow> board_t \<Rightarrow> int \<times> board_t" where
  "sd_write_data file_name src_addr byte_len st =
     (0, st\<lparr> bt_sd := bt_sd st @ [Sd_write file_name src_addr byte_len] \<rparr>)"

definition sd_read_data :: "string \<Rightarrow> u32 \<Rightarrow> u32 \<Rightarrow> board_t \<Rightarrow> int \<times> board_t" where
  "sd_read_data file_name src_addr byte_len st =
     (0, st\<lparr> bt_sd := bt_sd st @ [Sd_read file_name src_addr byte_len] \<rparr>)"

definition sd_test :: "board_t \<Rightarrow> int \<times> board_t" where
  "sd_test st = (case sd_mount st of (status, st) \<Rightarrow>
     if status \<noteq> 0 then (0, st)
     else let (_, st) = sd_read_data ''1:/weight.bin'' BM_WEIGHT_ADDR BM_WEIGHT_SIZE st;
              (_, st) = sd_read_data ''1:/inputlle.bin'' PICTURE_BASE_ADDR2 PICTURE_BASE_SIZE st
       in (0, st))"

definition sd_write :: "board_t \<Rightarrow> int \<times> board_t" where
  "sd_write st = (case sd_mount st of (status, st) \<Rightarrow>
     if status \<noteq> 0 then (0, st)
     else let (_, st) = sd_write_data ''1:/trans.bin'' 0x70452000 0x7e9000 st in (0, st))"

section \<open>The run\<close>

text \<open>
  A loop that moves \<open>n\<close> bursts of 1 MiB, from and to addresses that advance together. It reuses
  one struct and leaves it behind.
\<close>

definition move_to_pl :: "u64 \<Rightarrow> u64 \<Rightarrow> nat \<Rightarrow> AxiTangxi_args \<times> board \<Rightarrow> (AxiTangxi_args \<times> board) res option" where
  "move_to_pl ps pl n = for_each_opt [0..<n] (\<lambda>i (a, st).
     let a = a\<lparr> aa_tx_data_size := 0x100000, aa_tx_data_ps_ptr := ps + of_nat (i * 0x100000),
           aa_rx_data_pl_ptr := pl + of_nat (i * 0x100000) \<rparr>
     in bind_opt (batch_mm2s_ps_data_s2mm_pl a st) (\<lambda>st. Some (Inr (a, st))))"

definition move_to_ps :: "u64 \<Rightarrow> u64 \<Rightarrow> nat \<Rightarrow> AxiTangxi_args \<times> board \<Rightarrow> (AxiTangxi_args \<times> board) res option" where
  "move_to_ps ps pl n = for_each_opt [0..<n] (\<lambda>i (a, st).
     let a = a\<lparr> aa_rx_data_size := 0x100000, aa_rx_data_ps_ptr := ps + of_nat (i * 0x100000),
           aa_tx_data_pl_ptr := pl + of_nat (i * 0x100000) \<rparr>
     in bind_opt (bm_batch_s2mm_ps_data_mm2s_pl a st) (\<lambda>st. Some (Inr (a, st))))"

text \<open>
  The loop that waits for the network reads the register the interrupt handler clears.
  \<open>arrivals k\<close> says what comes before the \<open>k\<close>-th read: nothing, or an interrupt with a task
  number, and whether the read is still before the handler or after it.
\<close>

partial_function (option) wait_network :: "(nat \<Rightarrow> (u32 \<times> bool) option) \<Rightarrow> nat \<Rightarrow> board \<Rightarrow> board option" where
  "wait_network arrivals k st =
     (let (irq0, st) = (case arrivals k of
          None \<Rightarrow> (get_irq st, st)
        | Some (n, in_time) \<Rightarrow> (if in_time then n else get_irq (interrupt n st), interrupt n st))
      in if irq0 = BM_NETWORK_ACC_DONE then Some st else wait_network arrivals (k + 1) st)"

text \<open>
  \<open>iwave_initial\<close> up to the endless loop at its end; the result is the state in that loop.
\<close>

definition iwave_initial :: "(nat \<Rightarrow> (u32 \<times> bool) option) \<Rightarrow> board_t \<Rightarrow> board_t res option" where
  "iwave_initial arrivals st =
     (let (_, st) = sd_test st in
      bind_opt (Some (init_axi (bt_weight st) (bt_board st))) (\<lambda>(weight, board).
      bind_opt (Some (init_axi (bt_picture st) board)) (\<lambda>(picture, board).
      bind_opt (move_to_pl 0x10000000 0x10000000 16 (picture, board)) (\<lambda>(picture, board).
      bind_opt (move_to_ps 0x30000000 0x10000000 16 (picture, board)) (\<lambda>(picture, board).
      bind_opt (move_to_pl 0x15000000 0x15000000 9 (weight, board)) (\<lambda>(weight, board).
      bind_opt (move_to_ps 0x31000000 0x15000000 9 (weight, board)) (\<lambda>(weight, board).
      let iargs = (bt_iargs st)\<lparr> na_weight_addr := BM_WEIGHT_ADDR, na_weight_size := BM_WEIGHT_SIZE,
            na_quantify_addr := BM_QUANTIFY_ADDR_PL, na_quantify_size := BM_QUANTIFY_SIZE,
            na_picture_addr := PICTURE_BASE_ADDR_PL, na_picture_size := PICTURE_BASE_SIZE \<rparr>;
          (iargs, board) = iwave_start iargs board
      in case wait_network arrivals 0 board of
           None \<Rightarrow> None
         | Some board \<Rightarrow>
      bind_opt (move_to_ps 0x70452000 0x70452000 16 (picture, bm_clean_irq board)) (\<lambda>(picture, board).
      let (_, st) = sd_write (st\<lparr> bt_board := board, bt_weight := weight, bt_picture := picture,
            bt_iargs := iargs \<rparr>)
      in Some (Inr st)))))))))"

datatype outcome = Returned int | Spinning board_t

definition board_main :: "intc_env \<Rightarrow> (nat \<Rightarrow> (u32 \<times> bool) option) \<Rightarrow> board_t \<Rightarrow> outcome res option" where
  "board_main ic arrivals st =
     (if set_intc ic \<noteq> 0 then Some (Inr (Returned 1))
      else bind_opt (iwave_initial arrivals st) (\<lambda>st. Some (Inr (Spinning st))))"

section \<open>The moves\<close>

text \<open>None of the moves stores a task number: the register keeps what it has or is cleared.\<close>

definition not_done :: "board \<Rightarrow> bool" where
  "not_done st \<longleftrightarrow> get_irq st \<noteq> BM_NETWORK_ACC_DONE"

lemma not_done_interrupts: "not_done st \<Longrightarrow> not_done (interrupts st)"
proof -
  have "not_done (fold interrupt ns st)" if "not_done st" for ns and st :: board
    using that by (induction ns arbitrary: st) (simp_all add: not_done_def const_defs)
  moreover assume "not_done st"
  moreover from this have "not_done (st\<lparr> bd_irqs := x \<rparr>)" for x by (simp add: not_done_def get_irq_def)
  ultimately show ?thesis by (simp add: interrupts_def split: list.split)
qed

lemma not_done_WR_u32: "addr \<noteq> reg_at PL_IRQ_TASK_NUM \<Longrightarrow> not_done (WR_u32 data addr st) \<longleftrightarrow> not_done st"
  by (auto simp add: not_done_def get_irq_def WR_u32_def)

lemma batch_loop_keeps:
  assumes "batch_loop issue conf dr bs bd ps st = Some (Inr st')" and "Q st"
    and "\<And>st. Q st \<Longrightarrow> Q (interrupts st)" and "\<And>st. Q st \<Longrightarrow> Q (conf st)"
    and "\<And>ps n st st'. issue ps n st = Inr st' \<Longrightarrow> Q st \<Longrightarrow> Q st'"
  shows "Q st'"
proof -
  let ?P = "\<lambda>i c dr bs bd ps st (r :: board res). i = issue \<longrightarrow> c = conf \<longrightarrow> Q st \<longrightarrow> (\<forall>st'. r = Inr st' \<longrightarrow> Q st')"
  have "?P issue conf dr bs bd ps st (Inr st')"
  proof (rule batch_loop.raw_induct [where P = ?P, OF _ assms(1)], goal_cases)
    case (1 rec i c dr bs bd ps st r)
    show ?case
    proof (intro impI)
      assume i: "i = issue" "c = conf" and "Q st"
      then have q: "Q (interrupts st)" "Q (conf (interrupts st))" using assms(3,4) by blast+
      let ?st = "if dr < bd then conf (interrupts st) else interrupts st"
      obtain d b e where l: "last_burst dr bs bd = (d, b, e)" by (metis surj_pair)
      consider "dr = 0" "r = Inr (interrupts st)" | f where "dr \<noteq> 0" "r = Inl f"
        | st1 where "issue ps b ?st = Inr st1" "rec issue conf (d - e) b e (ps + e) st1 = Some r"
        using 1(2) l unfolding i Let_def
        by (cases "dr = 0"; cases "issue ps b ?st") (auto split: if_split_asm)
      then show "\<forall>st'. r = Inr st' \<longrightarrow> Q st'"
      proof cases
        case 3
        have "Q ?st" using q by simp
        then have "Q st1" using assms(5) 3(1) by blast
        then show ?thesis using 1(1) [OF 3(2)] by blast
      qed (use q in simp_all)
    qed
  qed
  then show ?thesis using assms(2) by blast
qed

lemma not_done_bursts:
  "bm_mm2s_ps_data_s2mm_pl ps pl n st = Inr st' \<Longrightarrow> not_done st \<Longrightarrow> not_done st'"
  "bm_s2mm_ps_data_mm2s_pl ps pl n st = Inr st' \<Longrightarrow> not_done st \<Longrightarrow> not_done st'"
  by (auto simp add: bm_mm2s_ps_data_s2mm_pl_def bm_s2mm_ps_data_mm2s_pl_def and_then_eq_Inr Let_def
      not_done_WR_u32 reg_at_def)

lemma not_done_conf [simp]: "not_done (bd_pl_conf_done_update f st) \<longleftrightarrow> not_done st"
  by (simp add: not_done_def get_irq_def)

lemma not_done_batch:
  shows "batch_mm2s_ps_data_s2mm_pl a st = Some (Inr st') \<Longrightarrow> not_done st \<Longrightarrow> not_done st'"
    and "bm_batch_s2mm_ps_data_mm2s_pl a st = Some (Inr st') \<Longrightarrow> not_done st \<Longrightarrow> not_done st'"
proof -
  show "not_done st'" if "batch_mm2s_ps_data_s2mm_pl a st = Some (Inr st')" "not_done st"
    using that(1) unfolding batch_mm2s_ps_data_s2mm_pl_def
    by (rule batch_loop_keeps [where Q = not_done]) (use that(2) in \<open>auto intro: not_done_interrupts not_done_bursts\<close>)
  show "not_done st'" if "bm_batch_s2mm_ps_data_mm2s_pl a st = Some (Inr st')" "not_done st"
    using that(1) unfolding bm_batch_s2mm_ps_data_mm2s_pl_def
    by (rule batch_loop_keeps [where Q = not_done]) (use that(2) in \<open>auto intro: not_done_interrupts not_done_bursts\<close>)
qed

text \<open>The bursts of such a loop.\<close>

definition bursts_to_pl :: "u32 \<Rightarrow> u32 \<Rightarrow> nat \<Rightarrow> (u64 \<times> u32) list" where
  "bursts_to_pl ps pl n = board_writes (burst_events mm2s_ps_data_s2mm_pl True ps pl (replicate n 0x100000))"

definition bursts_to_ps :: "u32 \<Rightarrow> u32 \<Rightarrow> nat \<Rightarrow> (u64 \<times> u32) list" where
  "bursts_to_ps ps pl n = board_writes (burst_events s2mm_ps_data_mm2s_pl True ps pl (replicate n 0x100000))"

lemma ucast_offset: "(ucast (p + of_nat (i * 0x100000) :: u64) :: u32) = ucast p + of_nat (i * 0x100000)"
  by (simp add: ucast_plus ucast_of_nat_u64_u32 del: of_nat_mult)

lemma move_to_pl_ok:
  assumes "set_up a"
  shows "\<exists>a' st'. move_to_pl ps pl n (a, st) = Some (Inr (a', st')) \<and> set_up a' \<and>
    bd_writes st' = bd_writes st @ bursts_to_pl (ucast ps) (ucast pl) n \<and> (not_done st \<longrightarrow> not_done st')"
proof -
  let ?I = "\<lambda>i (a', st' :: board). set_up a' \<and>
    bd_writes st' = bd_writes st @ bursts_to_pl (ucast ps) (ucast pl) i \<and> (not_done st \<longrightarrow> not_done st')"
  have "\<exists>r. move_to_pl ps pl n (a, st) = Some (Inr r) \<and> ?I n r"
    unfolding move_to_pl_def
  proof (rule for_each_opt_invariant [where I = ?I])
    fix i and r :: "AxiTangxi_args \<times> board"
    assume I: "?I i r"
    obtain a1 st1 where r: "r = (a1, st1)" by (cases r)
    let ?a = "a1\<lparr> aa_tx_data_size := 0x100000, aa_tx_data_ps_ptr := ps + of_nat (i * 0x100000),
      aa_rx_data_pl_ptr := pl + of_nat (i * 0x100000) \<rparr>"
    have "replicate (Suc i) 0x100000 = replicate i 0x100000 @ [0x100000 :: nat]"
      by (simp add: replicate_append_same)
    then show "\<exists>s'. (case r of (a, st) \<Rightarrow>
        let a = a\<lparr> aa_tx_data_size := 0x100000, aa_tx_data_ps_ptr := ps + of_nat (i * 0x100000),
          aa_rx_data_pl_ptr := pl + of_nat (i * 0x100000) \<rparr>
        in bind_opt (batch_mm2s_ps_data_s2mm_pl a st) (\<lambda>st. Some (Inr (a, st)))) = Some (Inr s') \<and> ?I (Suc i) s'"
      using to_pl.run_one [of ?a st1] not_done_batch(1) [of ?a st1] I r
      by (auto simp add: set_up_def ucast_offset bursts_to_pl_def burst_events_snoc sum_list_replicate
          simp del: of_nat_mult)
  qed (use assms in \<open>simp_all add: bursts_to_pl_def board_writes_def\<close>)
  then show ?thesis by auto
qed

lemma move_to_ps_ok:
  assumes "set_up a"
  shows "\<exists>a' st'. move_to_ps ps pl n (a, st) = Some (Inr (a', st')) \<and> set_up a' \<and>
    bd_writes st' = bd_writes st @ bursts_to_ps (ucast ps) (ucast pl) n \<and> (not_done st \<longrightarrow> not_done st')"
proof -
  let ?I = "\<lambda>i (a', st' :: board). set_up a' \<and>
    bd_writes st' = bd_writes st @ bursts_to_ps (ucast ps) (ucast pl) i \<and> (not_done st \<longrightarrow> not_done st')"
  have "\<exists>r. move_to_ps ps pl n (a, st) = Some (Inr r) \<and> ?I n r"
    unfolding move_to_ps_def
  proof (rule for_each_opt_invariant [where I = ?I])
    fix i and r :: "AxiTangxi_args \<times> board"
    assume I: "?I i r"
    obtain a1 st1 where r: "r = (a1, st1)" by (cases r)
    let ?a = "a1\<lparr> aa_rx_data_size := 0x100000, aa_rx_data_ps_ptr := ps + of_nat (i * 0x100000),
      aa_tx_data_pl_ptr := pl + of_nat (i * 0x100000) \<rparr>"
    have "replicate (Suc i) 0x100000 = replicate i 0x100000 @ [0x100000 :: nat]"
      by (simp add: replicate_append_same)
    then show "\<exists>s'. (case r of (a, st) \<Rightarrow>
        let a = a\<lparr> aa_rx_data_size := 0x100000, aa_rx_data_ps_ptr := ps + of_nat (i * 0x100000),
          aa_tx_data_pl_ptr := pl + of_nat (i * 0x100000) \<rparr>
        in bind_opt (bm_batch_s2mm_ps_data_mm2s_pl a st) (\<lambda>st. Some (Inr (a, st)))) = Some (Inr s') \<and> ?I (Suc i) s'"
      using to_ps.run_one [of ?a st1] not_done_batch(2) [of ?a st1] I r
      by (auto simp add: set_up_def ucast_offset bursts_to_ps_def burst_events_snoc sum_list_replicate
          simp del: of_nat_mult)
  qed (use assms in \<open>simp_all add: bursts_to_ps_def board_writes_def\<close>)
  then show ?thesis by auto
qed

section \<open>Waiting for the network\<close>

lemma wait_network_ends:
  assumes "arrivals j = Some (BM_NETWORK_ACC_DONE, True)" and "k \<le> j"
  shows "\<exists>st'. wait_network arrivals k st = Some st' \<and> bd_writes st' = bd_writes st"
  using assms(2)
proof (induction "j - k" arbitrary: k st)
  case 0
  then show ?case using assms(1) by (subst wait_network.simps) simp
next
  case (Suc d)
  have IH: "\<exists>st'. wait_network arrivals (Suc k) st0 = Some st' \<and> bd_writes st' = bd_writes st0" for st0
    using Suc.hyps(2) by (intro Suc.hyps(1)) auto
  show ?case
    using IH [of st] IH [of "interrupt n st" for n]
    by (subst wait_network.simps) (auto split: option.split)
qed

lemma wait_network_stuck:
  assumes "\<And>k n. arrivals k = Some (n, True) \<Longrightarrow> n \<noteq> BM_NETWORK_ACC_DONE"
    and "get_irq st \<noteq> BM_NETWORK_ACC_DONE"
  shows "wait_network arrivals k st = None"
proof (rule ccontr)
  assume "wait_network arrivals k st \<noteq> None"
  then obtain y where y: "wait_network arrivals k st = Some y" by blast
  have "arrivals = as \<longrightarrow> get_irq st = BM_NETWORK_ACC_DONE" if "wait_network as k st = Some y" for as k st y
  proof (rule wait_network.raw_induct [where P = "\<lambda>as k st y. arrivals = as \<longrightarrow> get_irq st = BM_NETWORK_ACC_DONE",
        OF _ that], goal_cases)
    case (1 rec as k st y)
    have z: "(0 :: u32) \<noteq> BM_NETWORK_ACC_DONE" by (simp add: const_defs)
    then have "rec as (k + 1) (interrupt n st) \<noteq> Some y" if "arrivals = as" for n
      using 1(1) [of as "k + 1" "interrupt n st" y] that by auto
    then show ?case
      using z 1(2) 1(1) [of as "k + 1" st y] assms(1) [of k] by (auto split: option.splits if_splits)
  qed
  with y assms(2) show False by blast
qed

section \<open>Properties\<close>

lemma sd_test_fields:
  "bt_board (snd (sd_test st)) = bt_board st" "bt_weight (snd (sd_test st)) = bt_weight st"
  "bt_picture (snd (sd_test st)) = bt_picture st" "bt_iargs (snd (sd_test st)) = bt_iargs st"
  by (auto simp add: sd_test_def sd_mount_def platform_init_fs_def f_mount_def sd_read_data_def
      split: list.splits prod.splits if_splits)

lemma sd_write_fields:
  "bt_board (snd (sd_write st)) = bt_board st" "bt_iargs (snd (sd_write st)) = bt_iargs st"
  by (auto simp add: sd_write_def sd_mount_def platform_init_fs_def f_mount_def sd_write_data_def
      split: list.splits prod.splits if_splits)

text \<open>The run up to the wait, and what follows it.\<close>

lemma snd_of: "(case q of (z, st) \<Rightarrow> Some (Inr st :: 'b res)) = Some (Inr (snd q))"
  by (cases q) simp

lemma iwave_initial_wait:
  assumes "aa_tx_data_size (bt_weight st) = 0" and "aa_tx_data_size (bt_picture st) = 0"
  shows "\<exists>b p w st0 iargs. set_up p \<and>
    bd_writes b = bd_writes (bt_board st) @ bursts_to_pl 0x10000000 0x10000000 16
      @ bursts_to_ps 0x30000000 0x10000000 16 @ bursts_to_pl 0x15000000 0x15000000 9
      @ bursts_to_ps 0x31000000 0x15000000 9 @ [(reg_at ENGINE_CR, 1)] \<and>
    (not_done (bt_board st) \<longrightarrow> not_done b) \<and>
    iwave_initial arrivals st = (case wait_network arrivals 0 b of
        None \<Rightarrow> None
      | Some b \<Rightarrow> bind_opt (move_to_ps 0x70452000 0x70452000 16 (p, bm_clean_irq b)) (\<lambda>(p, b).
          Some (Inr (snd (sd_write (st0\<lparr> bt_board := b, bt_weight := w, bt_picture := p, bt_iargs := iargs \<rparr>))))))"
proof -
  obtain z st0 where t: "sd_test st = (z, st0)" by fastforce
  then have f: "bt_board st0 = bt_board st" "bt_weight st0 = bt_weight st" "bt_picture st0 = bt_picture st"
    using sd_test_fields [of st] by simp_all
  obtain w b1 where w: "init_axi (bt_weight st) (bt_board st) = Inr (w, b1)"
    using assms(1) by (simp add: init_axi_def)
  obtain p b2 where p: "init_axi (bt_picture st) b1 = Inr (p, b2)"
    using assms(2) by (simp add: init_axi_def)
  have s: "set_up w" "set_up p" using init_axi_Inr(1,2) [OF w] init_axi_Inr(1,2) [OF p] by (simp_all add: set_up_def)
  have b2: "bd_writes b2 = bd_writes (bt_board st)" "not_done (bt_board st) \<longrightarrow> not_done b2"
    using w p by (auto simp add: init_axi_def not_done_def get_irq_def split: if_splits)
  obtain p1 b3 where m1: "move_to_pl 0x10000000 0x10000000 16 (p, b2) = Some (Inr (p1, b3))" "set_up p1"
      "bd_writes b3 = bd_writes b2 @ bursts_to_pl 0x10000000 0x10000000 16" "not_done b2 \<longrightarrow> not_done b3"
    using move_to_pl_ok [OF s(2), of "0x10000000" "0x10000000" 16 b2] by auto
  obtain p2 b4 where m2: "move_to_ps 0x30000000 0x10000000 16 (p1, b3) = Some (Inr (p2, b4))" "set_up p2"
      "bd_writes b4 = bd_writes b3 @ bursts_to_ps 0x30000000 0x10000000 16" "not_done b3 \<longrightarrow> not_done b4"
    using move_to_ps_ok [OF m1(2), of "0x30000000" "0x10000000" 16 b3] by auto
  obtain w1 b5 where m3: "move_to_pl 0x15000000 0x15000000 9 (w, b4) = Some (Inr (w1, b5))" "set_up w1"
      "bd_writes b5 = bd_writes b4 @ bursts_to_pl 0x15000000 0x15000000 9" "not_done b4 \<longrightarrow> not_done b5"
    using move_to_pl_ok [OF s(1), of "0x15000000" "0x15000000" 9 b4] by auto
  obtain w2 b6 where m4: "move_to_ps 0x31000000 0x15000000 9 (w1, b5) = Some (Inr (w2, b6))"
      "bd_writes b6 = bd_writes b5 @ bursts_to_ps 0x31000000 0x15000000 9" "not_done b5 \<longrightarrow> not_done b6"
    using move_to_ps_ok [OF m3(2), of "0x31000000" "0x15000000" 9 b5] by auto
  let ?b7 = "WR_u32 1 (reg_at ENGINE_CR) b6"
  obtain iargs where i: "iwave_start ((bt_iargs st0)\<lparr> na_weight_addr := BM_WEIGHT_ADDR, na_weight_size := BM_WEIGHT_SIZE,
      na_quantify_addr := BM_QUANTIFY_ADDR_PL, na_quantify_size := BM_QUANTIFY_SIZE,
      na_picture_addr := PICTURE_BASE_ADDR_PL, na_picture_size := PICTURE_BASE_SIZE \<rparr>) b6 = (iargs, ?b7)"
    by (simp add: iwave_start_def Let_def)
  have "iwave_initial arrivals st = (case wait_network arrivals 0 ?b7 of
        None \<Rightarrow> None
      | Some b \<Rightarrow> bind_opt (move_to_ps 0x70452000 0x70452000 16 (p2, bm_clean_irq b)) (\<lambda>(p, b).
          Some (Inr (snd (sd_write (st0\<lparr> bt_board := b, bt_weight := w2, bt_picture := p, bt_iargs := iargs \<rparr>))))))"
    unfolding iwave_initial_def Let_def t prod.case f w p bind_opt_simps m1(1) m2(1) m3(1) m4(1) i
    by (simp only: snd_of)
  moreover have "bd_writes ?b7 = bd_writes (bt_board st) @ bursts_to_pl 0x10000000 0x10000000 16
      @ bursts_to_ps 0x30000000 0x10000000 16 @ bursts_to_pl 0x15000000 0x15000000 9
      @ bursts_to_ps 0x31000000 0x15000000 9 @ [(reg_at ENGINE_CR, 1)]"
    using b2(1) m1(3) m2(3) m3(3) m4(2) by (simp add: WR_u32_def)
  moreover have "not_done (bt_board st) \<longrightarrow> not_done ?b7"
    using b2(2) m1(4) m2(4) m3(4) m4(3) by (simp add: not_done_WR_u32 reg_at_def)
  ultimately show ?thesis using m2(2) by blast
qed

lemma iwave_initial_run:
  assumes "aa_tx_data_size (bt_weight st) = 0" and "aa_tx_data_size (bt_picture st) = 0"
    and "arrivals j = Some (BM_NETWORK_ACC_DONE, True)"
  shows "\<exists>st'. iwave_initial arrivals st = Some (Inr st') \<and>
    bd_writes (bt_board st') = bd_writes (bt_board st) @ bursts_to_pl 0x10000000 0x10000000 16
      @ bursts_to_ps 0x30000000 0x10000000 16 @ bursts_to_pl 0x15000000 0x15000000 9
      @ bursts_to_ps 0x31000000 0x15000000 9 @ [(reg_at ENGINE_CR, 1)] @ bursts_to_ps 0x70452000 0x70452000 16"
proof -
  from iwave_initial_wait [OF assms(1,2), of arrivals] obtain b p w st0 iargs where s: "set_up p"
    "bd_writes b = bd_writes (bt_board st) @ bursts_to_pl 0x10000000 0x10000000 16
      @ bursts_to_ps 0x30000000 0x10000000 16 @ bursts_to_pl 0x15000000 0x15000000 9
      @ bursts_to_ps 0x31000000 0x15000000 9 @ [(reg_at ENGINE_CR, 1)]"
    "iwave_initial arrivals st = (case wait_network arrivals 0 b of
        None \<Rightarrow> None
      | Some b \<Rightarrow> bind_opt (move_to_ps 0x70452000 0x70452000 16 (p, bm_clean_irq b)) (\<lambda>(p, b).
          Some (Inr (snd (sd_write (st0\<lparr> bt_board := b, bt_weight := w, bt_picture := p, bt_iargs := iargs \<rparr>))))))"
    by blast
  obtain b1 where n: "wait_network arrivals 0 b = Some b1" "bd_writes b1 = bd_writes b"
    using wait_network_ends [of arrivals j 0 b] assms(3) by auto
  obtain p1 b2 where "move_to_ps 0x70452000 0x70452000 16 (p, bm_clean_irq b1) = Some (Inr (p1, b2))"
      "bd_writes b2 = bd_writes b1 @ bursts_to_ps 0x70452000 0x70452000 16"
    using move_to_ps_ok [OF s(1), of "0x70452000" "0x70452000" 16 "bm_clean_irq b1"]
    by (auto simp add: bm_clean_irq_def)
  then show ?thesis using s(2,3) n by (simp add: sd_write_fields(1))
qed

text \<open>
  C20: what a run of the board's program makes the hardware do, whatever the card delivers and
  whatever interrupts come, when one read of the task number is in time: it moves the sixteen
  bursts of the picture and the nine of the weights to the PL memory, each to the address it has
  in the PS memory, and back to another place, starts the network once, and moves the sixteen
  bursts of the result. The quantification factors, which the comment on \<open>iwave_initial\<close> names too,
  are not moved.
\<close>

theorem board_program_run:
  assumes "aa_tx_data_size (bt_weight st) = 0" and "aa_tx_data_size (bt_picture st) = 0"
    and "arrivals j = Some (BM_NETWORK_ACC_DONE, True)" and "set_intc ic = 0"
  shows "\<exists>st'. board_main ic arrivals st = Some (Inr (Spinning st')) \<and>
    bd_writes (bt_board st') = bd_writes (bt_board st)
      @ bursts_to_pl 0x10000000 0x10000000 16 @ bursts_to_ps 0x30000000 0x10000000 16
      @ bursts_to_pl 0x15000000 0x15000000 9 @ bursts_to_ps 0x31000000 0x15000000 9
      @ [(reg_at ENGINE_CR, 1)] @ bursts_to_ps 0x70452000 0x70452000 16"
  using iwave_initial_run [of st arrivals j] assms(1-3) assms(4) by (auto simp add: board_main_def)

definition sample_board :: board_t where
  "sample_board = \<lparr> bt_board = idle_board, bt_weight = sample_args\<lparr> aa_tx_data_size := 0 \<rparr>,
     bt_picture = sample_args\<lparr> aa_tx_data_size := 0 \<rparr>,
     bt_iargs = \<lparr> na_control = 0, na_weight_addr = 0, na_weight_size = 0, na_quantify_addr = 0,
       na_quantify_size = 0, na_picture_addr = 0, na_picture_size = 0, na_trans_addr = 0,
       na_trans_size = 0, na_entropy_addr = 0, na_entropy_size = 0 \<rparr>,
     bt_mounts = [], bt_mkfs = True, bt_sd = [] \<rparr>"

theorem board_program_run_witness:
  "\<exists>st'. board_main \<lparr> ic_lookup = True, ic_initialize = 0, ic_connect = 0 \<rparr>
      (\<lambda>k. if k = 3 then Some (263, True) else None) sample_board = Some (Inr (Spinning st')) \<and>
    bd_writes (bt_board st') =
      bursts_to_pl 0x10000000 0x10000000 16 @ bursts_to_ps 0x30000000 0x10000000 16
      @ bursts_to_pl 0x15000000 0x15000000 9 @ bursts_to_ps 0x31000000 0x15000000 9
      @ [(reg_at ENGINE_CR, 1)] @ bursts_to_ps 0x70452000 0x70452000 16"
  using board_program_run [of sample_board "\<lambda>k. if k = 3 then Some (263, True) else None" 3
      "\<lparr> ic_lookup = True, ic_initialize = 0, ic_connect = 0 \<rparr>"]
  by (simp add: sample_board_def idle_board_def const_defs set_intc_def initInterruptSystem_def)


text \<open>
  C34: the program waits for ever when the interrupt is taken first. It polls the register that
  its interrupt handler clears; unless one of the reads comes between the end of the network and
  the handler, it never leaves the loop, and no result is fetched or written.
\<close>

theorem handled_completion_is_never_seen:
  assumes "aa_tx_data_size (bt_weight st) = 0" and "aa_tx_data_size (bt_picture st) = 0"
    and "get_irq (bt_board st) \<noteq> BM_NETWORK_ACC_DONE"
    and "\<And>k n. arrivals k = Some (n, True) \<Longrightarrow> n \<noteq> BM_NETWORK_ACC_DONE" and "set_intc ic = 0"
  shows "board_main ic arrivals st = None"
proof -
  have "not_done (bt_board st)" using assms(3) by (simp add: not_done_def)
  then obtain b rest where b: "not_done b"
      "iwave_initial arrivals st = (case wait_network arrivals 0 b of None \<Rightarrow> None | Some b \<Rightarrow> rest b)"
    using iwave_initial_wait [OF assms(1,2), of arrivals] by blast
  moreover have "wait_network arrivals 0 b = None"
    using wait_network_stuck [of arrivals b] assms(4) b(1) by (simp add: not_done_def)
  ultimately show ?thesis using assms(5) by (simp add: board_main_def)
qed

theorem handled_completion_is_never_seen_witness:
  "board_main \<lparr> ic_lookup = True, ic_initialize = 0, ic_connect = 0 \<rparr>
    (\<lambda>k. if k = 3 then Some (263, False) else None) sample_board = None"
  by (rule handled_completion_is_never_seen)
    (simp_all add: sample_board_def idle_board_def const_defs set_intc_def initInterruptSystem_def
      get_irq_def split: if_splits)

lemma burst_registers:
  "fst ` set (bursts_to_pl ps pl n) \<subseteq> reg_at ` {DMA_MM2S_PS_ADDR, DMA_MM2S_PS_SIZE, DMA_S2MM_PL_ADDR, DMA_S2MM_PL_SIZE}"
  "fst ` set (bursts_to_ps ps pl n) \<subseteq> reg_at ` {DMA_MM2S_PL_ADDR, DMA_MM2S_PL_SIZE, DMA_S2MM_PS_ADDR, DMA_S2MM_PS_SIZE}"
  by (auto simp add: bursts_to_pl_def bursts_to_ps_def board_writes_def burst_events_def Let_def
      mm2s_ps_data_s2mm_pl_def s2mm_ps_data_mm2s_pl_def)



end
