(* ===== verification/Files.thy ===== *)
theory Files
  imports Slave Utils
begin

text \<open>
  The other way to run \<^verbatim>\<open>main.c\<close>: pictures given on the command line are encoded one after
  the other, each stream goes to a file of its own, and no command is served. In a dry run the
  streams are the pictures.
\<close>

text \<open>
  What surrounds the loop. For the \<open>k\<close>-th operand: the file, the fresh blocks its frames go
  into, and the output file; \<open>fl_usable\<close> is the usable size of a block of so many bytes, \<open>fl_junk\<close>
  what an uninitialised output argument holds.
\<close>

record files_env =
  fl_env :: env_t
  fl_file :: "nat \<Rightarrow> file_env"
  fl_bytes :: "nat \<Rightarrow> bytes option"
  fl_frames :: "nat \<Rightarrow> data_frame_t list option"
  fl_bin :: "nat \<Rightarrow> out_file"
  fl_usable :: "nat \<Rightarrow> nat"
  fl_junk :: "u16 \<times> data_frame_t list option"

definition encoded_filename :: "files_env \<Rightarrow> string \<Rightarrow> u32 \<Rightarrow> string res" where
  "encoded_filename env out_dir k = print_file_name (e_malloc (fl_env env)) (fl_usable env) out_dir k ''.bin''"

text \<open>The output files are kept with the state, in order.\<close>

definition encode_file :: "files_env \<Rightarrow> opt_t \<Rightarrow> nat \<Rightarrow> slave_t \<times> out_file list \<Rightarrow>
    (slave_t \<times> out_file list) res" where
  "encode_file env opt k st =
     (case st of (s, files) \<Rightarrow>
      and_then (get_at (o_files opt) k) (\<lambda>_.
      and_then (get_data_frames (fl_file env k) (fl_bytes env k) (fl_frames env k)
        (of_nat k, fst (fl_junk env), snd (fl_junk env)) (o_binary opt))
        (\<lambda>(ret_status, n_file, n_frame, frames).
      if ret_status = 1 then Inr (s, files)
      else if ret_status = 3 then Inl ErrExit
      else and_then (get_at (sl_bit_streams s) (unat n_file)) (\<lambda>stream.
        and_then (process_data_frames_dry_run (fl_env env) (case frames of None \<Rightarrow> [] | Some fs \<Rightarrow> fs)
          n_frame (d8_addr stream) (sl_status s) (sl_dev s)) (\<lambda>(len, addr, status, dev).
        let s = s\<lparr> sl_status := status, sl_dev := dev, sl_bit_streams := (sl_bit_streams s)
              [unat n_file := \<lparr> d8_addr = addr, d8_len = len \<rparr>] \<rparr>
        in and_then (encoded_filename env (o_out_dir opt) (of_nat k)) (\<lambda>_.
           and_then (dump_mem (case addr of None \<Rightarrow> [] | Some bs \<Rightarrow> bs) len (fl_bin env k)) (\<lambda>(_, f).
           Inr (s, files @ [f]))))))))"

definition encode_files :: "files_env \<Rightarrow> opt_t \<Rightarrow> slave_t \<Rightarrow> (slave_t \<times> out_file list) res" where
  "encode_files env opt s = for_each [0..<unat (o_number opt)] (encode_file env opt) (s, [])"

section \<open>Properties\<close>

lemma get_data_frames_skips:
  assumes "get_data_frames f bytes frames out binary = Inr (1, out')"
  shows "unopened f"
proof (rule ccontr)
  assume "\<not> unopened f"
  then obtain fl where "fe_open f = Some fl" "fe_fstat_ok f" by (auto simp add: unopened_def)
  then show False
    using assms by (cases "out")
      (auto simp add: get_data_frames_def Let_def and_then_eq_Inr split: option.splits if_splits)
qed

text \<open>
  One operand: a file that cannot be opened is skipped; one that can is encoded, in a dry run to
  what its frames hold, and saved.
\<close>

definition given_file :: "files_env \<Rightarrow> nat \<Rightarrow> bytes option \<Rightarrow> bool" where
  "given_file env k c \<longleftrightarrow> (case c of None \<Rightarrow> unopened (fl_file env k)
     | Some xs \<Rightarrow> readable_file (fl_file env k) (fl_frames env k) xs \<and> writable (fl_bin env k))"

definition saved_file :: "files_env \<Rightarrow> nat \<Rightarrow> bytes option \<Rightarrow> out_file list" where
  "saved_file env k c = (case c of None \<Rightarrow> [] | Some xs \<Rightarrow> [(fl_bin env k)\<lparr> of_bytes := loaded xs \<rparr>])"

definition saved_files :: "files_env \<Rightarrow> bytes option list \<Rightarrow> out_file list" where
  "saved_files env cs = concat (map (\<lambda>k. saved_file env k (cs ! k)) [0..<length cs])"

definition roomy_names :: "files_env \<Rightarrow> opt_t \<Rightarrow> bool" where
  "roomy_names env opt \<longleftrightarrow> length (o_out_dir opt) + 7 \<le> fl_usable env (file_name_size (o_out_dir opt))"

lemma encode_file_dry:
  assumes "e_dry_run (fl_env env)" and "\<And>n. e_malloc (fl_env env) n" and "roomy_names env opt"
    and "\<not> o_binary opt" and "k < length (o_files opt)" and "k < 8" and "length (sl_bit_streams s) = 8"
    and "given_file env k c"
  shows "\<exists>s'. encode_file env opt k (s, files) = Inr (s', files @ saved_file env k c) \<and>
    length (sl_bit_streams s') = 8"
proof (cases c)
  case None
  then have "unopened (fl_file env k)" using assms(8) by (simp add: given_file_def)
  then show ?thesis
    using assms(4,5,7) None by (simp add: encode_file_def get_data_frames_unopened saved_file_def)
next
  case (Some xs)
  then have c: "readable_file (fl_file env k) (fl_frames env k) xs" "writable (fl_bin env k)"
    using assms(8) by (simp_all add: given_file_def)
  obtain ret fs where fs: "get_data_frames (fl_file env k) (fl_bytes env k) (fl_frames env k)
        (of_nat k, fst (fl_junk env), snd (fl_junk env)) False = Inr (ret, of_nat k, of_nat (length fs), Some fs)"
      "ret \<in> {0, 2}" "length fs < 65536" "list_all fits fs" "concat (map payload fs) = loaded xs"
    using get_data_frames_loads [OF c(1), of "fl_bytes env k" "of_nat k" "(fst (fl_junk env), snd (fl_junk env))"]
    by auto
  have len: "payloads_len fs = length (loaded xs)" using length_payloads [OF fs(4)] fs(5) by simp
  have p: "process_data_frames_dry_run (fl_env env) fs (of_nat (length fs)) p status dev =
      Inr (length (loaded xs), Some (loaded xs), status, dev)" for p status dev
    using data_frame_to_data_len_ok [of "length fs" fs] assms(1,2) fs(3-5) len
      data_frames_to_data_ok [of "length fs" fs "replicate (payloads_len fs) 0"]
    by (simp add: process_data_frames_dry_run_def)
  have k: "unat (of_nat k :: u32) = k" using assms(6) by (simp add: unat_of_nat_u32)
  have "length (percent_d (of_nat k)) = 1" using percent_d_digit [of "of_nat k"] k assms(6) by simp
  then have name: "\<exists>name. encoded_filename env (o_out_dir opt) (of_nat k) = Inr name"
    using file_name_needs_more(2) [of "''.bin''" "e_malloc (fl_env env)" "o_out_dir opt" "of_nat k" "fl_usable env"]
      assms(2,3) by (simp add: encoded_filename_def roomy_names_def)
  show ?thesis
    using fs(1,2) p name k assms(4-7) dump_mem_ok [OF c(2), of "loaded xs"] Some
    by (auto simp add: encode_file_def Let_def saved_file_def)
qed

lemma encode_files_dry:
  assumes "e_dry_run (fl_env env)" and "\<And>n. e_malloc (fl_env env) n" and "roomy_names env opt"
    and "\<not> o_binary opt" and "unat (o_number opt) = length cs" and "length (o_files opt) = length cs"
    and "length cs \<le> 8" and "length (sl_bit_streams s) = 8" and "\<forall>k < length cs. given_file env k (cs ! k)"
  shows "\<exists>s'. encode_files env opt s = Inr (s', saved_files env cs)"
proof -
  let ?I = "\<lambda>i (st :: slave_t \<times> out_file list). snd st = concat (map (\<lambda>k. saved_file env k (cs ! k)) [0..<i]) \<and>
    length (sl_bit_streams (fst st)) = 8"
  have "\<exists>st. for_each [0..<length cs] (encode_file env opt) (s, []) = Inr st \<and> ?I (length cs) st"
  proof (rule for_each_invariant [where I = ?I])
    fix i st assume i: "i < length cs" and I: "?I i st"
    show "\<exists>st'. encode_file env opt i st = Inr st' \<and> ?I (Suc i) st'"
      using encode_file_dry [OF assms(1-4), of i "fst st" "cs ! i" "snd st"] i I assms(6,7,9)
      by (cases st) auto
  qed (simp_all add: assms(8))
  then obtain st where "encode_files env opt s = Inr st" "?I (length cs) st"
    using assms(5) by (auto simp add: encode_files_def)
  then show ?thesis by (cases st) (auto simp add: saved_files_def)
qed

text \<open>
  Where a block has no more bytes than were asked for, no picture given on the command line is
  encoded and saved: the name of the output file overruns its block, which is one byte short at
  least. The loop then ends normally only when no file could be opened, and has done nothing.
\<close>

theorem encoding_overruns_the_name:
  assumes "encode_files env opt s = Inr r" and "\<And>n. fl_usable env n \<le> n"
  shows "r = (s, []) \<and> (\<forall>k < unat (o_number opt). unopened (fl_file env k))"
proof -
  have name: "encoded_filename env dir k \<noteq> Inr n" for dir k n
    using file_name_needs_more(1) [of "''.bin''" "e_malloc (fl_env env)" dir "fl_usable env" k] assms(2)
    by (cases "e_malloc (fl_env env) (file_name_size dir)") (simp_all add: encoded_filename_def print_file_name_def)
  have skips: "unopened (fl_file env k) \<and> st' = st" if "encode_file env opt k st = Inr st'" for k st st'
    using that
    by (auto simp add: encode_file_def and_then_eq_Inr name Let_def
        split: prod.splits if_splits dest: get_data_frames_skips [unfolded One_nat_def])
  have "r = st \<and> (\<forall>k \<in> set ks. unopened (fl_file env k))" if "for_each ks (encode_file env opt) st = Inr r"
    for ks st
    using that
  proof (induction ks arbitrary: st)
    case (Cons k ks)
    then obtain st1 where "encode_file env opt k st = Inr st1" "for_each ks (encode_file env opt) st1 = Inr r"
      by (auto simp add: and_then_eq_Inr)
    then show ?case using skips [of k st st1] Cons.IH [of st1] by simp
  qed simp
  from this [of "[0..<unat (o_number opt)]" "(s, [])"] show ?thesis
    using assms by (simp add: encode_files_def)
qed

text \<open>The caller of \<open>dump_mem\<close> compares with -1 only; three of its failures are reported otherwise.\<close>

lemma dump_failures_look_fine:
  assumes "mkdir_p f = - 1 \<or> \<not> of_open_ok f \<or> len \<le> length addr \<and> \<not> of_close_ok f"
  shows "\<exists>r f'. dump_mem addr len f = Inr (r, f') \<and> r \<notin> {- 1} \<and> r < 0"
  using assms by (auto simp add: dump_mem_def Let_def open_out_def write_out_def split: list.splits option.splits)

definition no_files_env :: files_env where
  "no_files_env = \<lparr> fl_env = sample_env, fl_file = (\<lambda>_. \<lparr> fe_open = None, fe_fstat_ok = True, fe_close_ok = True \<rparr>),
     fl_bytes = (\<lambda>_. None), fl_frames = (\<lambda>_. None), fl_bin = (\<lambda>_. good_file), fl_usable = (\<lambda>n. n),
     fl_junk = (0, None) \<rparr>"

theorem encoding_overruns_the_name_witness:
  "\<exists>r. encode_files no_files_env ((init_opt None)\<lparr> o_files := [''a.yuv''], o_number := 1 \<rparr>)
      (init_slave idle_tty sample_dev) = Inr r \<and> r = (init_slave idle_tty sample_dev, [])"
proof -
  let ?opt = "(init_opt None)\<lparr> o_files := [''a.yuv''], o_number := 1 \<rparr>" and ?s = "init_slave idle_tty sample_dev"
  have "\<exists>r. encode_files no_files_env ?opt ?s = Inr r"
    by (simp add: encode_files_def encode_file_def no_files_env_def get_data_frames_def)
  then show ?thesis using encoding_overruns_the_name [of no_files_env ?opt ?s] by (simp add: no_files_env_def) blast
qed

end
