(* ===== verification/DryRun.thy ===== *)
theory DryRun
  imports Slave
begin

text \<open>
  What can stop a slave in a dry run, whose memory does not run out and whose line takes what is sent:
  of the steps of the command loop, only those that the line or a SEND brings down.
\<close>

section \<open>The invariant of a dry run\<close>

text \<open>
  Besides the invariant of every run: nothing on the sending side is pending or fails, and a stream is
  as long as its block and has no more bytes than the frames of one upload.
\<close>

definition dry_stream :: "data8_t \<Rightarrow> bool" where
  "dry_stream st \<longleftrightarrow> (case d8_addr st of None \<Rightarrow> d8_len st = 0
     | Some b \<Rightarrow> length b = d8_len st \<and> d8_len st \<le> 65535 * TP_FRAME_DATA_LEN_MAX)"

definition dry_inv :: "slave_t \<Rightarrow> bool" where
  "dry_inv s \<longleftrightarrow> slave_inv s \<and> tx_idle (sl_tty s) \<and> list_all dry_stream (sl_bit_streams s)"

definition dry_env :: "env_t \<Rightarrow> bool" where
  "dry_env env \<longleftrightarrow> e_dry_run env \<and> (\<forall>n. e_malloc env n) \<and> (\<forall>n. length (e_frames env n) = n)"

lemma dry_inv_init: "tx_idle tty \<Longrightarrow> dry_inv (init_slave tty dev)"
  using slave_inv_init by (simp add: dry_inv_def init_slave_def list_all_iff dry_stream_def)

text \<open>A loop that faults does so in one of its rounds; one that returns has been through all of them.\<close>

lemma for_each_fault:
  "for_each is body s = Inl f \<Longrightarrow> \<exists>i \<in> set is. \<exists>s. body i s = Inl f"
proof (induction "is" arbitrary: s)
  case (Cons i "is")
  then show ?case by (cases "body i s") auto
qed simp

lemma for_each_rounds:
  "for_each is body s = Inr s' \<Longrightarrow> i \<in> set is \<Longrightarrow> \<exists>s1 s2. body i s1 = Inr s2"
proof (induction "is" arbitrary: s)
  case (Cons j "is")
  then show ?case by (cases "body j s") auto
qed simp

lemma data_frames_to_data_cases:
  assumes "unat n \<le> length fs"
  shows "if list_all fits (take (unat n) fs) then \<exists>buf'. data_frames_to_data fs n (replicate (payloads_len (take (unat n) fs)) 0) =
      Inr buf' else data_frames_to_data fs n buf = Inl OutOfBounds"
proof -
  define body where "body = (\<lambda>i (p, buf). and_then (get_at fs i)
      (\<lambda>f. let k = unat (df_data_len f) in
        if k \<le> length (df_data f)
        then and_then (blit buf p (take k (df_data f))) (\<lambda>buf. Inr (p + k, buf))
        else Inl OutOfBounds))"
  have d: "data_frames_to_data fs n buf = and_then (for_each [0..<unat n] body (0, buf)) (\<lambda>(p, buf). Inr buf)" for buf
    by (simp add: data_frames_to_data_def body_def)
  have fault: "f = OutOfBounds" if "body i s = Inl f" for i s f
    using that by (cases s) (auto simp add: body_def get_at_def blit_def Let_def split: if_splits)
  have round: "fits (fs ! i)" if "body i s = Inr s'" for i s s'
    using that by (cases s) (auto simp add: body_def fits_def Let_def and_then_eq_Inr get_at_Inr split: if_splits)
  show ?thesis
  proof (cases "list_all fits (take (unat n) fs)")
    case True
    then show ?thesis
      using data_frames_to_data_ok [of "unat n" fs "replicate (payloads_len (take (unat n) fs)) 0"]
        unat_u16_less [of n] assms by simp
  next
    case False
    then obtain i where i: "i < unat n" "\<not> fits (fs ! i)" using assms by (auto simp add: list_all_length)
    then show ?thesis
    proof (cases "for_each [0..<unat n] body (0, buf)")
      case (Inl f)
      then show ?thesis using False d for_each_fault [OF Inl] fault by auto
    next
      case (Inr r)
      then show ?thesis using for_each_rounds [OF Inr, of i] i round by auto
    qed
  qed
qed

text \<open>Joining the frames faults only on a frame that announces more bytes than it has room for.\<close>

lemma process_dry:
  assumes "dry_env env" and "unat n \<le> length fs" and "list_all wf_data_frame fs"
  shows "(\<exists>data. process_data_frames_dry_run env fs n p status dev = Inr (length data, Some data, status, dev)
      \<and> length data \<le> 65535 * TP_FRAME_DATA_LEN_MAX)
    \<or> process_data_frames_dry_run env fs n p status dev = Inl OutOfBounds
      \<and> (\<exists>i < unat n. TP_FRAME_DATA_LEN_MAX < unat (df_data_len (fs ! i)))"
proof -
  let ?gs = "take (unat n) fs"
  have n: "n = of_nat (unat n)" "unat n < 65536" using unat_u16_less [of n] by simp_all
  have len: "data_frame_to_data_len fs n = Inr (payloads_len ?gs)"
    using data_frame_to_data_len_ok [OF n(2) assms(2)] by simp
  have p: "process_data_frames_dry_run env fs n p status dev = and_then
      (data_frames_to_data fs n (replicate (payloads_len ?gs) 0)) (\<lambda>addr. Inr (payloads_len ?gs, Some addr, status, dev))"
    using assms(1) len by (simp add: process_data_frames_dry_run_def dry_env_def)
  have fits: "fits (fs ! i) \<longleftrightarrow> unat (df_data_len (fs ! i)) \<le> TP_FRAME_DATA_LEN_MAX" if "i < unat n" for i
    using assms(2,3) that by (simp add: fits_def list_all_length wf_data_frame_def)
  show ?thesis
  proof (cases "list_all fits ?gs")
    case True
    have "length (concat (map payload ?gs)) = payloads_len ?gs" using length_payloads [OF True] .
    moreover have "list_all wf_data_frame ?gs" using assms(3) by (auto simp add: list_all_iff dest: in_set_takeD)
    then have "payloads_len ?gs \<le> length ?gs * TP_FRAME_DATA_LEN_MAX" using payloads_bound True by blast
    then have "payloads_len ?gs \<le> 65535 * TP_FRAME_DATA_LEN_MAX"
      using n(2) assms(2) unfolding TP_FRAME_DATA_LEN_MAX_def by simp
    ultimately show ?thesis
      using p data_frames_to_data_ok [OF n(2) assms(2) True, of "replicate (payloads_len ?gs) 0"] by auto
  next
    case False
    then obtain i where i: "i < unat n" "\<not> fits (fs ! i)" using assms(2) by (auto simp add: list_all_length)
    have "data_frames_to_data fs n (replicate (payloads_len ?gs) 0) = Inl OutOfBounds"
      using data_frames_to_data_cases [OF assms(2)] False by simp
    then show ?thesis using p i fits [OF i(1)] by (auto simp add: not_le)
  qed
qed

section \<open>Every step\<close>

text \<open>A SEND for more frames than the array of an unprocessed picture has.\<close>

definition overruns_array :: "frame_t \<Rightarrow> slave_t \<Rightarrow> bool" where
  "overruns_array input s \<longleftrightarrow> picture_status (unat (f_n_file input)) s \<noteq> Processed \<and>
     (\<exists>slots. fi_addr (sl_infos s ! unat (f_n_file input)) = Some slots \<and> length slots < unat (f_n_frame input))"

text \<open>A SEND behind which, or in front of which, came a frame that announces more bytes than a frame has.\<close>

definition oversized_frame :: "env_t \<Rightarrow> frame_t \<Rightarrow> slave_t \<Rightarrow> bool" where
  "oversized_frame env input s \<longleftrightarrow> (\<exists>slots0 slots tty. prepare_slots env input s = Inr slots0 \<and>
     receive_data_frames slots0 input (sl_tty s) = Inr (0, slots, tty) \<and>
     (\<exists>i < unat (f_n_frame input). TP_FRAME_DATA_LEN_MAX < unat (df_data_len (slots ! i))))"

lemma receive_idle:
  assumes "receive_data_frames slots frame tty = Inr (m, slots', tty')"
  shows "tx_idle tty' \<longleftrightarrow> tx_idle tty"
  using assms epoll_rx_tx_idle [of tty]
  by (auto simp add: receive_data_frames_def Let_def and_then_eq_Inr split: prod.splits bool.splits)

lemma receive_frame_idle:
  assumes "receive_frame frame tty = Inr (n, input, tty')"
  shows "tx_idle tty' \<longleftrightarrow> tx_idle tty"
  using assms epoll_rx_tx_idle [of tty]
  by (auto simp add: receive_frame_def Let_def and_then_eq_Inr split: prod.splits bool.splits option.splits if_splits)

text \<open>Receiving faults only when more frames are announced than the array has.\<close>

lemma receive_data_frames_fault:
  assumes "receive_data_frames slots frame tty = Inl f"
  shows "length slots < unat (f_n_frame frame)" and "fst (epoll_rx tty)"
proof -
  obtain b t where e: "epoll_rx tty = (b, t)" by fastforce
  have b: "b" using assms e receive_data_frames_timeout [of tty t slots frame] by (cases b) auto
  then show "fst (epoll_rx tty)" by (simp add: e)
  show "length slots < unat (f_n_frame frame)"
    using assms e b receive_data_frames_ok [of tty t "unat (f_n_frame frame)" frame slots] by (cases b) force+
qed

text \<open>The result of receiving does not depend on what has been sent.\<close>

lemma receive_data_frames_sent:
  "receive_data_frames slots frame (tty\<lparr> tx_bytes := bs \<rparr>) =
    and_then (receive_data_frames slots frame tty) (\<lambda>(m, gs, t). Inr (m, gs, t\<lparr> tx_bytes := bs \<rparr>))"
proof -
  obtain b t where "epoll_rx tty = (b, t)" by fastforce
  moreover from this have "epoll_rx (tty\<lparr> tx_bytes := bs \<rparr>) = (b, t\<lparr> tx_bytes := bs \<rparr>)"
    by (auto simp add: epoll_rx_def split: list.splits)
  ultimately show ?thesis
    by (cases b) (simp_all add: receive_data_frames_def Let_def and_then_def split: prod.split sum.split)
qed

lemma send_data_frame_keeps_idle:
  assumes "send_data_frame f tty = Inr (n, f', tty')" and "tx_idle tty"
  shows "tx_idle tty'"
  using assms
  by (auto simp add: send_data_frame_def epoll_tx_def tx_idle_def Let_def and_then_eq_Inr write_data_frame_def
      write_tty_def written_def split: if_splits)

lemma send_all_keeps_idle:
  assumes "send_all fs tty = Inr tty'" and "tx_idle tty"
  shows "tx_idle tty'"
  using assms(1)[unfolded send_all_def] assms(2)
  by (rule for_each_keeps) (auto simp add: and_then_eq_Inr intro: send_data_frame_keeps_idle)

lemma dry_handle_query:
  assumes "dry_inv s" and "f_frame_type input = TP_FRAME_TYPE_QUERY"
  shows "\<exists>s'. handle_query input s = Inr s' \<and> keeps s s' \<and> tx_idle (sl_tty s')"
proof -
  have "tx_idle (sl_tty s)" using assms(1) by (simp add: dry_inv_def)
  then have "\<exists>s'. handle_query input s = Inr s' \<and> tx_idle (sl_tty s')"
    by (simp add: handle_query_def Let_def reply_idle)
  then show ?thesis using handle_query_keeps by blast
qed

lemma dry_handle_recv:
  assumes "dry_inv s" and "dry_env env"
  shows "\<exists>s'. handle_recv env input s = Inr s' \<and> keeps s s' \<and> tx_idle (sl_tty s')"
proof -
  let ?i = "unat (f_n_file input)" and ?st = "sl_bit_streams s ! unat (f_n_file input)"
  have idle: "tx_idle (sl_tty s)" using assms(1) by (simp add: dry_inv_def)
  have env: "e_malloc env n" "length (e_frames env n) = n" for n using assms(2) by (simp_all add: dry_env_def)
  show ?thesis
  proof (cases "?i < PICTURES_NUMBER_MAX \<and> d8_len ?st \<noteq> 0")
    case False
    then show ?thesis using idle by (auto simp add: handle_recv_def Let_def)
  next
    case True
    then have "dry_stream ?st" using assms(1) by (auto simp add: dry_inv_def slave_inv_def list_all_length)
    then obtain data where d: "?st = \<lparr> d8_addr = Some data, d8_len = length data \<rparr>"
        "length data \<le> 65535 * TP_FRAME_DATA_LEN_MAX"
      using True by (cases ?st) (auto simp add: dry_stream_def split: option.splits)
    then have "data \<noteq> []" using True by auto
    then obtain s' where s': "handle_recv env input s = Inr s'"
      using handle_recv_ok [OF _ idle d(1) _ d(2) env] True by blast
    then have "tx_idle (sl_tty s')"
      using idle by (auto simp add: handle_recv_def Let_def and_then_eq_Inr reply_idle send_all_keeps_idle
          split: if_splits option.splits)
    then show ?thesis using s' handle_recv_keeps by blast
  qed
qed

lemma dry_receive_picture:
  assumes "dry_inv s" and "dry_env env" and "unat (f_n_file input) < PICTURES_NUMBER_MAX"
  shows "(\<exists>s'. receive_picture env input s = Inr s' \<and> dry_inv s')
    \<or> receive_picture env input s = Inl OutOfBounds \<and> (overruns_array input s \<or> oversized_frame env input s)"
proof -
  let ?i = "unat (f_n_file input)" and ?n = "unat (f_n_frame input)"
  have inv: "slave_inv s" "tx_idle (sl_tty s)" "list_all dry_stream (sl_bit_streams s)"
    using assms(1) by (simp_all add: dry_inv_def)
  have "\<exists>slots0. prepare_slots env input s = Inr slots0"
    using assms(2) by (simp add: prepare_slots_def Let_def dry_env_def split: option.split)
  then obtain slots0 where p: "prepare_slots env input s = Inr slots0" ..
  have "info_ok (sl_infos s ! ?i)" using inv(1) assms(3) by (simp add: slave_inv_def list_all_length)
  then have wf: "list_all wf_data_frame slots0"
    using prepare_slots_Inr [OF p] by (auto simp add: info_ok_def list_all_iff)
  show ?thesis
  proof (cases "receive_data_frames slots0 input (sl_tty s)")
    case (Inl f)
    then have few: "length slots0 < ?n" "fst (epoll_rx (sl_tty s))"
      using receive_data_frames_fault [OF Inl] by auto
    then have "overruns_array input s"
      using prepare_slots_Inr [OF p] get_status_processed [OF assms(3)] by (auto simp add: overruns_array_def)
    moreover have "receive_picture env input s = Inl OutOfBounds"
      using p receive_overrun_fault [OF few] by (simp add: receive_picture_def Let_def)
    ultimately show ?thesis by blast
  next
    case (Inr r)
    then obtain m slots tty where rec: "receive_data_frames slots0 input (sl_tty s) = Inr (m, slots, tty)"
      by (cases r) auto
    have l: "length slots = length slots0" "list_all wf_data_frame slots"
      using receive_data_frames_Inr [OF rec] wf by simp_all
    have step: "receive_picture env input s = (let s = s\<lparr> sl_tty := tty, sl_infos := (sl_infos s)[?i := \<lparr> fi_addr = Some slots,
            fi_len = f_n_frame input - m, fi_total_len = f_n_frame input \<rparr>] \<rparr>
        in if m \<noteq> 0 then Inr s
           else and_then (process_data_frames_dry_run env slots (f_n_frame input)
             (d8_addr (sl_bit_streams s ! ?i)) (sl_status s) (sl_dev s))
           (\<lambda>(len, addr, status, dev). Inr (s\<lparr> sl_status := status, sl_dev := dev,
              sl_bit_streams := (sl_bit_streams s)[?i := \<lparr> d8_addr = addr, d8_len = len \<rparr>] \<rparr>)))"
      using p rec by (simp add: receive_picture_def Let_def)
    have keep: "dry_inv s'" if "receive_picture env input s = Inr s'" "list_all dry_stream (sl_bit_streams s')"
      "sl_tty s' = tty" for s'
      using slave_inv_receive_picture [OF that(1) inv(1) assms(3)] that(2,3) receive_idle [OF rec] inv(2)
      by (simp add: dry_inv_def)
    show ?thesis
    proof (cases "m = 0")
      case False
      then show ?thesis using step keep inv(3) by (simp add: Let_def)
    next
      case True
      obtain ready t1 where e: "epoll_rx (sl_tty s) = (ready, t1)" by fastforce
      then have "ready" using rec True receive_data_frames_timeout [of "sl_tty s" t1 slots0 input] by (cases ready) auto
      then have "\<not> length slots0 < ?n" using rec e receive_overrun_fault [of slots0 input "sl_tty s"] by auto
      then have n: "?n \<le> length slots" using l by simp
      from process_dry [OF assms(2) n l(2), of "d8_addr (sl_bit_streams s ! ?i)" "sl_status s" "sl_dev s"]
      show ?thesis
      proof (elim disjE exE conjE)
        fix data assume d: "process_data_frames_dry_run env slots (f_n_frame input) (d8_addr (sl_bit_streams s ! ?i))
            (sl_status s) (sl_dev s) = Inr (length data, Some data, sl_status s, sl_dev s)"
          "length data \<le> 65535 * TP_FRAME_DATA_LEN_MAX"
        have "list_all dry_stream ((sl_bit_streams s)[?i := \<lparr> d8_addr = Some data, d8_len = length data \<rparr>])"
          using inv(3) d(2) by (intro list_all_update) (simp_all add: dry_stream_def)
        then show ?thesis using step keep True d(1) by (simp add: Let_def)
      next
        fix j assume "process_data_frames_dry_run env slots (f_n_frame input) (d8_addr (sl_bit_streams s ! ?i))
            (sl_status s) (sl_dev s) = Inl OutOfBounds" "j < ?n"
          "TP_FRAME_DATA_LEN_MAX < unat (df_data_len (slots ! j))"
        then show ?thesis using step True p rec by (auto simp add: Let_def oversized_frame_def)
      qed
    qed
  qed
qed

text \<open>A SEND, its reply included, faults on nothing else.\<close>

lemma overruns_keeps: "keeps s s' \<Longrightarrow> overruns_array input s' \<longleftrightarrow> overruns_array input s"
  by (simp add: overruns_array_def keeps_def picture_status_def)

lemma oversized_sent:
  "oversized_frame env input (s\<lparr> sl_output := out, sl_tty := (sl_tty s)\<lparr> tx_bytes := bs \<rparr> \<rparr>) \<longleftrightarrow>
    oversized_frame env input s"
proof -
  have "prepare_slots env input (s\<lparr> sl_output := out, sl_tty := (sl_tty s)\<lparr> tx_bytes := bs \<rparr> \<rparr>) = prepare_slots env input s"
    by (simp add: prepare_slots_def get_status_def)
  then show ?thesis
    by (auto simp add: oversized_frame_def receive_data_frames_sent and_then_eq_Inr)
qed

lemma dry_handle_send:
  assumes "dry_inv s" and "dry_env env"
  shows "(\<exists>s'. handle_send env input s = Inr s' \<and> dry_inv s')
    \<or> handle_send env input s = Inl OutOfBounds \<and> unat (f_n_file input) < PICTURES_NUMBER_MAX
      \<and> (overruns_array input s \<or> oversized_frame env input s)"
proof (cases "unat (f_n_file input) < PICTURES_NUMBER_MAX")
  case False
  then show ?thesis using assms(1) by (simp add: handle_send_def)
next
  case True
  let ?out = "(sl_output s)\<lparr> f_frame_type := f_frame_type input, f_n_file := f_n_file input,
    f_n_frame := f_n_frame input \<rparr>"
  let ?s = "s\<lparr> sl_output := ?out, sl_tty := (sl_tty s)\<lparr> tx_bytes := tx_bytes (sl_tty s) @ frame_bytes (frame_to_wire ?out) \<rparr> \<rparr>"
  have k: "keeps s ?s" by (simp add: keeps_def)
  have "dry_inv ?s" using assms(1) slave_inv_keeps [OF k] by (simp add: dry_inv_def)
  note got = dry_receive_picture [OF this assms(2) True, unfolded overruns_keeps [OF k] oversized_sent]
  have "reply (s\<lparr> sl_output := ?out \<rparr>) = Inr (12, ?s)"
    using reply_idle [of "s\<lparr> sl_output := ?out \<rparr>"] assms(1) by (simp add: dry_inv_def)
  then have "handle_send env input s = receive_picture env input ?s"
    using True by (simp add: handle_send_def Let_def)
  then show ?thesis using got True by simp
qed

text \<open>What a step of a dry run does: it returns, or it is one of three.\<close>

definition fatal_send :: "env_t \<Rightarrow> slave_t \<Rightarrow> bool" where
  "fatal_send env s \<longleftrightarrow> (\<exists>n input tty. receive_frame zero_frame (sl_tty s) = Inr (n, input, tty) \<and> 0 < n \<and>
     f_address input = TP_ADDRESS_MASTER \<and> f_frame_type input = TP_FRAME_TYPE_SEND \<and>
     unat (f_n_file input) < PICTURES_NUMBER_MAX \<and>
     (overruns_array input s \<or> oversized_frame env input (s\<lparr> sl_tty := tty \<rparr>)))"

lemma dry_step:
  assumes "dry_inv s" and "dry_env env"
  shows "(\<exists>s'. slave_step env s = Inr s' \<and> dry_inv s')
    \<or> (\<exists>f. slave_step env s = Inl f \<and> receive_frame zero_frame (sl_tty s) = Inl f)
    \<or> slave_step env s = Inl OutOfBounds \<and> fatal_send env s"
proof (cases "receive_frame zero_frame (sl_tty s)")
  case (Inl f)
  then show ?thesis by (simp add: slave_step_def)
next
  case (Inr r)
  then obtain n input tty where r: "receive_frame zero_frame (sl_tty s) = Inr (n, input, tty)" by (cases r) auto
  let ?s = "s\<lparr> sl_tty := tty \<rparr>"
  have inv: "dry_inv ?s"
    using assms(1) receive_frame_idle [OF r] slave_inv_keeps [of s ?s] by (simp add: dry_inv_def)
  have keep: "dry_inv s'" if "keeps ?s s'" "tx_idle (sl_tty s')" for s'
    using that inv slave_inv_keeps [OF that(1)] by (simp add: dry_inv_def keeps_def)
  have over: "overruns_array input ?s \<longleftrightarrow> overruns_array input s"
    by (simp add: overruns_array_def picture_status_def)
  consider "n \<le> 0 \<or> f_address input \<noteq> TP_ADDRESS_MASTER"
    | "0 < n" "f_address input = TP_ADDRESS_MASTER" "f_frame_type input = TP_FRAME_TYPE_SEND"
    | "0 < n" "f_address input = TP_ADDRESS_MASTER" "f_frame_type input \<noteq> TP_FRAME_TYPE_SEND"
    by linarith
  then show ?thesis
  proof cases
    case 1
    then show ?thesis using r inv by (simp add: slave_step_def)
  next
    case 2
    then have "slave_step env s = handle_send env input ?s"
      using r by (simp add: slave_step_def handle_def const_defs)
    then show ?thesis using dry_handle_send [OF inv assms(2), of input] 2 r over by (auto simp add: fatal_send_def)
  next
    case 3
    have "\<exists>s'. handle env input ?s = Inr s' \<and> keeps ?s s' \<and> tx_idle (sl_tty s')"
      using 3(3) dry_handle_query [OF inv, of input] dry_handle_recv [OF inv assms(2), of input] inv
      by (auto simp add: handle_def dry_inv_def)
    then show ?thesis using r 3(1,2) keep by (auto simp add: slave_step_def)
  qed
qed

lemma dry_inv_reachable:
  assumes "reachable env tty dev s" and "dry_env env" and "tx_idle tty"
  shows "dry_inv s"
  using assms(1)
proof induction
  case start
  show ?case using dry_inv_init [OF assms(3)] .
next
  case (step s s')
  then show ?case using dry_step [OF step.IH assms(2)] by auto
qed

end
