(* ===== verification/Terminal.thy ===== *)
theory Terminal
  imports Prelude
begin

text \<open>
  The line as the system sees it: \<open>init_tty\<close> of \<^verbatim>\<open>transmission_protocol.c\<close>, which sets the attributes
  of the terminal, and \<open>fd_to_epoll_fds\<close> of \<^verbatim>\<open>utils.c\<close>, which makes the two descriptors the programs
  wait on. What goes over the line is \<open>Transport\<close>.
\<close>

section \<open>The system\<close>

text \<open>
  \<open>struct termios\<close>: four words of flags, and the speeds, which a program reaches through
  \<open>cfsetispeed\<close> and \<open>cfsetospeed\<close> only.
\<close>

record termios =
  c_iflag :: u32
  c_oflag :: u32
  c_cflag :: u32
  c_lflag :: u32
  c_ispeed :: u32
  c_ospeed :: u32

text \<open>
  What the system holds and will do: the descriptors the next calls of \<open>open\<close> and \<open>epoll_create\<close>
  return (-1 for an error), the attributes of the terminal (\<open>None\<close> when the descriptor is not one),
  whether the speed is one it knows, what the next calls of \<open>tcsetattr\<close> and \<open>close\<close> return (success
  when the list is used up), and the interest lists of the \<open>epoll\<close> descriptors. \<open>os_junk\<close> is what an
  uninitialised \<open>struct termios\<close> holds.
\<close>

record os_t =
  os_opens :: "int list"
  os_epolls :: "int list"
  os_attr :: "termios option"
  os_speed_ok :: bool
  os_set_ok :: "bool list"
  os_close_ok :: "bool list"
  os_watch :: "int \<Rightarrow> (u32 \<times> int) list"
  os_junk :: termios

definition os_open :: "os_t \<Rightarrow> int \<times> os_t" where
  "os_open os = (case os_opens os of [] \<Rightarrow> (- 1, os) | fd # fds \<Rightarrow> (fd, os\<lparr> os_opens := fds \<rparr>))"

definition os_close :: "os_t \<Rightarrow> bool \<times> os_t" where
  "os_close os = (case os_close_ok os of [] \<Rightarrow> (True, os) | ok # oks \<Rightarrow> (ok, os\<lparr> os_close_ok := oks \<rparr>))"

definition tcgetattr :: "os_t \<Rightarrow> termios" where
  "tcgetattr os = (case os_attr os of None \<Rightarrow> os_junk os | Some a \<Rightarrow> a)"

definition tcsetattr :: "termios \<Rightarrow> os_t \<Rightarrow> bool \<times> os_t" where
  "tcsetattr a os =
     (if os_attr os = None then (False, os)
      else case os_set_ok os of
        [] \<Rightarrow> (True, os\<lparr> os_attr := Some a \<rparr>)
      | ok # oks \<Rightarrow> (ok, os\<lparr> os_set_ok := oks, os_attr := if ok then Some a else os_attr os \<rparr>))"

text \<open>\<open>EPOLL_CTL_ADD\<close>; on a descriptor that is not there it fails, which the programs ignore.\<close>

definition epoll_create :: "os_t \<Rightarrow> int \<times> os_t" where
  "epoll_create os = (case os_epolls os of
       [] \<Rightarrow> (- 1, os)
     | fd # fds \<Rightarrow> (fd, os\<lparr> os_epolls := fds, os_watch := if fd = - 1 then os_watch os else (os_watch os)(fd := []) \<rparr>))"

definition epoll_ctl_add :: "int \<Rightarrow> int \<Rightarrow> u32 \<Rightarrow> os_t \<Rightarrow> os_t" where
  "epoll_ctl_add epfd fd events os =
     (if epfd = - 1 then os else os\<lparr> os_watch := (os_watch os)(epfd := os_watch os epfd @ [(events, fd)]) \<rparr>)"

section \<open>The terminal's attributes\<close>

text \<open>The flags of \<^verbatim>\<open>termios.h\<close> on Linux that the code or \<open>cfmakeraw\<close> names.\<close>

definition IGNBRK :: u32 where [const_defs]: "IGNBRK = 0x1"
definition BRKINT :: u32 where [const_defs]: "BRKINT = 0x2"
definition PARMRK :: u32 where [const_defs]: "PARMRK = 0x8"
definition INPCK :: u32 where [const_defs]: "INPCK = 0x10"
definition ISTRIP :: u32 where [const_defs]: "ISTRIP = 0x20"
definition INLCR :: u32 where [const_defs]: "INLCR = 0x40"
definition IGNCR :: u32 where [const_defs]: "IGNCR = 0x80"
definition ICRNL :: u32 where [const_defs]: "ICRNL = 0x100"
definition IXON :: u32 where [const_defs]: "IXON = 0x400"
definition OPOST :: u32 where [const_defs]: "OPOST = 0x1"
definition ISIG :: u32 where [const_defs]: "ISIG = 0x1"
definition ICANON :: u32 where [const_defs]: "ICANON = 0x2"
definition ECHO :: u32 where [const_defs]: "ECHO = 0x8"
definition ECHONL :: u32 where [const_defs]: "ECHONL = 0x40"
definition IEXTEN :: u32 where [const_defs]: "IEXTEN = 0x8000"
definition CSIZE :: u32 where [const_defs]: "CSIZE = 0x30"
definition CS8 :: u32 where [const_defs]: "CS8 = 0x30"
definition CSTOPB :: u32 where [const_defs]: "CSTOPB = 0x40"
definition PARENB :: u32 where [const_defs]: "PARENB = 0x100"
definition PARODD :: u32 where [const_defs]: "PARODD = 0x200"
definition TP_BAUD_RATE :: u32 where [const_defs]: "TP_BAUD_RATE = 0x1005"

definition cfmakeraw :: "termios \<Rightarrow> termios" where
  "cfmakeraw t = t\<lparr>
     c_iflag := c_iflag t AND NOT (IGNBRK OR BRKINT OR PARMRK OR ISTRIP OR INLCR OR IGNCR OR ICRNL OR IXON),
     c_oflag := c_oflag t AND NOT OPOST,
     c_lflag := c_lflag t AND NOT (ECHO OR ECHONL OR ICANON OR ISIG OR IEXTEN),
     c_cflag := (c_cflag t AND NOT (CSIZE OR PARENB)) OR CS8 \<rparr>"

text \<open>
  A step of a program that may end the process: the result beside the system's state, which
  outlives the process. The result of \<open>tcgetattr\<close> is not looked at.
\<close>

definition os_then :: "'a res \<times> os_t \<Rightarrow> ('a \<Rightarrow> os_t \<Rightarrow> 'b res \<times> os_t) \<Rightarrow> 'b res \<times> os_t" where
  "os_then m f = (case m of (Inl e, os) \<Rightarrow> (Inl e, os) | (Inr x, os) \<Rightarrow> f x os)"

lemma os_then_simps [simp]:
  "os_then (Inl e, os) f = (Inl e, os)"
  "os_then (Inr x, os) f = f x os"
  by (simp_all add: os_then_def)

definition init_tty :: "os_t \<Rightarrow> termios res \<times> os_t" where
  "init_tty os =
     (let oldattr = tcgetattr os; newattr = cfmakeraw oldattr in
      if \<not> os_speed_ok os then (Inl ErrExit, os)
      else let newattr = newattr\<lparr> c_ispeed := TP_BAUD_RATE, c_ospeed := TP_BAUD_RATE \<rparr>;
          newattr = newattr\<lparr> c_cflag := c_cflag newattr AND NOT CSIZE \<rparr>;
          newattr = newattr\<lparr> c_cflag := c_cflag newattr OR CS8 \<rparr>;
          newattr = newattr\<lparr> c_cflag := c_cflag newattr OR PARENB \<rparr>;
          newattr = newattr\<lparr> c_cflag := c_cflag newattr OR PARODD \<rparr>;
          newattr = newattr\<lparr> c_iflag := c_iflag newattr OR INPCK \<rparr>;
          newattr = newattr\<lparr> c_cflag := c_cflag newattr AND NOT CSTOPB \<rparr>
        in case tcsetattr newattr os of
             (False, os) \<Rightarrow> (Inl ErrExit, os)
           | (True, os) \<Rightarrow> (Inr oldattr, os))"

section \<open>The descriptors the programs wait on\<close>

definition EPOLLIN :: u32 where [const_defs]: "EPOLLIN = 1"
definition EPOLLOUT :: u32 where [const_defs]: "EPOLLOUT = 4"

text \<open>Both output arguments are given in both programs; a null one would be left out.\<close>

definition fd_to_epoll_fds :: "int \<Rightarrow> bool \<Rightarrow> bool \<Rightarrow> os_t \<Rightarrow> int option \<times> int option \<times> os_t" where
  "fd_to_epoll_fds fd send recv os =
     (let (send_fd, os) = (if send
            then case epoll_create os of (e, os) \<Rightarrow> (Some e, epoll_ctl_add e fd EPOLLOUT os)
            else (None, os));
          (recv_fd, os) = (if recv
            then case epoll_create os of (e, os) \<Rightarrow> (Some e, epoll_ctl_add e fd EPOLLIN os)
            else (None, os))
      in (send_fd, recv_fd, os))"

section \<open>Properties\<close>

text \<open>What both ends agree on, and what raw means.\<close>

definition line_8O1 :: "termios \<Rightarrow> bool" where
  "line_8O1 t \<longleftrightarrow> c_cflag t AND CSIZE = CS8 \<and> c_cflag t AND PARENB = PARENB \<and> c_cflag t AND PARODD = PARODD \<and>
     c_cflag t AND CSTOPB = 0 \<and> c_iflag t AND INPCK = INPCK"

definition line_raw :: "termios \<Rightarrow> bool" where
  "line_raw t \<longleftrightarrow> c_iflag t AND (ISTRIP OR INLCR OR IGNCR OR ICRNL OR IXON OR PARMRK) = 0 \<and>
     c_oflag t AND OPOST = 0 \<and> c_lflag t AND (ECHO OR ICANON OR ISIG OR IEXTEN) = 0"

definition settable :: "os_t \<Rightarrow> bool" where
  "settable os \<longleftrightarrow> os_attr os \<noteq> None \<and> os_speed_ok os \<and> list_all id (os_set_ok os)"

lemma tcsetattr_settable:
  assumes "settable os"
  shows "fst (tcsetattr a os)" and "os_attr (snd (tcsetattr a os)) = Some a" and "settable (snd (tcsetattr a os))"
    and "os_close_ok (snd (tcsetattr a os)) = os_close_ok os" and "os_opens (snd (tcsetattr a os)) = os_opens os"
  using assms by (auto simp add: settable_def tcsetattr_def split: list.splits)

text \<open>Flags that exclude or contain each other, as integers.\<close>

lemma bit_disjoint: "a AND b = 0 \<Longrightarrow> bit a n \<Longrightarrow> \<not> bit (b :: int) n"
  by (metis bit_0_eq bit_and_iff bot_apply bot_bool_def)

lemma bit_subset: "a AND b = a \<Longrightarrow> bit a n \<Longrightarrow> bit (b :: int) n"
  by (metis bit_and_iff)

lemma flag_bits:
  "bit (48 :: int) n \<Longrightarrow> \<not> bit (64 :: int) n" "bit (256 :: int) n \<Longrightarrow> \<not> bit (64 :: int) n"
  "bit (512 :: int) n \<Longrightarrow> \<not> bit (64 :: int) n" "bit (1512 :: int) n \<Longrightarrow> \<not> bit (16 :: int) n"
  "bit (1512 :: int) n \<Longrightarrow> bit (1515 :: int) n" "bit (32779 :: int) n \<Longrightarrow> bit (32843 :: int) n"
  "bit (48 :: int) n \<Longrightarrow> bit (880 :: int) n" "bit (256 :: int) n \<Longrightarrow> bit (880 :: int) n"
  "bit (512 :: int) n \<Longrightarrow> bit (880 :: int) n" "bit (64 :: int) n \<Longrightarrow> bit (880 :: int) n"
  "bit (304 :: int) n \<Longrightarrow> bit (880 :: int) n"
  by (erule bit_disjoint [rotated] bit_subset [rotated], simp)+

lemma init_tty_settable:
  assumes "settable os" and "os_attr os = Some old"
  shows "\<exists>new os'. init_tty os = (Inr old, os') \<and> os_attr os' = Some new \<and> line_8O1 new \<and> line_raw new \<and>
    c_ispeed new = TP_BAUD_RATE \<and> c_ospeed new = TP_BAUD_RATE \<and>
    c_cflag new AND NOT (CSIZE OR PARENB OR PARODD OR CSTOPB) = c_cflag old AND NOT (CSIZE OR PARENB OR PARODD OR CSTOPB) \<and>
    settable os' \<and> os_close_ok os' = os_close_ok os \<and> os_opens os' = os_opens os"
proof -
  define new where "new = (let newattr = cfmakeraw old;
      newattr = newattr\<lparr> c_ispeed := TP_BAUD_RATE, c_ospeed := TP_BAUD_RATE \<rparr>;
      newattr = newattr\<lparr> c_cflag := c_cflag newattr AND NOT CSIZE \<rparr>;
      newattr = newattr\<lparr> c_cflag := c_cflag newattr OR CS8 \<rparr>;
      newattr = newattr\<lparr> c_cflag := c_cflag newattr OR PARENB \<rparr>;
      newattr = newattr\<lparr> c_cflag := c_cflag newattr OR PARODD \<rparr>;
      newattr = newattr\<lparr> c_iflag := c_iflag newattr OR INPCK \<rparr>
    in newattr\<lparr> c_cflag := c_cflag newattr AND NOT CSTOPB \<rparr>)"
  obtain ok os' where s: "tcsetattr new os = (ok, os')" by fastforce
  moreover have ok using tcsetattr_settable(1) [OF assms(1), of new] s by simp
  ultimately have "init_tty os = (Inr old, os')"
    using assms by (simp add: init_tty_def tcgetattr_def settable_def new_def Let_def)
  moreover have "line_8O1 new" and "line_raw new"
    and "c_cflag new AND NOT (CSIZE OR PARENB OR PARODD OR CSTOPB) = c_cflag old AND NOT (CSIZE OR PARENB OR PARODD OR CSTOPB)"
    by (auto simp add: line_8O1_def line_raw_def new_def cfmakeraw_def Let_def const_defs bit_eq_iff bit_simps
        dest: flag_bits)
  moreover have "c_ispeed new = TP_BAUD_RATE" "c_ospeed new = TP_BAUD_RATE" by (simp_all add: new_def Let_def)
  ultimately show ?thesis using tcsetattr_settable [OF assms(1), of new] s by auto
qed

text \<open>
  C27: on a terminal, \<open>init_tty\<close> returns the attributes it found and sets eight data bits, odd parity
  with checking and one stop bit, no processing of the bytes in either direction, and the baud rate
  for both directions; all other control flags are as they were.
\<close>

theorem serial_line_settings:
  assumes "os_attr os = Some old" and "os_speed_ok os" and "os_set_ok os = []"
  shows "\<exists>new os'. init_tty os = (Inr old, os') \<and> os_attr os' = Some new \<and> line_8O1 new \<and> line_raw new \<and>
    c_ispeed new = TP_BAUD_RATE \<and> c_ospeed new = TP_BAUD_RATE \<and>
    c_cflag new AND NOT (CSIZE OR PARENB OR PARODD OR CSTOPB) = c_cflag old AND NOT (CSIZE OR PARENB OR PARODD OR CSTOPB)"
  using init_tty_settable [of os old] assms by (auto simp add: settable_def)

definition cooked :: termios where
  "cooked = \<lparr> c_iflag = 0x500, c_oflag = 5, c_cflag = 0xbf, c_lflag = 0x8a3b, c_ispeed = 15, c_ospeed = 15 \<rparr>"

definition sample_os :: os_t where
  "sample_os = \<lparr> os_opens = [3], os_epolls = [4, 5], os_attr = Some cooked, os_speed_ok = True, os_set_ok = [],
     os_close_ok = [], os_watch = (\<lambda>_. []), os_junk = cooked \<rparr>"

theorem serial_line_settings_witness:
  "\<exists>new os'. init_tty sample_os = (Inr cooked, os') \<and> os_attr os' = Some new \<and> line_8O1 new \<and> line_raw new \<and>
    c_ispeed new = TP_BAUD_RATE \<and> c_ospeed new = TP_BAUD_RATE \<and>
    c_cflag new AND NOT (CSIZE OR PARENB OR PARODD OR CSTOPB) = c_cflag cooked AND NOT (CSIZE OR PARENB OR PARODD OR CSTOPB)"
  by (rule serial_line_settings) (simp_all add: sample_os_def)

text \<open>On what is not a terminal, and with a speed the system does not know, the program ends.\<close>

lemma init_tty_refuses:
  assumes "os_attr os = None \<or> \<not> os_speed_ok os"
  shows "init_tty os = (Inl ErrExit, os)"
  using assms by (auto simp add: init_tty_def Let_def tcsetattr_def)

text \<open>
  Two fresh descriptors watch the line, one for each direction. A descriptor that could not be
  made is -1, which the caller does not look at: nothing is ever reported on it.
\<close>

lemma epoll_descriptors:
  assumes "os_epolls os = s # r # es" and "s \<noteq> - 1" and "r \<noteq> - 1" and "s \<noteq> r"
  shows "\<exists>os'. fd_to_epoll_fds fd True True os = (Some s, Some r, os') \<and>
    os_watch os' s = [(EPOLLOUT, fd)] \<and> os_watch os' r = [(EPOLLIN, fd)] \<and>
    (\<forall>e. e \<notin> {s, r} \<longrightarrow> os_watch os' e = os_watch os e)"
  using assms by (simp add: fd_to_epoll_fds_def epoll_create_def epoll_ctl_add_def)

lemma failing_epoll_create:
  assumes "os_epolls os = []"
  shows "fd_to_epoll_fds fd True True os = (Some (- 1), Some (- 1), os)"
  using assms by (simp add: fd_to_epoll_fds_def epoll_create_def epoll_ctl_add_def)

lemma epoll_keeps:
  assumes "fd_to_epoll_fds fd send recv os = (s, r, os')"
  shows "os_attr os' = os_attr os" and "os_speed_ok os' = os_speed_ok os" and "os_set_ok os' = os_set_ok os"
    and "os_close_ok os' = os_close_ok os" and "os_opens os' = os_opens os"
  using assms by (auto simp add: fd_to_epoll_fds_def epoll_create_def epoll_ctl_add_def Let_def
      split: if_splits list.splits)

end
