(* ===== verification/Programs.thy ===== *)
theory Programs
  imports Files Link DryRun Terminal
begin

text \<open>
  The two \<open>main\<close> functions around what the other theories model: options, device, terminal, the loops
  and the cleanup. A program's result is the code it returns, or the fault that ends it, beside the
  state the system is left in; \<open>None\<close> is a program that does not end.
\<close>

section \<open>Options\<close>

text \<open>
  \<open>out_dir\<close> is a block of \<open>strdup\<close>, the literal \<open>"."\<close>, or an argument of the program, which
  \<open>deinit_opt\<close> frees like a block.
\<close>

definition out_dir_given :: "(char \<times> string) list \<Rightarrow> bool" where
  "out_dir_given options \<longleftrightarrow> CHR ''o'' \<in> fst ` set options"

definition deinit_opt :: "string \<Rightarrow> bool \<Rightarrow> unit res" where
  "deinit_opt out_dir given = (if out_dir = ''.'' then Inr () else if given then Inl BadFree else Inr ())"

definition master_deinit_opt :: "string \<Rightarrow> bool \<Rightarrow> unit res" where
  "master_deinit_opt out_dir given =
     (if out_dir = ''.'' then Inr () else if given then Inl BadFree else Inr ())"

definition opt_entry :: "string \<Rightarrow> has_arg \<Rightarrow> char \<Rightarrow> option_entry" where
  "opt_entry n a c = \<lparr> oe_name = Some n, oe_has_arg = a, oe_val = of_char c \<rparr>"

definition no_entry :: option_entry where
  "no_entry = \<lparr> oe_name = None, oe_has_arg = no_argument, oe_val = 0 \<rparr>"

definition longopts :: "option_entry list" where
  "longopts = [opt_entry ''help'' no_argument (CHR ''h''), opt_entry ''version'' no_argument (CHR ''V''),
     opt_entry ''verbose'' no_argument (CHR ''v''), opt_entry ''quiet'' no_argument (CHR ''q''),
     opt_entry ''binary'' no_argument (CHR ''b''), opt_entry ''dry-run'' no_argument (CHR ''d''),
     opt_entry ''tty'' required_argument (CHR ''t''), opt_entry ''timeout'' required_argument (CHR ''T''),
     opt_entry ''safe-time'' required_argument (CHR ''S''), opt_entry ''weight'' required_argument (CHR ''w''),
     opt_entry ''quantization-coefficience'' required_argument (CHR ''c''),
     opt_entry ''out-dir'' required_argument (CHR ''o''), no_entry]"

definition master_longopts :: "option_entry list" where
  "master_longopts = [opt_entry ''help'' no_argument (CHR ''h''), opt_entry ''version'' no_argument (CHR ''V''),
     opt_entry ''verbose'' no_argument (CHR ''v''), opt_entry ''quiet'' no_argument (CHR ''q''),
     opt_entry ''binary'' no_argument (CHR ''b''), opt_entry ''dump'' no_argument (CHR ''d''),
     opt_entry ''tty'' required_argument (CHR ''t''), opt_entry ''timeout'' required_argument (CHR ''T''),
     opt_entry ''safe-time'' required_argument (CHR ''S''), opt_entry ''out-dir'' required_argument (CHR ''o''),
     no_entry]"

section \<open>The slave\<close>

text \<open>
  What surrounds the program. \<open>pw_weight\<close> is the file behind the name of the weights, \<open>pw_reg\<close> what
  the uninitialised registers hold; of \<open>fl_env\<close> the members the program sets itself are not used.
\<close>

record slave_world =
  pw_strtol :: "string \<Rightarrow> int"
  pw_wordexp :: "string option"
  pw_basename :: "string \<Rightarrow> string"
  pw_weight :: "string \<Rightarrow> file_env"
  pw_reg :: network_acc_reg
  pw_files :: files_env
  pw_tty :: tty_t
  pw_dev :: pl_dev

definition slave_device :: "slave_world \<Rightarrow> opt_t \<Rightarrow> os_t \<Rightarrow> (network_acc_reg \<times> pl_dev) res \<times> os_t" where
  "slave_device w opt os =
     (if o_dry_run opt then (Inr (pw_reg w, pw_dev w), os)
      else case os_open os of (fd_dev, os) \<Rightarrow>
        if fd_dev = - 1 then (Inl ErrExit, os)
        else (pl_init (e_stack (fl_env (pw_files w))) (pw_reg w) (pw_weight w (o_weight opt)) WEIGHT_ADDR
               (pw_dev w), os))"

definition slave_line :: "os_t \<Rightarrow> termios res \<times> os_t" where
  "slave_line os =
     (case os_open os of (fd, os) \<Rightarrow>
      if fd = - 1 then (Inl ErrExit, os)
      else case fd_to_epoll_fds fd True True os of (send_fd, recv_fd, os) \<Rightarrow> init_tty os)"

text \<open>\<open>while (!opt.number)\<close>: nothing in the loop writes \<open>number\<close>, so only a fault ends it.\<close>

partial_function (option) command_loop :: "env_t \<Rightarrow> slave_t \<Rightarrow> fault option" where
  "command_loop env s = (case slave_step env s of Inl f \<Rightarrow> Some f | Inr s \<Rightarrow> command_loop env s)"

text \<open>After the loop the blocks of the pictures are freed; the terminal was never opened then.\<close>

definition slave_cleanup :: "opt_t \<Rightarrow> bool \<Rightarrow> os_t \<Rightarrow> int res \<times> os_t" where
  "slave_cleanup opt given os =
     os_then (deinit_opt (o_out_dir opt) given, os)
       (\<lambda>_ os. if o_dry_run opt then (Inr 0, os)
          else case os_close os of (False, os) \<Rightarrow> (Inl ErrExit, os) | (True, os) \<Rightarrow> (Inr 0, os))"

definition slave_main :: "slave_world \<Rightarrow> string \<Rightarrow> (char \<times> string) list \<Rightarrow> string list \<Rightarrow> os_t \<Rightarrow>
    (int res \<times> os_t) option" where
  "slave_main w arg0 options operands os =
     (case parse_args (pw_strtol w) (pw_wordexp w) options operands of (ret, opt) \<Rightarrow>
      if ret = - 1 then Some (Inl ErrExit, os)
      else if ret = 1 then Some (and_then (print_help (e_malloc (fl_env (pw_files w))) (pw_basename w) longopts arg0)
        (\<lambda>_. Inr 0), os)
      else if 0 < ret then Some (Inr 0, os)
      else case slave_device w opt os of
          (Inl f, os) \<Rightarrow> Some (Inl f, os)
        | (Inr (reg, dev), os) \<Rightarrow>
          let env = (fl_env (pw_files w))\<lparr> e_reg := reg, e_dry_run := o_dry_run opt \<rparr>
          in case encode_files ((pw_files w)\<lparr> fl_env := env \<rparr>) opt (init_slave (pw_tty w) dev) of
              Inl f \<Rightarrow> Some (Inl f, os)
            | Inr (s, _) \<Rightarrow>
                if o_number opt = 0
                then case slave_line os of
                    (Inl f, os) \<Rightarrow> Some (Inl f, os)
                  | (Inr _, os) \<Rightarrow> map_option (\<lambda>f. (Inl f, os)) (command_loop env s)
                else Some (slave_cleanup opt (out_dir_given options) os))"

section \<open>The master\<close>

record master_world =
  mw_strtol :: "string \<Rightarrow> int"
  mw_wordexp :: "string option"
  mw_basename :: "string \<Rightarrow> string"
  mw_env :: master_env
  mw_tty :: tty_t

definition master_cleanup :: "master_opt \<Rightarrow> bool \<Rightarrow> termios \<Rightarrow> os_t \<Rightarrow> int res \<times> os_t" where
  "master_cleanup opt given oldattr os =
     os_then (master_deinit_opt (mo_out_dir opt) given, os)
       (\<lambda>_ os. case tcsetattr oldattr os of (_, os) \<Rightarrow>
          case os_close os of (False, os) \<Rightarrow> (Inl ErrExit, os) | (True, os) \<Rightarrow> (Inr 0, os))"

definition master_program :: "master_world \<Rightarrow> string \<Rightarrow> (char \<times> string) list \<Rightarrow> string list \<Rightarrow> os_t \<Rightarrow>
    (int res \<times> os_t) option" where
  "master_program w arg0 options operands os =
     (case master_parse (mw_strtol w) (mw_wordexp w) options operands of (ret, opt) \<Rightarrow>
      if ret = - 1 then Some (Inl ErrExit, os)
      else if ret = 1 then Some (and_then (print_help (me_malloc (mw_env w)) (mw_basename w) master_longopts arg0)
        (\<lambda>_. Inr 0), os)
      else if 0 < ret then Some (Inr 0, os)
      else case os_open os of (fd, os) \<Rightarrow>
        if fd = - 1 then Some (Inl ErrExit, os)
        else case init_tty os of
            (Inl f, os) \<Rightarrow> Some (Inl f, os)
          | (Inr oldattr, os) \<Rightarrow>
            case fd_to_epoll_fds fd True True os of (send_fd, recv_fd, os) \<Rightarrow>
            case master_main (mw_env w) opt (mw_tty w) of
                None \<Rightarrow> None
              | Some (Inl f) \<Rightarrow> Some (Inl f, os)
              | Some (Inr _) \<Rightarrow> Some (master_cleanup opt (out_dir_given options) oldattr os))"

section \<open>The slave's end\<close>

lemma command_loop_fault:
  "command_loop env s = Some f \<Longrightarrow>
    \<forall>tty dev. reachable env tty dev s \<longrightarrow> (\<exists>s'. reachable env tty dev s' \<and> slave_step env s' = Inl f)"
proof (erule command_loop.raw_induct [rotated])
  fix rec env s f
  assume IH: "\<And>env s f. rec env s = Some f \<Longrightarrow>
      \<forall>tty dev. reachable env tty dev s \<longrightarrow> (\<exists>s'. reachable env tty dev s' \<and> slave_step env s' = Inl f)"
    and step: "(case slave_step env s of Inl f \<Rightarrow> Some f | Inr s \<Rightarrow> rec env s) = Some f"
  show "\<forall>tty dev. reachable env tty dev s \<longrightarrow> (\<exists>s'. reachable env tty dev s' \<and> slave_step env s' = Inl f)"
  proof (cases "slave_step env s")
    case (Inl g)
    then show ?thesis using step by auto
  next
    case (Inr s1)
    then have "reachable env tty dev s \<Longrightarrow> reachable env tty dev s1" for tty dev
      by (rule reachable.step [rotated])
    then show ?thesis using IH [of env s1 f] step Inr by auto
  qed
qed

lemma command_loop_reachable:
  assumes "reachable env tty dev s"
  shows "command_loop env (init_slave tty dev) = command_loop env s"
  using assms
proof induction
  case (step s s')
  then show ?case by (simp add: command_loop.simps [of env s])
qed simp

text \<open>The loop ends exactly when a state that it can reach has a step that faults, and with that fault.\<close>

lemma command_loop_ends_by_fault:
  "command_loop env (init_slave tty dev) = Some f \<longleftrightarrow>
    (\<exists>s. reachable env tty dev s \<and> slave_step env s = Inl f)"
proof
  assume "\<exists>s. reachable env tty dev s \<and> slave_step env s = Inl f"
  then obtain s where "reachable env tty dev s" "slave_step env s = Inl f" by blast
  then show "command_loop env (init_slave tty dev) = Some f"
    using command_loop_reachable [of env tty dev s] by (simp add: command_loop.simps [of env s])
qed (use command_loop_fault reachable.start in blast)

text \<open>
  C32: what stops a slave in a dry run, when its memory does not run out and its line takes what is
  sent. A program that is given no picture never ends its command loop by itself, and QUERY and RECV never
  bring it down; when it stops, then because a read from the line failed or brought nothing (and the
  dump of what was read faults), or because of a SEND, and then it has written or read outside a block:
  the SEND announced more frames than the array of an unprocessed picture has, or one of the frames
  announces more bytes than a frame has room for.
\<close>

theorem dry_run_ends_by_read_or_send:
  assumes "command_loop env (init_slave tty dev) = Some f" and "dry_env env" and "tx_idle tty"
  shows "\<exists>s. reachable env tty dev s \<and> slave_step env s = Inl f \<and>
    (receive_frame zero_frame (sl_tty s) = Inl f \<or> f = OutOfBounds \<and> fatal_send env s)"
proof -
  obtain s where s: "reachable env tty dev s" "slave_step env s = Inl f"
    using assms(1) command_loop_ends_by_fault by blast
  then show ?thesis using dry_step [OF dry_inv_reachable [OF s(1) assms(2,3)] assms(2)] by auto
qed

text \<open>For instance a line that is closed.\<close>

definition closed_line :: tty_t where
  "closed_line = idle_tty\<lparr> rx_ready := [True], rx_reads := [Some []] \<rparr>"

theorem dry_run_ends_by_read_or_send_witness:
  "\<exists>s. reachable sample_env closed_line sample_dev s \<and> slave_step sample_env s = Inl Uninit \<and>
    (receive_frame zero_frame (sl_tty s) = Inl Uninit \<or> Uninit = OutOfBounds \<and> fatal_send sample_env s)"
proof -
  have "slave_step sample_env (init_slave closed_line sample_dev) = Inl Uninit"
    by (simp add: slave_step_def init_slave_def closed_line_def receive_frame_def epoll_rx_def log_dump_empty)
  then have "command_loop sample_env (init_slave closed_line sample_dev) = Some Uninit"
    by (simp add: command_loop.simps)
  moreover have "dry_env sample_env" by (simp add: dry_env_def sample_env_def)
  moreover have "tx_idle closed_line" using tx_idle_sample(1) by (simp add: closed_line_def tx_idle_def)
  ultimately show ?thesis using dry_run_ends_by_read_or_send [of sample_env closed_line sample_dev Uninit] by blast
qed

text \<open>On a silent line it waits for ever.\<close>

lemma command_loop_stuck:
  assumes "slave_step env s = Inr s"
  shows "command_loop env s = None"
proof -
  have "slave_step env s = Inr s \<longrightarrow> False" if "command_loop env s = Some f" for env s f
  proof (rule command_loop.raw_induct [OF _ that])
    fix rec env s f
    assume IH: "\<And>env s f. rec env s = Some f \<Longrightarrow> slave_step env s = Inr s \<longrightarrow> False"
      and step: "(case slave_step env s of Inl f \<Rightarrow> Some f | Inr s \<Rightarrow> rec env s) = Some (f :: fault)"
    show "slave_step env s = Inr s \<longrightarrow> False" using IH [of env s f] step by auto
  qed
  then show ?thesis using assms by (cases "command_loop env s") auto
qed


text \<open>For instance a file of six bytes and one that does not exist.\<close>

definition two_files_env :: files_env where
  "two_files_env = no_files_env\<lparr> fl_file := (\<lambda>k. if k = 0 then \<lparr> fe_open = Some \<lparr> fl_rest = [1, 2, 3, 4, 5, 6],
       fl_read_fails = [] \<rparr>, fe_fstat_ok = True, fe_close_ok = True \<rparr>
       else \<lparr> fe_open = None, fe_fstat_ok = True, fe_close_ok = True \<rparr>),
     fl_frames := (\<lambda>_. Some [blank_data_frame]), fl_usable := (\<lambda>n. n + 8) \<rparr>"

definition sample_world :: slave_world where
  "sample_world = \<lparr> pw_strtol = (\<lambda>_. 0), pw_wordexp = None, pw_basename = id,
     pw_weight = (\<lambda>_. \<lparr> fe_open = None, fe_fstat_ok = True, fe_close_ok = True \<rparr>), pw_reg = blank_reg,
     pw_files = two_files_env, pw_tty = idle_tty, pw_dev = sample_dev \<rparr>"


section \<open>The master's end\<close>


text \<open>For instance the run of \<open>Link\<close> with a file of six bytes and a slave in a dry run.\<close>

definition sample_master :: "tty_t \<Rightarrow> master_world" where
  "sample_master tty = \<lparr> mw_strtol = (\<lambda>_. 0), mw_wordexp = None, mw_basename = id, mw_env = six_file_env,
     mw_tty = tty \<rparr>"


text \<open>A directory given with \<open>-o\<close> is freed although nobody has allocated it.\<close>

lemma given_directory_is_freed:
  assumes "o_out_dir opt \<noteq> ''.''"
  shows "slave_cleanup opt True os = (Inl BadFree, os)"
  using assms by (simp add: slave_cleanup_def deinit_opt_def)

section \<open>The master's clock\<close>

text \<open>
  How long the master sleeps after an attempt that brought no answer, \<open>LOOP_PERIOD * 1000 - tvdiff\<close>
  microseconds when that is positive. The two times are those of \<open>gettimeofday\<close>, whose difference
  fits a \<open>long\<close>; \<open>usleep\<close> takes 32 bits.
\<close>

record timeval =
  tv_sec :: int
  tv_usec :: int

definition LOOP_PERIOD :: int where [const_defs]: "LOOP_PERIOD = 1000"

definition tvdiff :: "timeval \<Rightarrow> timeval \<Rightarrow> int" where
  "tvdiff new_tv old_tv = (tv_sec new_tv - tv_sec old_tv) * 1000000 + tv_usec new_tv - tv_usec old_tv"

definition retry_sleep :: "timeval \<Rightarrow> timeval \<Rightarrow> u32" where
  "retry_sleep tv tv0 = (let usec = LOOP_PERIOD * 1000 - tvdiff tv tv0 in if 0 < usec then word_of_int usec else 0)"

text \<open>Attempts begin a second apart, or as soon as the last one is over.\<close>

lemma retry_period:
  assumes "0 \<le> tvdiff tv tv0"
  shows "tvdiff tv tv0 + uint (retry_sleep tv tv0) = max 1000000 (tvdiff tv tv0)"
proof (cases "tvdiff tv tv0 < 1000000")
  case True
  moreover have "uint (word_of_int d :: u32) = d" if "0 < d" "d \<le> 1000000" for d :: int
    using that by (simp add: uint_word_of_int)
  from this [of "1000000 - tvdiff tv tv0"] have "uint (word_of_int (1000000 - tvdiff tv tv0) :: u32) = 1000000 - tvdiff tv tv0"
    using True assms by linarith
  ultimately show ?thesis by (simp only: retry_sleep_def LOOP_PERIOD_def Let_def) simp
next
  case False
  then show ?thesis by (simp add: retry_sleep_def LOOP_PERIOD_def Let_def)
qed

end
