(* ===== verification/Spec2Isabelle.thy ===== *)
theory Spec2Isabelle
  imports Driver Downlink Board Programs
begin

text \<open>
  Verification development of the picture coding system on the satellite board.

  \<^bold>\<open>The program.\<close> A slave on the satellite (\<^verbatim>\<open>autostart/src/main.c\<close>) receives pictures over a
  serial line, has them encoded by an accelerator in the programmable logic (PL), codes the
  coefficients arithmetically and sends the streams down; a master on the ground
  (\<^verbatim>\<open>autostart/src/master.c\<close>) uploads the pictures and downloads the streams. Both speak the
  protocol of \<^verbatim>\<open>transmission_protocol.c\<close>: command frames of 12 bytes (QUERY, SEND, RECV) and data
  frames of 534 bytes, each closed by the checksum of \<^verbatim>\<open>crc.c\<close>. The slave reaches the accelerator
  through a library (\<^verbatim>\<open>axitangxi.c\<close>) over the character device of a kernel module
  (\<^verbatim>\<open>recipes-modules/axi-tangxi\<close>), which moves memory between the processor's (PS) and the PL's DDR
  in DMA bursts. \<^verbatim>\<open>hw/src\<close> holds a test program for the same hardware without an operating
  system. All paths below are relative to \<^verbatim>\<open>src/project-spec/meta-user\<close> or to \<^verbatim>\<open>src\<close>.

  \<^bold>\<open>How the code is modelled.\<close> Integers are words of their C width, read with \<open>unat\<close> or \<open>sint\<close>; a
  struct is a record, an array the list of its elements, a pointer to a block an option of its
  contents, or an address where blocks are shared. A function that can go wrong returns
  \<open>fault + 'a\<close>: every access outside an object, through a null or dangling pointer or to a value
  never written, every \<open>int\<close> overflow, failed assertion and call of \<open>err\<close> is a branch (\<open>Prelude\<close>).
  What surrounds the program (terminal, files, device node, allocator, kernel calls, card) is a
  record of what its next calls will do, so that a theorem for every such record is one for every
  behaviour. A loop that may not end is a \<open>partial_function\<close> whose value is \<open>None\<close> when it does not
  return; there is no fuel in the development. That such a loop returns is always proved as
  \<open>\<dots> = Some \<dots>\<close>, that it does not as \<open>= None\<close>. Counted loops are \<open>for_each\<close> over the counter's values.

  \<^bold>\<open>The theories\<close>, in the order in which they build on each other:

  \<^item> \<open>Prelude\<close>: word types, faults, arrays and counted loops with their invariant rules, memory images
    of integers. \<open>Interfaces\<close>: the locales \<open>checksum\<close> and \<open>wire_codec\<close>.
  \<^item> \<open>Crc\<close> (\<^verbatim>\<open>crc.c\<close>): \<open>lt\<close>, \<open>crc16\<close>. The table and the loop are polynomial division; a corruption
    within two adjacent bytes or of an odd number of bits changes the checksum (interpretation \<open>crc\<close>).
  \<^item> \<open>Frame\<close> (the structs of \<^verbatim>\<open>transmission_protocol.h\<close>): memory images, byte order, acceptance tests,
    and the two codecs \<open>fr\<close> and \<open>df\<close> that interpret \<open>wire_codec\<close>.
  \<^item> \<open>Framing\<close> (the buffer and file side of \<^verbatim>\<open>transmission_protocol.c\<close>): cutting into frames and
    joining, with round trip, bounds and the equality of the file's and the buffer's way.
  \<^item> \<open>Transport\<close> (its serial side): sending and receiving both kinds of frames over \<open>tty_t\<close>; reception
    stays in its array, keeps received frames, recovers from corruption and completes on a clean line.
  \<^item> \<open>Ioctl\<close>, \<open>PlLib\<close> (\<^verbatim>\<open>axitangxi_ioctl.h\<close>, \<^verbatim>\<open>axitangxi.c\<close>): the requests of the library, in order.
  \<^item> \<open>Slave\<close> (\<^verbatim>\<open>main.c\<close>): \<open>slave_t\<close>, the encoding of a picture, \<open>handle_query\<close>, \<open>handle_send\<close>,
    \<open>handle_recv\<close>, the loop body \<open>slave_step\<close> and the states \<open>reachable\<close> by it. An invariant over all
    of them, an abstract status of every picture, non-interference between pictures, and the dry run
    as a round trip. \<open>DryRun\<close>: every way in which a step of a dry run can fault. \<open>Files\<close>: the other
    way to run the program, \<open>encode_files\<close>, and what it saves in a dry run.
  \<^item> \<open>Utils\<close> (\<^verbatim>\<open>utils.c\<close>) and \<open>Master\<close> (\<^verbatim>\<open>master.c\<close>): \<open>send_and_receive_frame\<close>, \<open>upload_loop\<close>,
    \<open>wait_processed\<close>, \<open>download_loop\<close>, the two loop bodies of \<open>main\<close> and \<open>main\<close>. The retrying loops
    return as soon as the slave answers, however much goes wrong before.
  \<^item> \<open>Link\<close>: both programs at the two ends of a line. What one side has put on it is what the other
    reads. A run of the master's \<open>main\<close> with one file, from opening it to the output file: what the slave
    makes of the picture arrives in that file (\<open>stream_survives\<close>), in a dry run the picture itself.
    \<open>Downlink\<close>: with the accelerator and the entropy coder behind the slave, that file decodes to the
    accelerator's coefficients, or the slave reads a mixture that nobody has written.
  \<^item> \<open>Terminal\<close> (\<open>init_tty\<close>, \<open>fd_to_epoll_fds\<close>) and \<open>Programs\<close> (both \<open>main\<close> functions): options, device,
    terminal, loops and cleanup, over a record \<open>os_t\<close> of what the system holds; what a dry run over
    given files saves, what can stop the command loop, and when the terminal is restored.
  \<^item> \<open>Coder\<close>, \<open>EncTable\<close>, \<open>Codings\<close> (\<^verbatim>\<open>arithmetic_coding.cpp\<close>, \<^verbatim>\<open>coding.cpp\<close>): the bit stream, the
    arithmetic coder, the statistics of a mixture and the loops over 39 sub-bands. The coder's words
    implement interval coding in unbounded precision (a refinement, step by step), a reference
    decoder inverts it, and \<open>codings\<close> is inverted by a decoder that knows the mixtures. A mixture is an
    option, \<open>None\<close> while it is not written; reading such a one is a fault. \<open>Encoding\<close>: the stream of the
    slave, whose sub-bands cut every channel without gap or overlap. As \<open>entropy_to_gmm\<close> writes only
    every ninth mixture, there is a stream only when every sub-band is one value throughout, and it holds
    all coefficients; on all other pictures the slave faults.
  \<^item> \<open>Dma\<close> (\<^verbatim>\<open>axi_tangxi.c\<close> of the module): bursts and burst loops as lists of register writes and
    waits. The locales \<open>burst_transfer\<close> and \<open>moving_transfer\<close> hold what the four loops share.
  \<^item> \<open>Driver\<close> (\<^verbatim>\<open>axitangxi_dev.c\<close>, \<^verbatim>\<open>axi_tangxi_platform.c\<close>): open, close, mmap, ioctl, interrupts,
    loading and unloading; the table of mappings as an abstract specification of the address
    translation, and ownership of the DMA regions as its invariant.
  \<^item> \<open>Bare\<close>, \<open>Board\<close> (\<^verbatim>\<open>hw/src/axi_tangxi.c\<close>, \<^verbatim>\<open>hw/src/main.c\<close>): the same bursts without an operating
    system, with an interrupt handler that can run between any two steps the program can tell apart;
    equality with the kernel module's bursts (locale \<open>board_batch\<close>), and what a whole run does.

  \<^bold>\<open>How the parts meet.\<close> \<open>Programs\<close> composes each program;
  \<open>Link\<close> composes \<open>Master\<close>, \<open>Transport\<close> and
  \<open>Slave\<close> over the bytes on the line; the transfer requests of \<open>PlLib\<close> meet
  \<open>Driver\<close> and \<open>Dma\<close> in \<open>library_requests_move_the_block\<close>;
  \<open>Slave\<close> takes the entropy coder as the parameter \<open>e_codings\<close>, and
  \<open>Encoding\<close> puts \<open>Codings\<close> in its place and says, for channels of the sizes the
  program expects, for which pictures there is a stream and what it decodes to.

  \<^bold>\<open>Bounds.\<close> Theorems on whole pictures need at most 65535 frames, the range of the 16-bit frame
  number; those on DMA a burst of whole 16-byte beats, which the library always sets up. Sizes of
  transfers count modulo \<open>2 ^ 32\<close> where the code holds them in 32 bits, and the theorems say so.

  \<^bold>\<open>What goes wrong.\<close> Where the code's behaviour is a fault the theorem states the fault: the arrays
  of frames that a longer announcement overruns, the mixtures that are read but never written, failing
  system calls that pass an unsigned comparison, the memory the driver frees too early, bursts of no
  bytes, the interrupt that comes before its completion is installed, and on the bare board the
  polled register that the handler clears and the accelerator that is started unconfigured. The blocks
  of the names of output files are a byte short. \<open>malloc\<close> may return a larger block than was asked for
  (\<open>malloc_usable_size\<close>), so the usable size of a block is a parameter: where it is the size that was
  asked for no file is saved (\<open>encoding_overruns_the_name\<close>, \<open>download_overruns_the_name\<close>), and the theorems on
  saved files assume that it is at least one byte more. After a fault that is undefined behaviour nothing is
  claimed; a program that \<open>err\<close> ends leaves the terminal raw.

  \<^bold>\<open>Not modelled.\<close> Logging, \<open>setlogmask\<close> and the reading of the clock: output without a result the
  rest depends on. \<open>getopt_long\<close>, \<open>wordexp\<close>, \<open>strtol\<close>, the kernel's and the Xilinx
  libraries' functions are parameters, given by what they return. \<open>calloc\<close> for the reception buffer of
  \<open>receive_data_frames\<close>, whose result the code does not check, is taken to succeed. The effect of a DMA on memory
  contents is the hardware's; the theorems say which bytes the registers ask to be moved. Verilog,
  build scripts and the unit tests are not C code of the program.
\<close>

end
